(* ===== verification/Prelude.thy ===== *)
theory Prelude
  imports Main "HOL-Library.Word"
begin

text \<open>
  Shared vocabulary of the development: machine integers at the widths the C code uses,
  byte buffers of fixed size with the block operations of the C library
  (\<open>memcpy\<close>, stores through a pointer), the faults that undefined or aborting C code
  is modelled by, and the little-endian and big-endian integer codings.
\<close>

unbundle bit_operations_syntax

section \<open>Machine integers\<close>

type_synonym byte = "8 word"
type_synonym u16 = "16 word"
type_synonym u32 = "32 word"
type_synonym u64 = "64 word"

named_theorems buf_simps \<open>equations that evaluate block operations on buffers\<close>
named_theorems word_simps \<open>equations that move words to natural numbers\<close>

lemma unat_byte_lt [simp]: "unat (b :: byte) < 256"
  using unsigned_less [of b, where ?'a = nat] by simp

lemma unat_byte_le [simp]: "unat (b :: byte) \<le> 255"
  using unat_byte_lt [of b] by linarith

lemma unat_u16_lt [simp]: "unat (w :: u16) < 65536"
  using unsigned_less [of w, where ?'a = nat] by simp

lemma unat_ucast_byte_u16 [simp, word_simps]: "unat (ucast (b :: byte) :: u16) = unat b"
  by (simp add: unsigned_ucast_eq take_bit_eq_mod less_trans [OF unat_byte_lt])

lemma unat_ucast_byte_u32 [simp, word_simps]: "unat (ucast (b :: byte) :: u32) = unat b"
  by (simp add: unsigned_ucast_eq take_bit_eq_mod less_trans [OF unat_byte_lt])

lemma unat_drop_bit: "unat (drop_bit n w) = unat w div 2 ^ n"
  by (subst unsigned_drop_bit_eq) (simp only: take_bit_nat_eq_self [OF unsigned_less] drop_bit_eq_div)

lemma unat_ucast_mod: "unat (ucast (w :: 'a::len word) :: byte) = unat w mod 256"
  by (simp add: unsigned_ucast_eq take_bit_eq_mod)

lemma unat_of_nat_u16 [word_simps]: "n < 65536 \<Longrightarrow> unat (of_nat n :: u16) = n"
  by (simp add: unsigned_of_nat take_bit_nat_eq_self)

lemma unat_of_nat_byte [word_simps]: "n < 256 \<Longrightarrow> unat (of_nat n :: byte) = n"
  by (simp add: unsigned_of_nat take_bit_nat_eq_self)

lemma unat_of_nat_u32 [word_simps]: "n < 4294967296 \<Longrightarrow> unat (of_nat n :: u32) = n"
  by (simp add: unsigned_of_nat take_bit_nat_eq_self)

lemma unat_add_u32 [word_simps]:
  "unat (a :: u32) + unat b < 4294967296 \<Longrightarrow> unat (a + b) = unat a + unat b"
  by (simp add: unat_word_ariths)

lemma unat_add_u16 [word_simps]:
  "unat (a :: u16) + unat b < 65536 \<Longrightarrow> unat (a + b) = unat a + unat b"
  by (simp add: unat_word_ariths)

lemma unat_sub_u16 [word_simps]: "b \<le> (a :: u16) \<Longrightarrow> unat (a - b) = unat a - unat b"
  by (simp add: unat_sub)

section \<open>Faults\<close>

text \<open>
  What the C standard leaves undefined, or what aborts the process, is a value of
  \<open>c_fault\<close>; an operation that may run into one returns \<open>Inl\<close> of it.
\<close>

datatype c_fault = OutOfBounds | UseAfterFree | NullDeref | AssertFailed

section \<open>Buffers\<close>

text \<open>A read of \<open>n\<close> elements at \<open>off\<close>, and a block store at \<open>off\<close>.\<close>

definition subbuf :: "nat \<Rightarrow> nat \<Rightarrow> 'a list \<Rightarrow> 'a list" where
  "subbuf off n buf = take n (drop off buf)"

definition overwrite :: "'a list \<Rightarrow> nat \<Rightarrow> 'a list \<Rightarrow> 'a list" where
  "overwrite buf off bs = take off buf @ bs @ drop (off + length bs) buf"

text \<open>
  \<open>memcpy (buf, buf + off, n)\<close>: moving the rest of a receive buffer to its front. Where the two
  regions overlap (\<open>off < n\<close>) the language leaves \<open>memcpy\<close> undefined; the model is a \<open>memcpy\<close> that copies
  byte by byte from the front, which is what the code relies on.
\<close>

primrec copy_bytes :: "nat \<Rightarrow> nat \<Rightarrow> nat \<Rightarrow> 'a list \<Rightarrow> 'a list" where
  "copy_bytes dst src 0 buf = buf"
| "copy_bytes dst src (Suc n) buf = copy_bytes (Suc dst) (Suc src) n (buf[dst := buf ! src])"

definition copy_down :: "'a list \<Rightarrow> nat \<Rightarrow> nat \<Rightarrow> 'a list" where
  "copy_down buf off n = copy_bytes 0 off n buf"

text \<open>A store that checks the bounds of the object it writes to.\<close>

definition store :: "'a list \<Rightarrow> nat \<Rightarrow> 'a list \<Rightarrow> c_fault + 'a list" where
  "store buf off bs =
     (if off + length bs \<le> length buf then Inr (overwrite buf off bs) else Inl OutOfBounds)"

lemma length_subbuf [simp]: "length (subbuf off n buf) = min n (length buf - off)"
  by (simp add: subbuf_def)

lemma length_overwrite [simp]:
  "off + length bs \<le> length buf \<Longrightarrow> length (overwrite buf off bs) = length buf"
  by (simp add: overwrite_def)

lemma copy_bytes_overwrite:
  "dst \<le> src \<Longrightarrow> src + n \<le> length buf \<Longrightarrow> copy_bytes dst src n buf = overwrite buf dst (subbuf src n buf)"
proof (induction n arbitrary: dst src buf)
  case (Suc n)
  let ?b = "buf[dst := buf ! src]"
  have "subbuf (Suc src) n ?b = subbuf (Suc src) n buf"
    using Suc.prems by (simp add: subbuf_def)
  moreover have "subbuf src (Suc n) buf = buf ! src # subbuf (Suc src) n buf"
    using Suc.prems by (simp add: subbuf_def Cons_nth_drop_Suc [symmetric])
  moreover have "overwrite ?b (Suc dst) bs = overwrite buf dst (buf ! src # bs)" for bs
    using Suc.prems by (simp add: overwrite_def take_Suc_conv_app_nth)
  ultimately show ?case
    using Suc.IH [of "Suc dst" "Suc src" ?b] Suc.prems by simp
qed (simp add: overwrite_def subbuf_def)

lemma copy_down_overwrite: "off + n \<le> length buf \<Longrightarrow> copy_down buf off n = overwrite buf 0 (subbuf off n buf)"
  by (simp add: copy_down_def copy_bytes_overwrite)

lemma length_copy_bytes [simp]: "length (copy_bytes dst src n buf) = length buf"
  by (induction n arbitrary: dst src buf) simp_all

lemma length_copy_down [simp]: "length (copy_down buf off n) = length buf"
  by (simp add: copy_down_def)

lemma copy_down_0 [simp]: "copy_down buf 0 n = buf"
proof -
  have "copy_bytes k k n buf = buf" for k
    by (induction n arbitrary: k) simp_all
  then show ?thesis by (simp add: copy_down_def)
qed

lemma take_overwrite_append [buf_simps]:
  "off + length bs \<le> length buf \<Longrightarrow>
     take (off + length bs) (overwrite buf off bs) = take off buf @ bs"
  by (simp add: overwrite_def)

lemma take_overwrite_before [buf_simps]:
  "n \<le> off \<Longrightarrow> off \<le> length buf \<Longrightarrow> take n (overwrite buf off bs) = take n buf"
  by (simp add: overwrite_def min_def)

lemma take_copy_down [buf_simps]:
  "off + n \<le> length buf \<Longrightarrow> take n (copy_down buf off n) = subbuf off n buf"
  by (simp add: copy_down_overwrite overwrite_def subbuf_def)

lemma subbuf_overwrite_same [buf_simps]:
  "off + length bs \<le> length buf \<Longrightarrow> n = length bs \<Longrightarrow> subbuf off n (overwrite buf off bs) = bs"
  by (simp add: subbuf_def overwrite_def)

lemma overwrite_Nil [simp]: "overwrite buf off [] = buf"
  by (simp add: overwrite_def)

lemma overwrite_overwrite:
  "off + length a \<le> length buf \<Longrightarrow> overwrite (overwrite buf off a) (off + length a) b = overwrite buf off (a @ b)"
  by (simp add: overwrite_def ac_simps)

lemma nth_subbuf: "i < n \<Longrightarrow> off + n \<le> length buf \<Longrightarrow> subbuf off n buf ! i = buf ! (off + i)"
  by (simp add: subbuf_def)

lemma subbuf_0 [simp]: "subbuf 0 n buf = take n buf"
  by (simp add: subbuf_def)

lemma subbuf_take [buf_simps]: "off + n \<le> m \<Longrightarrow> subbuf off n (take m buf) = subbuf off n buf"
  by (simp add: subbuf_def drop_take min_def)

lemma drop_take_subbuf: "drop off (take (off + n) buf) = subbuf off n buf"
  by (simp add: subbuf_def drop_take)

lemma take_append_subbuf: "take n buf @ subbuf n m buf = take (n + m) buf"
  by (simp add: subbuf_def take_add)

lemma subbuf_append: "subbuf a n buf @ subbuf (a + n) m buf = subbuf a (n + m) buf"
  unfolding subbuf_def by (metis add.commute drop_drop take_add)

text \<open>Two ways to cut a stream: the shorter first part is a prefix of the longer.\<close>

lemma append_short:
  "xs @ ys = p @ q \<Longrightarrow> length xs \<le> length p \<Longrightarrow> p = xs @ drop (length xs) p \<and> ys = drop (length xs) p @ q"
  by (metis append_eq_append_conv_if append_take_drop_id)

lemma append_long:
  "xs @ ys = p @ q \<Longrightarrow> length p \<le> length xs \<Longrightarrow> take (length p) xs = p \<and> q = drop (length p) xs @ ys"
  by (metis append_eq_append_conv_if append_take_drop_id append_eq_conv_conj take_all_iff)

lemma store_Inr: "store buf off bs = Inr b \<longleftrightarrow> off + length bs \<le> length buf \<and> b = overwrite buf off bs"
  by (auto simp: store_def)

lemma store_Inl: "store buf off bs = Inl e \<longleftrightarrow> length buf < off + length bs \<and> e = OutOfBounds"
  by (auto simp: store_def)

section \<open>Integer codings\<close>

text \<open>
  \<open>STREAM_TO_UINT16\<close> and \<open>UINT16_TO_STREAM\<close> of \<open>skw_common.h\<close>: 16 bits, low byte first.
  On the little-endian targets the library is built for, \<open>*(uint16_t *)&buf[i]\<close> is the same.
\<close>

definition le16 :: "byte \<Rightarrow> byte \<Rightarrow> u16" where
  "le16 lo hi = ucast lo + push_bit 8 (ucast hi)"

definition u16_stream :: "u16 \<Rightarrow> byte list" where
  "u16_stream w = [ucast w, ucast (drop_bit 8 w)]"

lemma unat_le16 [simp, word_simps]: "unat (le16 lo hi) = unat lo + 256 * unat hi"
proof -
  have hi: "unat (push_bit 8 (ucast hi :: u16)) = 256 * unat hi"
    by (simp add: push_bit_eq_mult unat_word_ariths)
  have "unat lo + 256 * unat hi < 65536"
    using unat_byte_le [of lo] unat_byte_le [of hi] by linarith
  then show ?thesis
    by (simp add: le16_def unat_word_ariths hi)
qed

lemma length_u16_stream [simp]: "length (u16_stream w) = 2"
  by (simp add: u16_stream_def)

lemma le16_u16_stream: "u16_stream w = [lo, hi] \<Longrightarrow> le16 lo hi = w"
proof -
  assume "u16_stream w = [lo, hi]"
  then have lh: "lo = ucast w" "hi = ucast (drop_bit 8 w)"
    by (simp_all add: u16_stream_def)
  have "unat (le16 lo hi) = unat w mod 256 + 256 * (unat w div 256)"
    using unat_u16_lt [of w] by (simp add: lh unat_ucast_mod unat_drop_bit less_mult_imp_div_less)
  then show ?thesis
    by (simp add: word_unat_eq_iff)
qed

text \<open>\<open>htonl\<close> and a 4-byte write: 32 bits, high byte first.\<close>

definition be32 :: "u32 \<Rightarrow> byte list" where
  "be32 w = [ucast (drop_bit 24 w), ucast (drop_bit 16 w), ucast (drop_bit 8 w), ucast w]"

definition be32_val :: "byte list \<Rightarrow> nat" where
  "be32_val bs = foldl (\<lambda>a b. 256 * a + unat b) 0 bs"

lemma length_be32 [simp]: "length (be32 w) = 4"
  by (simp add: be32_def)

lemma be32_val_be32: "be32_val (be32 w) = unat w"
proof -
  define a where "a = unat w div 256"
  define b where "b = a div 256"
  define c where "c = b div 256"
  note abc = a_def b_def c_def
  have "unat w < 4294967296"
    using unsigned_less [of w, where ?'a = nat] by simp
  then have "c < 256"
    by (simp add: abc div_mult2_eq [symmetric] less_mult_imp_div_less)
  have "be32_val (be32 w) =
    256 * (256 * (256 * (c mod 256) + b mod 256) + a mod 256) + unat w mod 256"
    by (simp add: be32_val_def be32_def unat_ucast_mod unat_drop_bit abc div_mult2_eq [symmetric])
  also have "\<dots> = 256 * (256 * (256 * c + b mod 256) + a mod 256) + unat w mod 256"
    using \<open>c < 256\<close> by simp
  also have "\<dots> = unat w"
    by (simp only: c_def b_def a_def mult_div_mod_eq)
  finally show ?thesis .
qed

end
