(* ===== verification/Hci.thy ===== *)
theory Hci
  imports Prelude
begin

text \<open>
  The HCI transport vocabulary of \<open>skw_btsnoop.h\<close> and \<open>scom_vendor.h\<close> (packet types, header
  sizes, length fields) and the hexadecimal dump of \<open>scom_vendor.c\<close> that the log lines use; and, at the
  end, the wire format of the packets as the standard has it, which is the specification of the code.
\<close>

section \<open>Packet types and preambles\<close>

abbreviation (input) HCI_COMMAND_PKT :: byte where "HCI_COMMAND_PKT \<equiv> 0x01"
abbreviation (input) HCI_ACLDATA_PKT :: byte where "HCI_ACLDATA_PKT \<equiv> 0x02"
abbreviation (input) HCI_SCODATA_PKT :: byte where "HCI_SCODATA_PKT \<equiv> 0x03"
abbreviation (input) HCI_EVENT_PKT :: byte where "HCI_EVENT_PKT \<equiv> 0x04"
abbreviation (input) HCI_ISO_PKT :: byte where "HCI_ISO_PKT \<equiv> 0x05"
abbreviation (input) HCI_EVENT_SKWLOG :: byte where "HCI_EVENT_SKWLOG \<equiv> 0x07"

text \<open>The chip identifiers of \<open>bt_vendor_skw.h\<close>.\<close>

abbreviation (input) SKW_CHIPID_6316 :: u16 where "SKW_CHIPID_6316 \<equiv> 0x5301"
abbreviation (input) SKW_CHIPID_6160 :: u16 where "SKW_CHIPID_6160 \<equiv> 0x0017"

text \<open>The table \<open>hci_preamble_sizes\<close>, indexed by packet type.\<close>

definition hci_preamble_sizes :: "byte list" where
  "hci_preamble_sizes = [0, 3, 4, 3, 2, 4, 0, 3]"

text \<open>\<open>hci_preamble_sizes[pkt_type]\<close> widened to the 16 bits of the variable it is stored in.\<close>

definition preamble_size :: "byte \<Rightarrow> u16" where
  "preamble_size t = ucast (hci_preamble_sizes ! unat t)"

lemma preamble_size_simps [simp]:
  "preamble_size HCI_COMMAND_PKT = 3"
  "preamble_size HCI_ACLDATA_PKT = 4"
  "preamble_size HCI_SCODATA_PKT = 3"
  "preamble_size HCI_EVENT_PKT = 2"
  "preamble_size HCI_ISO_PKT = 4"
  "preamble_size HCI_EVENT_SKWLOG = 3"
  by (simp_all add: preamble_size_def hci_preamble_sizes_def)

section \<open>The hexadecimal dump\<close>

text \<open>\<open>hex2char\<close>: one digit, \<open>'\0'\<close> outside 0..15.\<close>

definition hex2char :: "int \<Rightarrow> byte" where
  "hex2char num =
     (if num \<ge> 0 \<and> num \<le> 9 then word_of_int (num + 48)
      else if num > 9 \<and> num \<le> 15 then word_of_int ((num - 10) + 65)
      else 0)"

text \<open>
  \<open>hex2String\<close>: two digits for each of the first \<open>N\<close> bytes, then a terminator at \<open>str[N << 1]\<close>.
  It reads \<open>hex[0..N-1]\<close> and writes \<open>str[0..2N]\<close>; anything less is out of bounds.
\<close>

fun hex_loop :: "byte list \<Rightarrow> byte list \<Rightarrow> nat \<Rightarrow> nat \<Rightarrow> byte list" where
  "hex_loop hex str i 0 = str"
| "hex_loop hex str i (Suc n) =
     (let j = 2 * i;
          str1 = str[j := hex2char (uint (drop_bit 4 (hex ! i AND 0xF0)))];
          str2 = str1[j + 1 := hex2char (uint (hex ! i AND 0x0F))]
      in hex_loop hex str2 (Suc i) n)"

definition hex2String :: "byte list \<Rightarrow> byte list \<Rightarrow> nat \<Rightarrow> c_fault + byte list" where
  "hex2String hex str N =
     (if N \<le> length hex \<and> 2 * N < length str
      then Inr ((hex_loop hex str 0 N)[2 * N := 0])
      else Inl OutOfBounds)"

text \<open>The reader of such a dump, the specification the dump is checked against.\<close>

definition char2hex :: "byte \<Rightarrow> nat" where
  "char2hex c = (if 48 \<le> unat c \<and> unat c \<le> 57 then unat c - 48 else unat c - 55)"

fun unhex :: "byte list \<Rightarrow> byte list" where
  "unhex (h # l # cs) = of_nat (16 * char2hex h + char2hex l) # unhex cs"
| "unhex _ = []"

definition hex_digits :: "byte \<Rightarrow> byte list" where
  "hex_digits b =
     [hex2char (uint (drop_bit 4 (b AND 0xF0))), hex2char (uint (b AND 0x0F))]"

lemma char2hex_hex2char: "n < 16 \<Longrightarrow> char2hex (hex2char (int n)) = n"
proof -
  assume "n < 16"
  then have "n \<in> {0, 1, 2, 3, 4, 5, 6, 7, 8, 9, 10, 11, 12, 13, 14, 15}"
    unfolding insert_iff empty_iff by presburger
  then show ?thesis
    by (auto simp: char2hex_def hex2char_def)
qed

lemma hex2char_not_nul: "0 \<le> n \<Longrightarrow> n < 16 \<Longrightarrow> hex2char n \<noteq> 0"
proof -
  assume "0 \<le> n" "n < 16"
  then have "n \<in> {0, 1, 2, 3, 4, 5, 6, 7, 8, 9, 10, 11, 12, 13, 14, 15}"
    unfolding insert_iff empty_iff by presburger
  then show ?thesis
    by (auto simp: hex2char_def)
qed

lemma nibbles:
  fixes b :: byte
  shows "unat (drop_bit 4 (b AND 0xF0)) = unat b div 16" and "unat (b AND 0x0F) = unat b mod 16"
proof -
  have "b AND 0x0F = take_bit 4 b"
    by (simp add: take_bit_eq_mask mask_eq_exp_minus_1)
  then show "unat (b AND 0x0F) = unat b mod 16"
    by (simp only: unsigned_take_bit_eq) (simp add: take_bit_eq_mod)
  have "drop_bit 4 (b AND 0xF0) = drop_bit 4 b"
  proof (rule bit_word_eqI)
    fix n
    assume "n < LENGTH(8)"
    then have "n \<in> {0, 1, 2, 3, 4, 5, 6, 7}" by auto
    then show "bit (drop_bit 4 (b AND 0xF0)) n = bit (drop_bit 4 b) n"
      by (auto simp: bit_drop_bit_eq bit_and_iff bit_numeral_word_iff dest: bit_imp_le_length)
  qed
  then show "unat (drop_bit 4 (b AND 0xF0)) = unat b div 16"
    by (simp add: unat_drop_bit)
qed

lemma hex_uint:
  fixes b :: byte
  shows "uint (drop_bit 4 (b AND 0xF0)) = int (unat b div 16)"
    and "uint (b AND 0x0F) = int (unat b mod 16)"
  by (metis nibbles(1) uint_nat) (metis nibbles(2) uint_nat)

lemma unhex_hex_digits: "unhex (hex_digits b @ cs) = b # unhex cs"
proof -
  have "unat b div 16 < 16"
    using unat_byte_lt [of b] by linarith
  then have "unhex (hex_digits b @ cs) = of_nat (16 * (unat b div 16) + unat b mod 16) # unhex cs"
    unfolding hex_digits_def hex_uint by (simp only: append.simps unhex.simps char2hex_hex2char)
  then show ?thesis
    by simp
qed

lemma unhex_digits: "unhex (concat (map hex_digits bs)) = bs"
  by (induction bs) (simp_all add: unhex_hex_digits)

lemma hex_loop_eq:
  "i + n \<le> length hex \<Longrightarrow> 2 * (i + n) \<le> length str \<Longrightarrow>
   hex_loop hex str i n =
     overwrite str (2 * i) (concat (map hex_digits (subbuf i n hex)))"
proof (induction n arbitrary: i str)
  case 0
  then show ?case by (simp add: overwrite_def subbuf_def)
next
  case (Suc n)
  let ?d = "hex_digits (hex ! i)"
  have shift: "Suc (Suc (k - 2)) = k" if "\<not> k \<le> Suc (2 * i)" for k
    using that by arith
  have upd: "str[2 * i := ?d ! 0, 2 * i + 1 := ?d ! 1] = overwrite str (2 * i) ?d"
    using Suc.prems
    by (intro nth_equalityI)
      (auto simp: overwrite_def hex_digits_def nth_list_update nth_append min_def nth_Cons' shift)
  have "hex_loop hex str i (Suc n) = hex_loop hex (overwrite str (2 * i) ?d) (Suc i) n"
    using upd by (simp add: hex_digits_def Let_def)
  also have "\<dots> = overwrite (overwrite str (2 * i) ?d) (2 * Suc i)
      (concat (map hex_digits (subbuf (Suc i) n hex)))"
    using Suc.prems by (intro Suc.IH) (auto simp: hex_digits_def)
  also have "\<dots> = overwrite str (2 * i) (?d @ concat (map hex_digits (subbuf (Suc i) n hex)))"
    using Suc.prems by (simp add: overwrite_def hex_digits_def add.commute)
  also have "?d @ concat (map hex_digits (subbuf (Suc i) n hex)) =
      concat (map hex_digits (subbuf i (Suc n) hex))"
    using Suc.prems by (simp add: subbuf_def Cons_nth_drop_Suc [symmetric])
  finally show ?case .
qed

lemma length_concat_hex_digits [simp]: "length (concat (map hex_digits bs)) = 2 * length bs"
  by (induction bs) (simp_all add: hex_digits_def)

lemma zero_notin_hex_digits: "0 \<notin> set (hex_digits b)"
proof -
  have "hex2char (int (unat b div 16)) \<noteq> 0"
    using unat_byte_lt [of b] by (intro hex2char_not_nul) linarith+
  moreover have "hex2char (int (unat b mod 16)) \<noteq> 0"
    by (intro hex2char_not_nul) simp_all
  ultimately show ?thesis
    unfolding hex_digits_def hex_uint by simp
qed

text \<open>
  The hexadecimal dump of a buffer is faithful: for a dump that fits its destination, the
  characters before the terminator decode back to exactly the dumped bytes, the terminator is in
  place and nothing beyond it is touched.
\<close>

theorem hex2String_roundtrip:
  assumes "N \<le> length hex" and "2 * N < length str"
  shows "\<exists>out. hex2String hex str N = Inr out \<and> length out = length str \<and>
           unhex (take (2 * N) out) = take N hex \<and> out ! (2 * N) = 0 \<and>
           0 \<notin> set (take (2 * N) out) \<and> drop (2 * N + 1) out = drop (2 * N + 1) str"
proof -
  let ?ds = "concat (map hex_digits (take N hex))"
  let ?out = "(overwrite str 0 ?ds)[2 * N := 0]"
  have len: "length ?ds = 2 * N"
    using assms by simp
  have "hex2String hex str N = Inr ?out"
    using assms by (simp add: hex2String_def hex_loop_eq)
  moreover have "take (2 * N) ?out = ?ds"
    using assms len by (simp add: overwrite_def take_update_cancel)
  moreover have "drop (2 * N + 1) ?out = drop (2 * N + 1) str"
    using assms len by (simp add: overwrite_def drop_update_cancel)
  ultimately show ?thesis
    using assms len by (simp add: unhex_digits zero_notin_hex_digits)
qed

theorem hex2String_roundtrip_witness:
  "hex2String [0x1F, 0xA0] [9, 9, 9, 9, 9, 7] 2 = Inr [0x31, 0x46, 0x41, 0x30, 0, 7] \<and>
   (\<exists>out. hex2String [0x1F, 0xA0] [9, 9, 9, 9, 9, 7] 2 = Inr out \<and> unhex (take 4 out) = [0x1F, 0xA0])"
proof
  show "hex2String [0x1F, 0xA0] [9, 9, 9, 9, 9, 7] 2 = Inr [0x31, 0x46, 0x41, 0x30, 0, 7]"
    by code_simp
  have "(2::nat) \<le> length [0x1F, 0xA0 :: byte]" "2 * 2 < length [9, 9, 9, 9, 9, 7 :: byte]"
    by simp_all
  from hex2String_roundtrip [OF this]
  show "\<exists>out. hex2String [0x1F, 0xA0] [9, 9, 9, 9, 9, 7] 2 = Inr out \<and> unhex (take 4 out) = [0x1F, 0xA0]"
    by auto
qed


section \<open>Packets on the wire\<close>

text \<open>
  The packets of the host controller interface as the standard lays them out, and the log packet of this
  controller: the bytes of the header before the length, and the payload. Commands, SCO data and
  events have a length of one byte, the others of two, low byte first.
\<close>

datatype hci_packet =
    Hci_command byte byte "byte list"
  | Hci_acl byte byte "byte list"
  | Hci_sco byte byte "byte list"
  | Hci_event byte "byte list"
  | Hci_iso byte byte "byte list"
  | Skw_log byte "byte list"

fun hci_encode :: "hci_packet \<Rightarrow> byte list" where
  "hci_encode (Hci_command a b pl) = [0x01, a, b, of_nat (length pl)] @ pl"
| "hci_encode (Hci_acl a b pl) = [0x02, a, b, of_nat (length pl), of_nat (length pl div 256)] @ pl"
| "hci_encode (Hci_sco a b pl) = [0x03, a, b, of_nat (length pl)] @ pl"
| "hci_encode (Hci_event a pl) = [0x04, a, of_nat (length pl)] @ pl"
| "hci_encode (Hci_iso a b pl) = [0x05, a, b, of_nat (length pl), of_nat (length pl div 256)] @ pl"
| "hci_encode (Skw_log a pl) = [0x07, a, of_nat (length pl), of_nat (length pl div 256)] @ pl"

fun hci_fits :: "hci_packet \<Rightarrow> bool" where
  "hci_fits (Hci_command a b pl) \<longleftrightarrow> length pl < 256"
| "hci_fits (Hci_sco a b pl) \<longleftrightarrow> length pl < 256"
| "hci_fits (Hci_event a pl) \<longleftrightarrow> length pl < 256"
| "hci_fits (Hci_acl a b pl) \<longleftrightarrow> length pl < 65536"
| "hci_fits (Hci_iso a b pl) \<longleftrightarrow> length pl < 65536"
| "hci_fits (Skw_log a pl) \<longleftrightarrow> length pl < 65536"

fun is_command :: "hci_packet \<Rightarrow> bool" where
  "is_command (Hci_command a b pl) = True"
| "is_command _ = False"

fun is_event :: "hci_packet \<Rightarrow> bool" where
  "is_event (Hci_event a pl) = True"
| "is_event _ = False"

fun is_log :: "hci_packet \<Rightarrow> bool" where
  "is_log (Skw_log a pl) = True"
| "is_log _ = False"

text \<open>The channel of a packet, where every kind of packet has one of its own.\<close>

fun hci_channel :: "hci_packet \<Rightarrow> nat" where
  "hci_channel (Hci_acl a b pl) = 1"
| "hci_channel (Hci_sco a b pl) = 2"
| "hci_channel (Hci_iso a b pl) = 3"
| "hci_channel _ = 0"

lemma unat_of_nat_mod: "unat (of_nat n :: byte) = n mod 256"
  by (simp add: unsigned_of_nat take_bit_eq_mod)

lemma le16_of_nat: "n < 65536 \<Longrightarrow> unat (le16 (of_nat n) (of_nat (n div 256))) = n"
  by (simp add: unat_of_nat_mod)

lemma unat_ucast_of_nat: "n < 256 \<Longrightarrow> unat (ucast (of_nat n :: byte) :: u16) = n"
  by (simp add: unat_of_nat_mod)

lemma hci_encode_log: "hci_encode m ! 0 = 0x07 \<longleftrightarrow> is_log m"
  by (cases m) simp_all

end
