(* ===== verification/Deframe.thy ===== *)
theory Deframe
  imports Prelude
begin

text \<open>
  Self-delimiting frames: the interface every byte format of this library has (controller
  packets, host packets, NV records, btsnoop records), and the facts about cutting a stream
  into frames that hold for all of them. A format is a function \<open>need\<close> that says how long the
  frame at the front of a stream is, once enough of its header is there.
\<close>

section \<open>Cutting a stream\<close>

text \<open>The maximal sequence of complete frames at the front of a stream, and what is left.\<close>

function deframe :: "('a list \<Rightarrow> nat option) \<Rightarrow> 'a list \<Rightarrow> 'a list list \<times> 'a list" where
  "deframe need xs =
     (case need xs of
        None \<Rightarrow> ([], xs)
      | Some n \<Rightarrow>
          if 0 < n \<and> n \<le> length xs
          then (take n xs # fst (deframe need (drop n xs)), snd (deframe need (drop n xs)))
          else ([], xs))"
  by pat_completeness auto
termination
  by (relation "measure (\<lambda>(need, xs). length xs)") auto

declare deframe.simps [simp del]

text \<open>Cutting a stream that arrives in chunks: what is left waits for the next chunk.\<close>

fun feed :: "('a list \<Rightarrow> nat option) \<Rightarrow> 'a list \<Rightarrow> 'a list list \<Rightarrow> 'a list list \<times> 'a list" where
  "feed need r [] = ([], r)"
| "feed need r (c # cs) =
     (let (ps, r1) = deframe need (r @ c); (qs, r2) = feed need r1 cs in (ps @ qs, r2))"

section \<open>The interface\<close>

locale frame_format =
  fixes need :: "'a list \<Rightarrow> nat option"
  assumes need_pos: "need xs = Some n \<Longrightarrow> 0 < n"
    and need_append: "need xs = Some n \<Longrightarrow> need (xs @ ys) = Some n"
    and need_take: "need xs = Some n \<Longrightarrow> n \<le> length xs \<Longrightarrow> need (take n xs) = Some n"
begin

lemma deframe_complete:
  "need xs = Some n \<Longrightarrow> n \<le> length xs \<Longrightarrow>
     deframe need xs = (take n xs # fst (deframe need (drop n xs)), snd (deframe need (drop n xs)))"
  by (subst deframe.simps) (simp add: need_pos)

lemma deframe_incomplete:
  "(\<And>n. need xs = Some n \<Longrightarrow> length xs < n) \<Longrightarrow> deframe need xs = ([], xs)"
  by (subst deframe.simps) (auto split: option.split)

lemma deframe_Nil [simp]: "deframe need [] = ([], [])"
  by (rule deframe_incomplete) (auto dest: need_pos)

lemma deframe_cases [case_names complete incomplete]:
  obtains n where "need xs = Some n" "n \<le> length xs"
    | "\<And>n. need xs = Some n \<Longrightarrow> length xs < n"
  by (metis not_le)

text \<open>Nothing is lost: the frames and the rest make up the stream.\<close>

lemma deframe_concat: "concat (fst (deframe need xs)) @ snd (deframe need xs) = xs"
proof (induction xs rule: length_induct)
  case (1 xs)
  show ?case
  proof (cases xs rule: deframe_cases)
    case (complete n)
    moreover have "length (drop n xs) < length xs"
      using complete need_pos by fastforce
    ultimately show ?thesis
      using 1 by (simp add: deframe_complete)
  next
    case incomplete
    then show ?thesis by (simp add: deframe_incomplete)
  qed
qed

text \<open>Each piece is a frame.\<close>

lemma deframe_frames_of: "p \<in> set (fst (deframe need xs)) \<Longrightarrow> need p = Some (length p)"
proof (induction xs rule: length_induct)
  case (1 xs)
  show ?case
  proof (cases xs rule: deframe_cases)
    case (complete n)
    moreover have "length (drop n xs) < length xs"
      using complete need_pos by fastforce
    ultimately show ?thesis
      using "1.IH" [rule_format, of "drop n xs"] "1.prems" need_take
      by (auto simp: deframe_complete min_def)
  next
    case incomplete
    with 1 show ?thesis by (simp add: deframe_incomplete)
  qed
qed

text \<open>A concatenation of frames is cut at their boundaries.\<close>

lemma deframe_frame: "need p = Some (length p) \<Longrightarrow>
    deframe need (p @ ys) = (p # fst (deframe need ys), snd (deframe need ys))"
  using need_append [of p "length p" ys] by (simp add: deframe_complete)

lemma deframe_frames: "\<forall>p \<in> set ps. need p = Some (length p) \<Longrightarrow>
    deframe need (concat ps @ r) = (ps @ fst (deframe need r), snd (deframe need r))"
  by (induction ps) (simp_all add: deframe_frame)

lemma deframe_partial:
  "need (xs @ ys) = Some (length (xs @ ys)) \<Longrightarrow> ys \<noteq> [] \<Longrightarrow> deframe need xs = ([], xs)"
  using need_append by (intro deframe_incomplete) fastforce

text \<open>Framing is unambiguous.\<close>

lemma frames_unique:
  assumes "\<forall>p \<in> set ps. need p = Some (length p)" "\<forall>q \<in> set qs. need q = Some (length q)"
    and "concat ps = concat qs"
  shows "ps = qs"
  using deframe_frames [OF assms(1), of "[]"] deframe_frames [OF assms(2), of "[]"] assms(3)
  by simp

text \<open>The rest holds no complete frame, and more input continues from it.\<close>

lemma deframe_append:
  "deframe need (xs @ ys) =
     (fst (deframe need xs) @ fst (deframe need (snd (deframe need xs) @ ys)),
      snd (deframe need (snd (deframe need xs) @ ys)))"
proof -
  have "xs @ ys = concat (fst (deframe need xs)) @ (snd (deframe need xs) @ ys)"
    using deframe_concat [of xs] by (metis append_assoc)
  then show ?thesis
    using deframe_frames [of "fst (deframe need xs)" "snd (deframe need xs) @ ys"] deframe_frames_of
    by metis
qed

lemma deframe_rest: "deframe need (snd (deframe need xs)) = ([], snd (deframe need xs))"
proof -
  have "deframe need xs =
    (fst (deframe need xs) @ fst (deframe need (snd (deframe need xs))),
     snd (deframe need (snd (deframe need xs))))"
    using deframe_append [of xs "[]"] by simp
  then show ?thesis
    by (metis append_self_conv fst_conv prod.collapse snd_conv)
qed

text \<open>How the stream is chopped into chunks does not matter.\<close>

lemma feed_deframe: "deframe need r = ([], r) \<Longrightarrow> feed need r cs = deframe need (r @ concat cs)"
proof (induction cs arbitrary: r)
  case Nil
  then show ?case by simp
next
  case (Cons c cs)
  have "feed need (snd (deframe need (r @ c))) cs =
      deframe need (snd (deframe need (r @ c)) @ concat cs)"
    by (rule Cons.IH) (rule deframe_rest)
  then show ?case
    using deframe_append [of "r @ c" "concat cs"] by (simp add: split_beta)
qed

text \<open>
  A receiver that has passed on some whole frames \<open>ps\<close> of a stream and holds the rest \<open>r\<close> has
  passed on a prefix of the stream's frames, and will find the others in \<open>r\<close>.
\<close>

lemma delivered_prefix:
  assumes "\<forall>p \<in> set ps. need p = Some (length p)" and "\<forall>q \<in> set qs. need q = Some (length q)"
    and "concat qs = concat ps @ r"
  shows "qs = ps @ fst (deframe need r) \<and> snd (deframe need r) = []"
  using deframe_frames [OF assms(1), of r] deframe_frames [OF assms(2), of "[]"] assms(3) by simp

end

end
