(* ===== verification/Scomm.thy ===== *)
theory Scomm
  imports Prelude
begin

text \<open>
  The state of a communication port (\<open>scomm_vnd_st\<close>) and the operations of
  \<open>scom_vendor.c\<close> that set ports up: initialisation, naming, the baud-rate table and the
  opening of the UART and USB/SDIO device nodes.
\<close>

section \<open>The port state\<close>

text \<open>
  One element of \<open>scomm_vnd[]\<close>. Of \<open>struct termios\<close> the fields the code sets are kept:
  the control flags and the two line speeds.
\<close>

datatype speed_t = B0 | B600 | B1200 | B9600 | B19200 | B57600 | B115200 | B230400 | B460800
  | B921600 | B1000000 | B1500000 | B2000000 | B3000000 | B4000000

record termios =
  c_cflag :: u32
  c_ispeed :: speed_t
  c_ospeed :: speed_t

record scomm_vnd_st =
  fd :: int
  uart_fd0 :: int
  uart_fd1 :: int
  signal_fd0 :: int
  signal_fd1 :: int
  epoll_fd :: int
  tios :: termios
  port_name :: string
  thread_socket_id :: int
  thread_uart_id :: int
  thread_running :: bool
  recv_comm_thread_running :: bool
  is_busying :: bool
  driver_state :: bool
  mode :: int

definition DEVICE_NODE_MAX_LEN :: nat where "DEVICE_NODE_MAX_LEN = 64"

definition BT_COM_PORT_SIZE :: nat where "BT_COM_PORT_SIZE = 4"

abbreviation (input) BT_COM_PORT_CMDEVT :: nat where "BT_COM_PORT_CMDEVT \<equiv> 0"
abbreviation (input) BT_COM_PORT_ACL :: nat where "BT_COM_PORT_ACL \<equiv> 1"
abbreviation (input) BT_COM_PORT_AUDIO :: nat where "BT_COM_PORT_AUDIO \<equiv> 2"
abbreviation (input) BT_COM_PORT_ISO :: nat where "BT_COM_PORT_ISO \<equiv> 3"
abbreviation (input) O_RDWR :: int where "O_RDWR \<equiv> 2"

text \<open>A port after \<open>memset (.., 0, sizeof (scomm_vnd_st))\<close>.\<close>

definition zero_scomm :: scomm_vnd_st where
  "zero_scomm = \<lparr>fd = 0, uart_fd0 = 0, uart_fd1 = 0, signal_fd0 = 0, signal_fd1 = 0, epoll_fd = 0,
     tios = \<lparr>c_cflag = 0, c_ispeed = B0, c_ospeed = B0\<rparr>,
     port_name = replicate DEVICE_NODE_MAX_LEN (CHR 0x00),
     thread_socket_id = 0, thread_uart_id = 0, thread_running = False,
     recv_comm_thread_running = False, is_busying = False, driver_state = False, mode = 0\<rparr>"

text \<open>\<open>scomm_vendor_init\<close>: the loop over all ports.\<close>

definition scomm_vendor_init :: "scomm_vnd_st list" where
  "scomm_vendor_init =
     map (\<lambda>i. zero_scomm\<lparr>fd := -1, driver_state := False, mode := O_RDWR\<rparr>) [0..<BT_COM_PORT_SIZE]"

text \<open>
  \<open>scomm_vendor_set_port_name\<close>: \<open>memset\<close> of the name, then \<open>memcpy\<close> of \<open>strlen\<close> bytes, with no
  check of either index; \<open>name\<close> is the string up to its terminator.
\<close>

definition scomm_vendor_set_port_name ::
    "scomm_vnd_st list \<Rightarrow> nat \<Rightarrow> string \<Rightarrow> int \<Rightarrow> c_fault + scomm_vnd_st list" where
  "scomm_vendor_set_port_name ports i name md =
     (if i < length ports then
        (case store (replicate DEVICE_NODE_MAX_LEN (CHR 0x00)) 0 name of
           Inl e \<Rightarrow> Inl e
         | Inr nm \<Rightarrow> Inr (ports[i := (ports ! i)\<lparr>port_name := nm, mode := md\<rparr>]))
      else Inl OutOfBounds)"

text \<open>\<open>scomm_vendor_check_port_valid\<close>: the port has a name.\<close>

definition scomm_vendor_check_port_valid :: "scomm_vnd_st \<Rightarrow> bool" where
  "scomm_vendor_check_port_valid p = (port_name p ! 0 \<noteq> CHR 0x00)"

section \<open>Line parameters\<close>

text \<open>\<open>scomm_vendor_tcio_baud\<close>: the returned flag and the rate stored through the pointer.\<close>

definition scomm_vendor_tcio_baud :: "byte \<Rightarrow> bool \<times> speed_t" where
  "scomm_vendor_tcio_baud cfg_baud =
     (if cfg_baud = 7 then (True, B115200)
      else if cfg_baud = 15 then (True, B4000000)
      else if cfg_baud = 14 then (True, B3000000)
      else if cfg_baud = 13 then (True, B2000000)
      else if cfg_baud = 11 then (True, B1000000)
      else if cfg_baud = 12 then (True, B1500000)
      else if cfg_baud = 10 then (True, B921600)
      else if cfg_baud = 9 then (True, B460800)
      else if cfg_baud = 8 then (True, B230400)
      else if cfg_baud = 6 then (True, B57600)
      else if cfg_baud = 5 then (True, B19200)
      else if cfg_baud = 4 then (True, B9600)
      else if cfg_baud = 2 then (True, B1200)
      else if cfg_baud = 1 then (True, B600)
      else (False, B115200))"

record tUSERIAL_CFG =
  fmt :: u16
  baud :: byte
  hw_fctrl :: byte

abbreviation (input) USERIAL_STOPBITS_1 :: u16 where "USERIAL_STOPBITS_1 \<equiv> 0x001"
abbreviation (input) USERIAL_STOPBITS_2 :: u16 where "USERIAL_STOPBITS_2 \<equiv> 0x004"
abbreviation (input) USERIAL_PARITY_NONE :: u16 where "USERIAL_PARITY_NONE \<equiv> 0x008"
abbreviation (input) USERIAL_PARITY_EVEN :: u16 where "USERIAL_PARITY_EVEN \<equiv> 0x010"
abbreviation (input) USERIAL_PARITY_ODD :: u16 where "USERIAL_PARITY_ODD \<equiv> 0x020"
abbreviation (input) USERIAL_DATABITS_5 :: u16 where "USERIAL_DATABITS_5 \<equiv> 0x040"
abbreviation (input) USERIAL_DATABITS_6 :: u16 where "USERIAL_DATABITS_6 \<equiv> 0x080"
abbreviation (input) USERIAL_DATABITS_7 :: u16 where "USERIAL_DATABITS_7 \<equiv> 0x100"
abbreviation (input) USERIAL_DATABITS_8 :: u16 where "USERIAL_DATABITS_8 \<equiv> 0x200"
abbreviation (input) USERIAL_BAUD_3M :: byte where "USERIAL_BAUD_3M \<equiv> 14"
abbreviation (input) USERIAL_HW_FLOW_CTRL_ON :: byte where "USERIAL_HW_FLOW_CTRL_ON \<equiv> 1"

abbreviation (input) CSIZE :: u32 where "CSIZE \<equiv> 0x30"
abbreviation (input) CS8 :: u32 where "CS8 \<equiv> 0x30"
abbreviation (input) CSTOPB :: u32 where "CSTOPB \<equiv> 0x40"
abbreviation (input) PARENB :: u32 where "PARENB \<equiv> 0x100"
abbreviation (input) PARODD :: u32 where "PARODD \<equiv> 0x200"
abbreviation (input) CRTSCTS :: u32 where "CRTSCTS \<equiv> 0x80000000"

definition userial_H4_cfg :: tUSERIAL_CFG where
  "userial_H4_cfg =
     \<lparr>fmt = USERIAL_DATABITS_8 OR USERIAL_PARITY_NONE OR USERIAL_STOPBITS_1,
      baud = USERIAL_BAUD_3M, hw_fctrl = USERIAL_HW_FLOW_CTRL_ON\<rparr>"

text \<open>The \<open>c_cflag\<close> part of the C library's \<open>cfmakeraw\<close>.\<close>

definition cfmakeraw :: "termios \<Rightarrow> termios" where
  "cfmakeraw t = t\<lparr>c_cflag := (c_cflag t AND NOT (CSIZE OR PARENB)) OR CS8\<rparr>"

text \<open>
  The parameter decoding of \<open>scomm_vendor_uart_open\<close>: speed, parity and stop bits, or \<open>None\<close>
  where the function returns -1 before it opens the device. The data bits are checked and
  decoded by the code, and then not used.
\<close>

definition uart_params :: "tUSERIAL_CFG \<Rightarrow> (speed_t \<times> u32 \<times> u32) option" where
  "uart_params cfg =
     (case scomm_vendor_tcio_baud (baud cfg) of
        (False, _) \<Rightarrow> None
      | (True, rate) \<Rightarrow>
          if fmt cfg AND USERIAL_DATABITS_8 = 0 \<and> fmt cfg AND USERIAL_DATABITS_7 = 0 \<and>
             fmt cfg AND USERIAL_DATABITS_6 = 0 \<and> fmt cfg AND USERIAL_DATABITS_5 = 0
          then None
          else
            (case (if fmt cfg AND USERIAL_PARITY_NONE \<noteq> 0 then Some 0
                   else if fmt cfg AND USERIAL_PARITY_EVEN \<noteq> 0 then Some PARENB
                   else if fmt cfg AND USERIAL_PARITY_ODD \<noteq> 0 then Some (PARENB OR PARODD)
                   else None) of
               None \<Rightarrow> None
             | Some parity \<Rightarrow>
                 if fmt cfg AND USERIAL_STOPBITS_1 \<noteq> 0 then Some (rate, parity, 0)
                 else if fmt cfg AND USERIAL_STOPBITS_2 \<noteq> 0 then Some (rate, parity, CSTOPB)
                 else None))"

text \<open>
  \<open>scomm_vendor_uart_open\<close> on one port, for a line configuration. What the kernel answers is an
  argument: the descriptor \<open>open\<close> returns (-1 if it fails) and the terminal attributes
  \<open>tcgetattr\<close> reads. The result is the function's value and the port.
\<close>

definition uart_open :: "tUSERIAL_CFG \<Rightarrow> int \<Rightarrow> termios \<Rightarrow> scomm_vnd_st \<Rightarrow> int \<times> scomm_vnd_st" where
  "uart_open cfg opened attrs p0 =
     (let p = p0\<lparr>fd := -1\<rparr> in
      case uart_params cfg of
        None \<Rightarrow> (-1, p)
      | Some (rate, parity, stop_bits) \<Rightarrow>
          if opened = -1 then (-1, p)
          else
            let t = cfmakeraw attrs;
                t1 = (if hw_fctrl cfg = USERIAL_HW_FLOW_CTRL_ON
                      then t\<lparr>c_cflag := c_cflag t OR (CRTSCTS OR stop_bits OR parity)\<rparr>
                      else t\<lparr>c_cflag := (c_cflag t AND NOT CRTSCTS) OR (stop_bits OR parity)\<rparr>);
                t2 = t1\<lparr>c_ospeed := rate, c_ispeed := rate\<rparr>
            in (opened, p\<lparr>fd := opened, tios := t2\<rparr>))"

definition scomm_vendor_uart_open :: "int \<Rightarrow> termios \<Rightarrow> scomm_vnd_st \<Rightarrow> int \<times> scomm_vnd_st" where
  "scomm_vendor_uart_open opened attrs p = uart_open userial_H4_cfg opened attrs p"

text \<open>\<open>scomm_vendor_usbsdio_open\<close>.\<close>

definition scomm_vendor_usbsdio_open :: "int \<Rightarrow> scomm_vnd_st \<Rightarrow> int \<times> scomm_vnd_st" where
  "scomm_vendor_usbsdio_open opened p = (opened, p\<lparr>fd := opened\<rparr>)"

end
