(* ===== verification/Rx.thy ===== *)
theory Rx
  imports Hci Deframe Scomm "HOL-Library.Sublist"
begin

text \<open>
  The controller-to-host direction of \<open>scom_vendor.c\<close>: the receive thread
  \<open>scomm_vendor_recv_scomm_thread\<close>, which reads bytes from a port into \<open>read_buffer\<close>, cuts
  complete packets off its front, passes log packets to the CP log and every other packet to the
  snoop log and the host socket, and resynchronises when the buffer does not start with a packet.
\<close>

section \<open>The packet parser\<close>

text \<open>The events one pass over the buffer causes, in order.\<close>

datatype rx_event =
    Skwlog_write "byte list"
  | Btsnoop_capture "byte list" bool  \<comment> \<open>the buffer the packet pointer points into\<close>
  | Send_to_host nat "byte list"
  | Close_fd int

definition is_rx_type :: "byte \<Rightarrow> bool" where
  "is_rx_type t \<longleftrightarrow> t = HCI_EVENT_PKT \<or> t = HCI_ACLDATA_PKT \<or> t = HCI_SCODATA_PKT \<or>
     t = HCI_EVENT_SKWLOG \<or> t = HCI_ISO_PKT"

text \<open>\<open>scomm_vendor_find_valid_type\<close>: the index of the first byte that may start a packet.\<close>

fun find_valid_from :: "byte list \<Rightarrow> nat \<Rightarrow> nat \<Rightarrow> nat" where
  "find_valid_from buffer i 0 = i"
| "find_valid_from buffer i (Suc n) =
     (if buffer ! i = HCI_EVENT_PKT \<or> buffer ! i = HCI_ACLDATA_PKT \<or>
         buffer ! i = HCI_SCODATA_PKT \<or> buffer ! i = HCI_EVENT_SKWLOG
      then i else find_valid_from buffer (Suc i) n)"

definition scomm_vendor_find_valid_type :: "byte list \<Rightarrow> u16 \<Rightarrow> nat" where
  "scomm_vendor_find_valid_type buffer len = find_valid_from buffer 0 (unat len)"

text \<open>The payload length the header of the packet at the front of the buffer announces.\<close>

definition rx_payload_len :: "byte list \<Rightarrow> u16" where
  "rx_payload_len buf =
     (let pkt_type = buf ! 0 in
      if pkt_type = HCI_ACLDATA_PKT \<or> pkt_type = HCI_ISO_PKT then le16 (buf ! 3) (buf ! 4)
      else if pkt_type = HCI_EVENT_PKT then ucast (buf ! 2)
      else if pkt_type = HCI_EVENT_SKWLOG then le16 (buf ! 2) (buf ! 3)
      else ucast (buf ! 3))"

definition rx_hdr_lens :: "byte \<Rightarrow> u16" where
  "rx_hdr_lens t = preamble_size t + 1"

text \<open>
  What a complete packet causes. The capture gets the pointer to the packet and takes its length from the
  header again: whether that stays inside the buffer is the business of \<open>skw_btsnoop_capture\<close> in \<open>Snoop\<close>,
  which faults if it does not (a packet length that wraps makes it do so).
\<close>

definition rx_emit :: "byte list \<Rightarrow> nat \<Rightarrow> rx_event list" where
  "rx_emit buf pkt_len =
     (if buf ! 0 = HCI_EVENT_SKWLOG then [Skwlog_write (take pkt_len buf)]
      else [Btsnoop_capture buf True, Send_to_host 0 (take pkt_len buf)])"

text \<open>
  The \<open>do .. while (1)\<close> loop: the buffer, its number of valid bytes \<open>rev_len\<close>; the result is
  the events, the buffer and \<open>last_len\<close>. All lengths are 16 bits wide, as in the code. The loop
  need not end (a packet length can wrap to 0), so it takes fuel, and \<open>None\<close> is running out. The rest
  of the buffer is moved to the front by \<open>memcpy\<close>, whose regions overlap when the rest is longer than
  what was cut off: see \<open>copy_down\<close>.
\<close>

primrec rx_parse :: "nat \<Rightarrow> byte list \<Rightarrow> u16 \<Rightarrow> (rx_event list \<times> byte list \<times> u16) option" where
  "rx_parse 0 buf rev_len = None"
| "rx_parse (Suc fuel) buf rev_len =
     (let pkt_type = buf ! 0 in
      if is_rx_type pkt_type then
        let hdr_lens = rx_hdr_lens pkt_type in
        if rev_len \<ge> hdr_lens then
          let pkt_len = rx_payload_len buf + hdr_lens in
          if rev_len \<ge> pkt_len then
            let out = rx_emit buf (unat pkt_len);
                last_len = rev_len - pkt_len;
                buf' = copy_down buf (unat pkt_len) (unat last_len)
            in if last_len \<ge> 4
               then map_option (\<lambda>(out', b, l). (out @ out', b, l)) (rx_parse fuel buf' last_len)
               else Some (out, buf', last_len)
          else Some ([], buf, rev_len)
        else Some ([], buf, rev_len)
      else
        let vLen = scomm_vendor_find_valid_type buf rev_len;
            last_len = rev_len - of_nat vLen
        in if vLen < unat rev_len
           then Some ([], copy_down buf vLen (unat last_len), last_len)
           else Some ([], buf, last_len))"

section \<open>The receive thread\<close>

text \<open>
  The thread's state: its port and its two locals that live across iterations. The buffer is
  the array of 2056 bytes.
\<close>

definition RX_BUF_SIZE :: nat where "RX_BUF_SIZE = 2056"

record rx_thread =
  scomm :: scomm_vnd_st
  read_buffer :: "byte list"
  last_len :: u16

definition rx_thread_init :: "scomm_vnd_st \<Rightarrow> rx_thread" where
  "rx_thread_init p =
     \<lparr>scomm = p\<lparr>recv_comm_thread_running := True\<rparr>, read_buffer = replicate RX_BUF_SIZE 0, last_len = 0\<rparr>"

text \<open>
  What one iteration observes: \<open>revents\<close> of the two descriptors, what \<open>read\<close> returned, and
  the value of \<open>thread_running\<close> (another thread clears it) at the test after \<open>poll\<close> and at the
  test after \<open>read\<close>.
\<close>

datatype read_result = Read_data "byte list" | Read_zero | Read_error

record poll_obs =
  exit_signal :: bool
  pollin :: bool
  pollerr :: bool
  read_res :: read_result
  running_poll :: bool
  running_read :: bool

text \<open>\<open>scomm_vendor_send_hw_error\<close>: the hardware-error event the thread reports a dead controller by.\<close>

definition scomm_vendor_send_hw_error :: "rx_event list" where
  "scomm_vendor_send_hw_error = [Send_to_host 0 [HCI_EVENT_PKT, 0x10, 0x01, 0x10]]"

text \<open>The bytes a read may return: up to the free space behind \<open>last_len\<close>.\<close>

definition rx_room :: "rx_thread \<Rightarrow> nat" where
  "rx_room st = RX_BUF_SIZE - unat (last_len st)"

definition rx_data :: "nat \<Rightarrow> byte list \<Rightarrow> rx_thread \<Rightarrow> (rx_event list \<times> rx_thread) option" where
  "rx_data fuel bs st =
     (let buf = overwrite (read_buffer st) (unat (last_len st)) bs;
          rev_len = of_nat (length bs) + last_len st
      in map_option (\<lambda>(out, b, l). (out, st\<lparr>read_buffer := b, last_len := l\<rparr>))
           (rx_parse fuel buf rev_len))"

text \<open>
  One iteration of the thread's loop: events, state, and whether the loop goes on.
\<close>

definition recv_scomm_body ::
    "nat \<Rightarrow> nat \<Rightarrow> poll_obs \<Rightarrow> rx_thread \<Rightarrow> (rx_event list \<times> rx_thread \<times> bool) option" where
  "recv_scomm_body fuel port_index obs st =
     (if exit_signal obs \<and> \<not> running_poll obs then Some ([], st, False)
      else if pollin obs then
        let st1 = st\<lparr>scomm := (scomm st)\<lparr>is_busying := True\<rparr>\<rparr> in
        case read_res obs of
          Read_zero \<Rightarrow> Some ([], st1, running_read obs)
        | Read_error \<Rightarrow>
            Some (if running_read obs \<and> port_index = 0 then scomm_vendor_send_hw_error else [],
                  st1, False)
        | Read_data bs \<Rightarrow> map_option (\<lambda>(out, st2). (out, st2, True)) (rx_data fuel bs st1)
      else if pollerr obs then
        Some ([Close_fd (fd (scomm st))], st\<lparr>scomm := (scomm st)\<lparr>driver_state := False\<rparr>\<rparr>, False)
      else Some ([], st, True))"

text \<open>
  The thread over a finite run of observations, each preceded by the loop's test of
  \<open>thread_running\<close>, and the code after the loop. \<open>None\<close>: some iteration never ends.
\<close>

definition recv_scomm_exit :: "rx_thread \<Rightarrow> rx_thread" where
  "recv_scomm_exit st = st\<lparr>scomm := (scomm st)\<lparr>is_busying := False, thread_uart_id := -1\<rparr>\<rparr>"

fun recv_scomm_loop ::
    "nat \<Rightarrow> nat \<Rightarrow> (bool \<times> poll_obs) list \<Rightarrow> rx_thread \<Rightarrow> (rx_event list \<times> rx_thread \<times> bool) option" where
  "recv_scomm_loop fuel port_index [] st = Some ([], st, True)"
| "recv_scomm_loop fuel port_index ((running, obs) # os) st =
     (if \<not> running then Some ([], recv_scomm_exit st, False)
      else
        (case recv_scomm_body fuel port_index obs st of
           None \<Rightarrow> None
         | Some (out, st1, False) \<Rightarrow> Some (out, recv_scomm_exit st1, False)
         | Some (out, st1, True) \<Rightarrow>
             map_option (\<lambda>(out', st', b). (out @ out', st', b))
               (recv_scomm_loop fuel port_index os st1)))"

definition scomm_vendor_recv_scomm_thread ::
    "nat \<Rightarrow> nat \<Rightarrow> (bool \<times> poll_obs) list \<Rightarrow> scomm_vnd_st \<Rightarrow> (rx_event list \<times> rx_thread \<times> bool) option" where
  "scomm_vendor_recv_scomm_thread fuel port_index os p =
     recv_scomm_loop fuel port_index os (rx_thread_init p)"

section \<open>The packet format\<close>

text \<open>
  The frame format the parser implements, on natural numbers: the specification has no width,
  so it differs from the code exactly where the code's 16-bit lengths wrap.
\<close>

definition rx_need :: "byte list \<Rightarrow> nat option" where
  "rx_need xs =
     (if xs \<noteq> [] \<and> is_rx_type (xs ! 0) \<and> unat (rx_hdr_lens (xs ! 0)) \<le> length xs
      then Some (unat (rx_payload_len xs) + unat (rx_hdr_lens (xs ! 0)))
      else None)"

lemma unat_rx_hdr_lens:
  "is_rx_type t \<Longrightarrow> unat (rx_hdr_lens t) =
     (if t = HCI_ACLDATA_PKT \<or> t = HCI_ISO_PKT then 5 else if t = HCI_EVENT_PKT then 3 else 4)"
  by (auto simp: is_rx_type_def rx_hdr_lens_def)

lemma rx_hdr_lens_ge: "is_rx_type t \<Longrightarrow> 3 \<le> unat (rx_hdr_lens t)"
  by (simp add: unat_rx_hdr_lens)

lemma rx_payload_len_append:
  assumes "xs \<noteq> []" "is_rx_type (xs ! 0)" "unat (rx_hdr_lens (xs ! 0)) \<le> length xs"
  shows "rx_payload_len (xs @ ys) = rx_payload_len xs"
  using assms
  by (auto simp: rx_payload_len_def nth_append unat_rx_hdr_lens Let_def is_rx_type_def split: if_splits)

lemma rx_payload_len_take:
  assumes "xs \<noteq> []" "is_rx_type (xs ! 0)" "unat (rx_hdr_lens (xs ! 0)) \<le> n" "n \<le> length xs"
  shows "rx_payload_len (take n xs) = rx_payload_len xs"
proof -
  have "0 < n"
    using rx_hdr_lens_ge [OF assms(2)] assms(3) by linarith
  then have "rx_payload_len (take n xs @ drop n xs) = rx_payload_len (take n xs)"
    using assms by (intro rx_payload_len_append) auto
  then show ?thesis by simp
qed

interpretation rx: frame_format rx_need
proof
  show "0 < n" if "rx_need xs = Some n" for xs n
    using that rx_hdr_lens_ge by (fastforce simp: rx_need_def split: if_splits)
next
  show "rx_need (xs @ ys) = Some n" if "rx_need xs = Some n" for xs n ys
    using that by (auto simp: rx_need_def nth_append rx_payload_len_append split: if_splits)
next
  show "rx_need (take n xs) = Some n" if "rx_need xs = Some n" "n \<le> length xs" for xs n
  proof -
    have n: "xs \<noteq> []" "is_rx_type (xs ! 0)" "n = unat (rx_payload_len xs) + unat (rx_hdr_lens (xs ! 0))"
      using that(1) by (auto simp: rx_need_def split: if_splits)
    moreover have "0 < n"
      using rx_hdr_lens_ge [OF n(2)] n(3) by linarith
    ultimately show ?thesis
      using that(2) rx_payload_len_take [OF n(1,2)] by (auto simp: rx_need_def)
  qed
qed

text \<open>What the events deliver: the packets passed on, to the host and to the CP log.\<close>

fun rx_host :: "rx_event list \<Rightarrow> byte list list" where
  "rx_host [] = []"
| "rx_host (Send_to_host _ p # es) = p # rx_host es"
| "rx_host (_ # es) = rx_host es"

fun rx_log :: "rx_event list \<Rightarrow> byte list list" where
  "rx_log [] = []"
| "rx_log (Skwlog_write p # es) = p # rx_log es"
| "rx_log (_ # es) = rx_log es"

fun rx_captured :: "rx_event list \<Rightarrow> byte list list" where
  "rx_captured [] = []"
| "rx_captured (Btsnoop_capture b _ # es) = b # rx_captured es"
| "rx_captured (_ # es) = rx_captured es"

lemma rx_host_append [simp]: "rx_host (a @ b) = rx_host a @ rx_host b"
  by (induction a rule: rx_host.induct) auto

lemma rx_log_append [simp]: "rx_log (a @ b) = rx_log a @ rx_log b"
  by (induction a rule: rx_log.induct) auto

lemma rx_captured_append [simp]: "rx_captured (a @ b) = rx_captured a @ rx_captured b"
  by (induction a rule: rx_captured.induct) auto

definition is_log_frame :: "byte list \<Rightarrow> bool" where
  "is_log_frame p \<longleftrightarrow> p ! 0 = HCI_EVENT_SKWLOG"

text \<open>
  Every packet for the host is captured right before it is sent, from a buffer that starts with it.
\<close>

fun captured_first :: "rx_event list \<Rightarrow> bool" where
  "captured_first [] = True"
| "captured_first (Btsnoop_capture b r # Send_to_host i p # es) = (r \<and> take (length p) b = p \<and> captured_first es)"
| "captured_first (Btsnoop_capture b r # es) = False"
| "captured_first (Send_to_host i p # es) = False"
| "captured_first (_ # es) = captured_first es"

lemma captured_first_append: "captured_first a \<Longrightarrow> captured_first b \<Longrightarrow> captured_first (a @ b)"
  by (induction a rule: captured_first.induct) auto

lemma captured_first_same: "captured_first es \<Longrightarrow> list_all2 (\<lambda>b p. take (length p) b = p) (rx_captured es) (rx_host es)"
  by (induction es rule: captured_first.induct) auto

text \<open>
  The events deliver the frames \<open>fs\<close>: log frames to the CP log, the others to the host, both in
  order, and every host frame was captured from a buffer that starts with it before it was sent.
\<close>

definition rx_delivers :: "rx_event list \<Rightarrow> byte list list \<Rightarrow> bool" where
  "rx_delivers out fs \<longleftrightarrow>
     rx_host out = filter (\<lambda>p. \<not> is_log_frame p) fs \<and>
     rx_log out = filter is_log_frame fs \<and>
     list_all2 (\<lambda>b p. take (length p) b = p) (rx_captured out) (rx_host out) \<and> captured_first out"

lemma rx_delivers_Nil [simp]: "rx_delivers [] []"
  by (simp add: rx_delivers_def)

lemma rx_delivers_append:
  "rx_delivers a fs \<Longrightarrow> rx_delivers b gs \<Longrightarrow> rx_delivers (a @ b) (fs @ gs)"
  by (auto simp: rx_delivers_def intro: list_all2_appendI captured_first_append)

lemma rx_delivers_emit:
  "take n buf = p \<Longrightarrow> n = length p \<Longrightarrow> p \<noteq> [] \<Longrightarrow> rx_delivers (rx_emit buf n) [p]"
proof -
  assume p: "take n buf = p" "n = length p" "p \<noteq> []"
  then have "p ! 0 = buf ! 0"
    by (metis length_greater_0_conv nth_take)
  with p show ?thesis
    by (auto simp: rx_delivers_def rx_emit_def is_log_frame_def)
qed

section \<open>Correctness of the parser\<close>

text \<open>A packet the receive buffer can hold.\<close>

definition rx_packet :: "byte list \<Rightarrow> bool" where
  "rx_packet p \<longleftrightarrow> rx_need p = Some (length p) \<and> length p \<le> RX_BUF_SIZE"

lemma rx_packet_ge_3: "rx_packet p \<Longrightarrow> 3 \<le> length p"
  using rx_hdr_lens_ge by (fastforce simp: rx_packet_def rx_need_def split: if_splits)

lemma rx_packet_shape:
  assumes "rx_packet p"
  shows "p \<noteq> []" "is_rx_type (p ! 0)" "unat (rx_hdr_lens (p ! 0)) \<le> length p"
    "length p = unat (rx_payload_len p) + unat (rx_hdr_lens (p ! 0))" "length p \<le> 2056"
  using assms by (auto simp: rx_packet_def rx_need_def RX_BUF_SIZE_def split: if_splits)

text \<open>What the parser reads off a buffer that starts with (part of) a packet.\<close>

lemma rx_header_of_packet:
  assumes "rx_packet p" "take v buf @ ys = p @ rest" "v \<le> length buf" "1 \<le> v"
  shows "buf ! 0 = p ! 0"
    and "unat (rx_hdr_lens (p ! 0)) \<le> v \<Longrightarrow> rx_payload_len buf = rx_payload_len p"
proof -
  note p = rx_packet_shape [OF assms(1)]
  have ne: "take v buf \<noteq> []"
    using assms(3,4) by (cases buf) auto
  have "(take v buf @ ys) ! 0 = (p @ rest) ! 0"
    using assms(2) by simp
  then show hd: "buf ! 0 = p ! 0"
    using ne p(1) assms(4) by (simp add: nth_append)
  assume h: "unat (rx_hdr_lens (p ! 0)) \<le> v"
  have "rx_payload_len buf = rx_payload_len (take v buf @ drop v buf)"
    by simp
  also have "\<dots> = rx_payload_len (take v buf)"
    using ne h p hd assms(3,4) by (intro rx_payload_len_append) auto
  also have "\<dots> = rx_payload_len (take v buf @ ys)"
    using ne h p hd assms(3,4) by (intro rx_payload_len_append [symmetric]) auto
  also have "\<dots> = rx_payload_len p"
    using p by (simp only: assms(2)) (intro rx_payload_len_append, auto)
  finally show "rx_payload_len buf = rx_payload_len p" .
qed

lemma rx_parse_waits:
  assumes p: "rx_packet p" and v: "take v buf @ ys = p @ rest" "1 \<le> v" "v < length p"
    and buf: "length buf = RX_BUF_SIZE"
  shows "fst (deframe rx_need (take v buf)) = []"
proof -
  have len: "length (take v buf) = v"
    using rx_packet_shape(5) [OF p] v(3) buf by (simp add: RX_BUF_SIZE_def)
  then have "p = take v buf @ drop v p"
    using append_short [OF v(1)] v(3) by simp
  moreover have "drop v p \<noteq> []"
    using v(3) by simp
  ultimately have "deframe rx_need (take v buf) = ([], take v buf)"
    using p unfolding rx_packet_def by (metis rx.deframe_partial)
  then show ?thesis by simp
qed

lemma unat_pkt_len:
  assumes "rx_packet p" "rx_payload_len buf = rx_payload_len p"
  shows "unat (rx_payload_len buf + rx_hdr_lens (p ! 0)) = length p"
  using rx_packet_shape [OF assms(1)] by (simp add: assms(2) unat_add_u16)

text \<open>The two ways a pass over a buffer that starts with (part of) a packet goes.\<close>

lemma rx_parse_incomplete:
  assumes "rx_packet p" "take (unat v) buf @ ys = p @ rest" "1 \<le> unat v" "unat v \<le> length buf"
    and "unat v < length p"
  shows "rx_parse (Suc fuel) buf v = Some ([], buf, v)"
proof (cases "rx_hdr_lens (p ! 0) \<le> v")
  case False
  then show ?thesis
    using rx_packet_shape(2) [OF assms(1)] rx_header_of_packet(1) [OF assms(1,2,4,3)]
    by (simp add: Let_def)
next
  case True
  then have "rx_payload_len buf = rx_payload_len p"
    using rx_header_of_packet(2) [OF assms(1,2,4,3)] by (simp add: word_le_nat_alt)
  then have "\<not> rx_payload_len buf + rx_hdr_lens (p ! 0) \<le> v"
    using assms(5) unat_pkt_len [OF assms(1)] by (simp add: word_le_nat_alt)
  then show ?thesis
    using True rx_packet_shape(2) [OF assms(1)] rx_header_of_packet(1) [OF assms(1,2,4,3)]
    by (simp add: Let_def)
qed

lemma rx_parse_complete:
  assumes p: "rx_packet p" and split: "take (unat v) buf @ ys = p @ rest"
    and v: "1 \<le> unat v" "unat v \<le> length buf" and big: "length p \<le> unat v"
  obtains l buf' where "unat l = unat v - length p" "length buf' = length buf"
    "take (unat l) buf' @ ys = rest" "rx_delivers (rx_emit buf (length p)) [p]"
    "rx_parse (Suc fuel) buf v =
       (if 4 \<le> l then map_option (\<lambda>(out', b, l). (rx_emit buf (length p) @ out', b, l)) (rx_parse fuel buf' l)
        else Some (rx_emit buf (length p), buf', l))"
proof -
  note shape = rx_packet_shape [OF p] and hd = rx_header_of_packet [OF p split v(2,1)]
  have hdr: "rx_hdr_lens (p ! 0) \<le> v"
    using shape(4) big by (simp add: word_le_nat_alt)
  let ?n = "rx_payload_len buf + rx_hdr_lens (p ! 0)"
  have n: "unat ?n = length p"
    using hd(2) hdr by (intro unat_pkt_len [OF p]) (simp add: word_le_nat_alt)
  then have fits: "?n \<le> v"
    using big by (simp add: word_le_nat_alt)
  let ?l = "v - ?n" and ?buf = "copy_down buf (length p) (unat v - length p)"
  have l: "unat ?l = unat v - length p"
    using fits n by (simp add: unat_sub_u16)
  have cut: "take (length p) (take (unat v) buf) = p" "rest = drop (length p) (take (unat v) buf) @ ys"
    using append_long [OF split] big v(2) by auto
  show ?thesis
  proof (rule that)
    show "unat ?l = unat v - length p" "length ?buf = length buf"
      using l big v(2) by simp_all
    show "take (unat ?l) ?buf @ ys = rest"
      using big v(2) cut(2) by (simp add: l take_copy_down subbuf_def drop_take)
    show "rx_delivers (rx_emit buf (length p)) [p]"
      using cut(1) big shape(1) by (intro rx_delivers_emit) (auto simp: min_def)
    show "rx_parse (Suc fuel) buf v =
       (if 4 \<le> ?l then map_option (\<lambda>(out', b, l). (rx_emit buf (length p) @ out', b, l)) (rx_parse fuel ?buf ?l)
        else Some (rx_emit buf (length p), ?buf, ?l))"
      using hdr fits shape(2) by (simp add: hd(1) Let_def n l)
  qed
qed

text \<open>
  A pass over the valid bytes of the buffer, when they continue to a sequence of packets: it
  delivers the first packets, keeps the rest, and stops only where no packet is complete or
  fewer than four bytes are left.
\<close>

definition rx_waiting :: "byte list \<Rightarrow> bool" where
  "rx_waiting r \<longleftrightarrow> length r < 4 \<or> fst (deframe rx_need r) = []"

lemma rx_parse_packets:
  assumes "length buf = RX_BUF_SIZE" "1 \<le> unat v" "unat v \<le> RX_BUF_SIZE" "unat v \<le> fuel"
    and "take (unat v) buf @ ys = concat ps" "\<forall>p \<in> set ps. rx_packet p"
  shows "\<exists>k out buf' l. rx_parse fuel buf v = Some (out, buf', l) \<and> length buf' = RX_BUF_SIZE \<and>
           rx_delivers out (take k ps) \<and> take (unat l) buf' @ ys = concat (drop k ps) \<and>
           unat l \<le> unat v \<and> rx_waiting (take (unat l) buf')"
  using assms
proof (induction fuel arbitrary: buf v ps)
  case 0
  then show ?case by simp
next
  case (Suc fuel)
  have "take (unat v) buf \<noteq> []"
    using Suc.prems(1,2) by (auto simp: RX_BUF_SIZE_def)
  with Suc.prems(5) obtain p ps' where ps: "ps = p # ps'"
    by (cases ps) auto
  have p: "rx_packet p" and ps': "\<forall>q \<in> set ps'. rx_packet q"
    using Suc.prems(6) ps by auto
  have split: "take (unat v) buf @ ys = p @ concat ps'" and vl: "unat v \<le> length buf"
    using Suc.prems(1,3,5) ps by simp_all
  show ?case
  proof (cases "length p \<le> unat v")
    case False
    then show ?thesis
      using Suc.prems rx_parse_incomplete [OF p split Suc.prems(2) vl] rx_parse_waits [OF p split Suc.prems(2)]
      by (intro exI [of _ 0]) (simp add: rx_waiting_def)
  next
    case True
    from rx_parse_complete [OF p split Suc.prems(2) vl this, of fuel] obtain l buf' where
      l: "unat l = unat v - length p" and b: "length buf' = length buf"
      and rest: "take (unat l) buf' @ ys = concat ps'"
      and emit: "rx_delivers (rx_emit buf (length p)) [p]"
      and parse: "rx_parse (Suc fuel) buf v =
       (if 4 \<le> l then map_option (\<lambda>(out', b, l). (rx_emit buf (length p) @ out', b, l)) (rx_parse fuel buf' l)
        else Some (rx_emit buf (length p), buf', l))" .
    show ?thesis
    proof (cases "4 \<le> l")
      case False
      then show ?thesis
        using parse l b rest emit ps Suc.prems(1)
        by (intro exI [of _ 1]) (auto simp: word_le_nat_alt rx_waiting_def)
    next
      case more: True
      have "unat l \<le> fuel" "1 \<le> unat l" "unat l \<le> RX_BUF_SIZE"
        using l more rx_packet_ge_3 [OF p] Suc.prems(3,4) by (auto simp: word_le_nat_alt)
      with Suc.IH [of buf' l ps'] b rest ps' Suc.prems(1) obtain k out buf'' l' where
        "rx_parse fuel buf' l = Some (out, buf'', l')" "length buf'' = RX_BUF_SIZE"
        "rx_delivers out (take k ps')" "take (unat l') buf'' @ ys = concat (drop k ps')"
        "unat l' \<le> unat l" "rx_waiting (take (unat l') buf'')"
        by auto
      then show ?thesis
        using more parse l ps rx_delivers_append [OF emit]
        by (intro exI [of _ "Suc k"]) auto
    qed
  qed
qed

section \<open>The thread over a stream of packets\<close>

definition rx_pending :: "rx_thread \<Rightarrow> byte list" where
  "rx_pending st = take (unat (last_len st)) (read_buffer st)"

definition rx_inv :: "rx_thread \<Rightarrow> bool" where
  "rx_inv st \<longleftrightarrow> length (read_buffer st) = RX_BUF_SIZE \<and> unat (last_len st) \<le> RX_BUF_SIZE"

text \<open>The bytes an observation brings in.\<close>

definition obs_data :: "poll_obs \<Rightarrow> byte list" where
  "obs_data obs = (if pollin obs then (case read_res obs of Read_data bs \<Rightarrow> bs | _ \<Rightarrow> []) else [])"

definition received :: "(bool \<times> poll_obs) list \<Rightarrow> byte list" where
  "received os = concat (map (obs_data \<circ> snd) os)"

text \<open>
  What \<open>read (fd, buf, count)\<close> guarantees when it returns data: at least one byte, at most
  \<open>count\<close>. It is a hypothesis on the observations of a run.
\<close>

definition read_ok :: "poll_obs \<Rightarrow> rx_thread \<Rightarrow> bool" where
  "read_ok obs st = (case read_res obs of Read_data bs \<Rightarrow> bs \<noteq> [] \<and> length bs \<le> rx_room st | _ \<Rightarrow> True)"

fun reads_ok :: "nat \<Rightarrow> nat \<Rightarrow> (bool \<times> poll_obs) list \<Rightarrow> rx_thread \<Rightarrow> bool" where
  "reads_ok fuel port_index [] st = True"
| "reads_ok fuel port_index ((running, obs) # os) st =
     (read_ok obs st \<and>
      (case recv_scomm_body fuel port_index obs st of
         Some (_, st1, True) \<Rightarrow> reads_ok fuel port_index os st1
       | _ \<Rightarrow> True))"

text \<open>An observation under which the thread goes on: it is not asked to stop and meets no error.\<close>

definition undisturbed :: "bool \<times> poll_obs \<Rightarrow> bool" where
  "undisturbed ro =
     (case ro of (running, obs) \<Rightarrow>
        running \<and> (exit_signal obs \<longrightarrow> running_poll obs) \<and>
        (if pollin obs
         then (case read_res obs of Read_data _ \<Rightarrow> True | Read_zero \<Rightarrow> running_read obs | Read_error \<Rightarrow> False)
         else \<not> pollerr obs))"

lemma rx_waiting_room:
  assumes "rx_waiting r" "r @ ys = concat ps" "\<forall>p \<in> set ps. rx_packet p"
  shows "length r < RX_BUF_SIZE"
proof (rule ccontr)
  assume "\<not> length r < RX_BUF_SIZE"
  then have r: "RX_BUF_SIZE \<le> length r" "4 \<le> length r"
    by (simp_all add: RX_BUF_SIZE_def)
  with assms(2) obtain p ps' where ps: "ps = p # ps'"
    by (cases ps) auto
  have p: "rx_packet p" "length p \<le> length r"
    using assms(3) ps r rx_packet_shape(5) [of p] by (auto simp: RX_BUF_SIZE_def)
  have "r = p @ drop (length p) r"
    using append_long [of r ys p "concat ps'"] assms(2) ps p(2) by (metis append_take_drop_id concat.simps(2))
  then have "fst (deframe rx_need r) \<noteq> []"
    using p(1) rx.deframe_frame unfolding rx_packet_def by (metis fst_conv list.distinct(1))
  then show False
    using assms(1) r by (simp add: rx_waiting_def)
qed

text \<open>The buffer after a read: the pending bytes are followed by the new ones.\<close>

lemma rx_data_buffer:
  fixes st bs
  defines "buf \<equiv> overwrite (read_buffer st) (unat (last_len st)) bs"
    and "v \<equiv> of_nat (length bs) + last_len st"
  assumes "rx_inv st" "length bs \<le> rx_room st"
  shows "unat v = unat (last_len st) + length bs" "length buf = RX_BUF_SIZE" "unat v \<le> RX_BUF_SIZE"
    "take (unat v) buf = rx_pending st @ bs"
proof -
  note inv = assms(3) [unfolded rx_inv_def]
  have room: "unat (last_len st) + length bs \<le> RX_BUF_SIZE"
    using assms(4) inv unfolding rx_room_def by linarith
  then have "unat (of_nat (length bs) :: u16) = length bs"
    by (intro unat_of_nat_u16) (simp add: RX_BUF_SIZE_def)
  then show v: "unat v = unat (last_len st) + length bs"
    unfolding v_def using room by (subst unat_add_u16) (auto simp: RX_BUF_SIZE_def)
  show "length buf = RX_BUF_SIZE" "unat v \<le> RX_BUF_SIZE" "take (unat v) buf = rx_pending st @ bs"
    using room inv by (simp_all add: v buf_def take_overwrite_append rx_pending_def)
qed

lemma rx_data_packets:
  assumes "rx_inv st" "bs \<noteq> []" "length bs \<le> rx_room st" "RX_BUF_SIZE \<le> fuel"
    and "rx_pending st @ bs @ ys = concat ps" "\<forall>p \<in> set ps. rx_packet p"
  shows "\<exists>k out st'. rx_data fuel bs st = Some (out, st') \<and> rx_inv st' \<and> scomm st' = scomm st \<and>
           rx_delivers out (take k ps) \<and> rx_pending st' @ ys = concat (drop k ps) \<and>
           rx_waiting (rx_pending st')"
proof -
  let ?buf = "overwrite (read_buffer st) (unat (last_len st)) bs"
  let ?v = "of_nat (length bs) + last_len st"
  note b = rx_data_buffer [OF assms(1,3)]
  have "length ?buf = RX_BUF_SIZE" "1 \<le> unat ?v" "unat ?v \<le> RX_BUF_SIZE" "unat ?v \<le> fuel"
    using b assms(2,4) by (auto simp: Suc_le_eq)
  moreover have "take (unat ?v) ?buf @ ys = concat ps"
    using b(4) assms(5) by simp
  ultimately obtain k out buf' l where parse:
    "rx_parse fuel ?buf ?v = Some (out, buf', l)" "length buf' = RX_BUF_SIZE"
    "rx_delivers out (take k ps)" "take (unat l) buf' @ ys = concat (drop k ps)"
    "unat l \<le> unat ?v" "rx_waiting (take (unat l) buf')"
    using rx_parse_packets assms(6) by blast
  have "rx_data fuel bs st = Some (out, st\<lparr>read_buffer := buf', last_len := l\<rparr>)"
    using parse(1) by (simp add: rx_data_def Let_def)
  moreover have "unat l \<le> RX_BUF_SIZE"
    using parse(5) b(3) by simp
  ultimately show ?thesis
    using parse by (intro exI [of _ k] exI [of _ out]) (auto simp: rx_inv_def rx_pending_def)
qed

text \<open>One undisturbed iteration.\<close>

lemma recv_scomm_body_packets:
  assumes "rx_inv st" "rx_waiting (rx_pending st)" "undisturbed (running, obs)" "read_ok obs st"
    and "RX_BUF_SIZE \<le> fuel"
    and "rx_pending st @ obs_data obs @ ys = concat ps" "\<forall>p \<in> set ps. rx_packet p"
  shows "\<exists>k out st'. recv_scomm_body fuel port_index obs st = Some (out, st', True) \<and> rx_inv st' \<and>
           rx_delivers out (take k ps) \<and> rx_pending st' @ ys = concat (drop k ps) \<and>
           rx_waiting (rx_pending st')"
proof -
  let ?st = "st\<lparr>scomm := (scomm st)\<lparr>is_busying := True\<rparr>\<rparr>"
  have same: "rx_inv ?st" "rx_room ?st = rx_room st" "rx_pending ?st = rx_pending st"
    using assms(1) by (simp_all add: rx_inv_def rx_room_def rx_pending_def)
  show ?thesis
  proof (cases "pollin obs \<and> (\<exists>bs. read_res obs = Read_data bs)")
    case True
    then obtain bs where bs: "pollin obs" "read_res obs = Read_data bs" by blast
    then have "bs \<noteq> []" "length bs \<le> rx_room ?st" "rx_pending ?st @ bs @ ys = concat ps"
      using assms(4,6) same by (auto simp: read_ok_def obs_data_def)
    from rx_data_packets [OF same(1) this(1,2) assms(5) this(3) assms(7)] bs assms(3)
    show ?thesis by (fastforce simp: recv_scomm_body_def undisturbed_def Let_def)
  next
    case False
    then have idle: "obs_data obs = []"
      by (auto simp: obs_data_def split: read_result.split)
    have "\<exists>st'. recv_scomm_body fuel port_index obs st = Some ([], st', True) \<and> (st' = st \<or> st' = ?st)"
      using False assms(3)
      by (auto simp: recv_scomm_body_def undisturbed_def Let_def split: read_result.splits)
    then show ?thesis
      using idle assms(1,2,6) same by (intro exI [of _ 0]) auto
  qed
qed

lemma recv_scomm_loop_packets:
  assumes "rx_inv st" "rx_waiting (rx_pending st)" "\<forall>ro \<in> set os. undisturbed ro"
    and "reads_ok fuel port_index os st" "RX_BUF_SIZE \<le> fuel"
    and "rx_pending st @ received os @ ys = concat ps" "\<forall>p \<in> set ps. rx_packet p"
  shows "\<exists>k out st'. recv_scomm_loop fuel port_index os st = Some (out, st', True) \<and> rx_inv st' \<and>
           rx_delivers out (take k ps) \<and> rx_pending st' @ ys = concat (drop k ps) \<and>
           rx_waiting (rx_pending st')"
  using assms
proof (induction os arbitrary: st ps)
  case Nil
  then show ?case by (intro exI [of _ 0]) (simp add: received_def)
next
  case (Cons ro os)
  obtain running obs where ro: "ro = (running, obs)" by fastforce
  have u: "undisturbed (running, obs)" "running" "read_ok obs st"
    using Cons.prems(3,4) ro by (auto simp: undisturbed_def)
  have "rx_pending st @ obs_data obs @ (received os @ ys) = concat ps"
    using Cons.prems(6) ro by (simp add: received_def)
  from recv_scomm_body_packets [OF Cons.prems(1,2) u(1,3) Cons.prems(5) this Cons.prems(7)]
  obtain k out st' where body: "recv_scomm_body fuel port_index obs st = Some (out, st', True)"
    "rx_inv st'" "rx_delivers out (take k ps)" "rx_waiting (rx_pending st')"
    "rx_pending st' @ received os @ ys = concat (drop k ps)"
    by blast
  moreover have "reads_ok fuel port_index os st'"
    using Cons.prems(4) ro body(1) by simp
  moreover have "\<forall>p \<in> set (drop k ps). rx_packet p"
    using Cons.prems(7) by (meson in_set_dropD)
  ultimately obtain k' out' st'' where
    "recv_scomm_loop fuel port_index os st' = Some (out', st'', True)" "rx_inv st''"
    "rx_delivers out' (take k' (drop k ps))" "rx_pending st'' @ ys = concat (drop k' (drop k ps))"
    "rx_waiting (rx_pending st'')"
    using Cons.IH [of st' "drop k ps"] Cons.prems(3,5) by auto
  moreover have "take k ps @ take k' (drop k ps) = take (k + k') ps"
    by (simp add: take_add)
  ultimately show ?case
    using body ro u(2) rx_delivers_append [of out "take k ps" out' "take k' (drop k ps)"]
    by (intro exI [of _ "k + k'"]) (auto simp: add.commute)
qed

section \<open>Properties of the receive thread\<close>

lemma recv_scomm_stream:
  assumes "\<forall>p \<in> set ps. rx_packet p" and "received os @ ys = concat ps"
    and "\<forall>ro \<in> set os. undisturbed ro" and "RX_BUF_SIZE \<le> fuel"
    and "reads_ok fuel port_index os (rx_thread_init p)"
  shows "\<exists>k out st. scomm_vendor_recv_scomm_thread fuel port_index os p = Some (out, st, True) \<and>
           rx_delivers out (take k ps) \<and> concat (take k ps) @ rx_pending st = received os \<and>
           rx_waiting (rx_pending st) \<and> 0 < rx_room st"
proof -
  have "rx_inv (rx_thread_init p)" "rx_waiting (rx_pending (rx_thread_init p))"
    "rx_pending (rx_thread_init p) @ received os @ ys = concat ps"
    using assms(2) by (simp_all add: rx_inv_def rx_waiting_def rx_pending_def rx_thread_init_def)
  from recv_scomm_loop_packets [OF this(1,2) assms(3,5,4) this(3) assms(1)] obtain k out st where
    run: "scomm_vendor_recv_scomm_thread fuel port_index os p = Some (out, st, True)" "rx_inv st"
    "rx_delivers out (take k ps)" "rx_pending st @ ys = concat (drop k ps)" "rx_waiting (rx_pending st)"
    unfolding scomm_vendor_recv_scomm_thread_def by blast
  have "received os @ ys = concat (take k ps) @ concat (drop k ps)"
    using assms(2) by (metis append_take_drop_id concat_append)
  then have "concat (take k ps) @ rx_pending st = received os"
    using run(4) by (metis append_assoc append_same_eq)
  moreover have "length (rx_pending st) < RX_BUF_SIZE"
    using run(4,5) assms(1) by (intro rx_waiting_room [of _ ys "drop k ps"]) (auto dest: in_set_dropD)
  then have "0 < rx_room st"
    using run(2) by (simp add: rx_room_def rx_pending_def rx_inv_def min_def split: if_splits)
  ultimately show ?thesis
    using run by blast
qed

text \<open>The messages of a controller that the receive buffer can hold.\<close>

definition rx_message :: "hci_packet \<Rightarrow> bool" where
  "rx_message m \<longleftrightarrow> hci_fits m \<and> \<not> is_command m \<and> length (hci_encode m) \<le> RX_BUF_SIZE"

lemma rx_message_packet: "rx_message m \<Longrightarrow> rx_packet (hci_encode m)"
  by (cases m) (simp_all add: rx_message_def rx_packet_def rx_need_def is_rx_type_def rx_hdr_lens_def rx_payload_len_def
      le16_of_nat unat_ucast_of_nat del: unat_le16 unat_ucast_byte_u16)

lemma rx_delivers_encode:
  "rx_delivers out (map hci_encode ms) \<longleftrightarrow>
     rx_host out = map hci_encode (filter (\<lambda>m. \<not> is_log m) ms) \<and> rx_log out = map hci_encode (filter is_log ms) \<and>
     list_all2 (\<lambda>b p. take (length p) b = p) (rx_captured out) (rx_host out) \<and> captured_first out"
  by (auto simp: rx_delivers_def is_log_frame_def filter_map o_def hci_encode_log)

text \<open>
  C4: The receive thread delivers a packet stream. Whatever chunks the bytes of a sequence of
  packets arrive in, interleaved with timeouts and empty reads, the thread runs on, passes on a
  prefix of the packets unchanged, in order, log packets to the CP log and all others to the
  host, each captured for the snoop log first; every received byte is delivered or still
  pending, and there is room for more.
\<close>

theorem recv_scomm_delivers_stream:
  assumes "\<forall>m \<in> set ms. rx_message m" and "received os @ ys = concat (map hci_encode ms)"
    and "\<forall>ro \<in> set os. undisturbed ro" and "RX_BUF_SIZE \<le> fuel"
    and "reads_ok fuel port_index os (rx_thread_init p)"
  shows "\<exists>k out st. scomm_vendor_recv_scomm_thread fuel port_index os p = Some (out, st, True) \<and>
           rx_host out = map hci_encode (filter (\<lambda>m. \<not> is_log m) (take k ms)) \<and>
           rx_log out = map hci_encode (filter is_log (take k ms)) \<and>
           list_all2 (\<lambda>b p. take (length p) b = p) (rx_captured out) (rx_host out) \<and> captured_first out \<and>
           concat (map hci_encode (take k ms)) @ rx_pending st = received os \<and>
           rx_waiting (rx_pending st) \<and> 0 < rx_room st"
proof -
  have "\<forall>p \<in> set (map hci_encode ms). rx_packet p" using assms(1) rx_message_packet by auto
  from recv_scomm_stream [OF this assms(2-5)] show ?thesis
    unfolding rx_delivers_encode take_map by blast
qed

definition data_obs :: "byte list \<Rightarrow> bool \<times> poll_obs" where
  "data_obs bs = (True, \<lparr>exit_signal = False, pollin = True, pollerr = False,
     read_res = Read_data bs, running_poll = True, running_read = True\<rparr>)"

lemma undisturbed_data [simp]: "undisturbed (data_obs bs)"
  by (simp add: undisturbed_def data_obs_def)

lemma received_data [simp]: "received (data_obs bs # os) = bs @ received os" "received [] = []"
  by (simp_all add: received_def data_obs_def obs_data_def)

lemma reads_ok_single:
  "bs \<noteq> [] \<Longrightarrow> length bs \<le> RX_BUF_SIZE \<Longrightarrow> reads_ok fuel port_index [data_obs bs] (rx_thread_init p)"
  by (auto simp: data_obs_def read_ok_def rx_room_def rx_thread_init_def
      split: option.split prod.split bool.split)

theorem recv_scomm_delivers_stream_witness:
  "\<exists>k out st. scomm_vendor_recv_scomm_thread 2056 0 [data_obs [4, 0x0E, 1, 0x55, 7, 0, 1, 0, 0xAA, 2, 1]]
       zero_scomm = Some (out, st, True) \<and>
     rx_host out = map hci_encode (filter (\<lambda>m. \<not> is_log m) (take k [Hci_event 0x0E [0x55], Skw_log 0 [0xAA], Hci_acl 1 0 [9]]))"
proof -
  have "\<forall>m \<in> set [Hci_event 0x0E [0x55], Skw_log 0 [0xAA], Hci_acl 1 0 [9]]. rx_message m"
    by (simp add: rx_message_def RX_BUF_SIZE_def)
  moreover have "received [data_obs [4, 0x0E, 1, 0x55, 7, 0, 1, 0, 0xAA, 2, 1]] @ [0, 1, 0, 9] =
    concat (map hci_encode [Hci_event 0x0E [0x55], Skw_log 0 [0xAA], Hci_acl 1 0 [9]])"
    by simp
  moreover have "\<forall>ro \<in> set [data_obs [4, 0x0E, 1, 0x55, 7, 0, 1, 0, 0xAA, 2, 1]]. undisturbed ro"
    by simp
  moreover have "RX_BUF_SIZE \<le> 2056"
    by (simp add: RX_BUF_SIZE_def)
  moreover have "reads_ok 2056 0 [data_obs [4, 0x0E, 1, 0x55, 7, 0, 1, 0, 0xAA, 2, 1]]
      (rx_thread_init zero_scomm)"
    by (rule reads_ok_single) (simp_all add: RX_BUF_SIZE_def)
  ultimately show ?thesis
    using recv_scomm_delivers_stream by blast
qed

section \<open>Arbitrary input\<close>

text \<open>The bytes passed on by a run of events, in order, to whichever consumer.\<close>

fun rx_bytes :: "rx_event list \<Rightarrow> byte list" where
  "rx_bytes [] = []"
| "rx_bytes (Send_to_host _ p # es) = p @ rx_bytes es"
| "rx_bytes (Skwlog_write p # es) = p @ rx_bytes es"
| "rx_bytes (_ # es) = rx_bytes es"

lemma rx_bytes_append [simp]: "rx_bytes (a @ b) = rx_bytes a @ rx_bytes b"
  by (induction a rule: rx_bytes.induct) auto

lemma rx_bytes_emit [simp]: "rx_bytes (rx_emit buf n) = take n buf"
  by (simp add: rx_emit_def)

lemma find_valid_from_bounds: "i \<le> find_valid_from b i n \<and> find_valid_from b i n \<le> i + n"
proof (induction n arbitrary: i)
  case (Suc n)
  have "Suc i \<le> find_valid_from b (Suc i) n \<and> find_valid_from b (Suc i) n \<le> Suc i + n"
    by (rule Suc.IH)
  then show ?case by auto
qed simp

lemma scomm_vendor_find_valid_type_le: "scomm_vendor_find_valid_type b v \<le> unat v"
  using find_valid_from_bounds [of 0 b "unat v"] by (simp add: scomm_vendor_find_valid_type_def)

text \<open>One pass of the loop, whatever the buffer holds: wait, cut a piece off the front, or skip.\<close>

lemma rx_parse_cases [consumes 2, case_names wait cut skip]:
  assumes "length buf = RX_BUF_SIZE" "unat v \<le> RX_BUF_SIZE"
  obtains "is_rx_type (buf ! 0)" "rx_parse (Suc fuel) buf v = Some ([], buf, v)"
  | n where "n \<le> v" "n = rx_payload_len buf + rx_hdr_lens (buf ! 0)" "is_rx_type (buf ! 0)"
      "rx_hdr_lens (buf ! 0) \<le> v"
      "rx_parse (Suc fuel) buf v =
         (let l = v - n; buf' = copy_down buf (unat n) (unat l) in
          if 4 \<le> l then map_option (\<lambda>(out', b, l). (rx_emit buf (unat n) @ out', b, l)) (rx_parse fuel buf' l)
          else Some (rx_emit buf (unat n), buf', l))"
  | k buf' l where "\<not> is_rx_type (buf ! 0)" "k = scomm_vendor_find_valid_type buf v"
      "rx_parse (Suc fuel) buf v = Some ([], buf', l)" "length buf' = RX_BUF_SIZE"
      "unat l = unat v - k" "take (unat l) buf' = drop k (take (unat v) buf)"
proof -
  let ?k = "scomm_vendor_find_valid_type buf v"
  have k: "?k \<le> unat v" by (rule scomm_vendor_find_valid_type_le)
  then have "unat (of_nat ?k :: u16) = ?k"
    using assms(2) by (intro unat_of_nat_u16) (simp add: RX_BUF_SIZE_def)
  with k have l: "unat (v - of_nat ?k) = unat v - ?k"
    by (simp add: unat_sub_u16 word_le_nat_alt)
  show ?thesis
  proof (cases "is_rx_type (buf ! 0)")
    case True
    then show ?thesis
      using that(1) that(2) [of "rx_payload_len buf + rx_hdr_lens (buf ! 0)"]
      by (cases "rx_hdr_lens (buf ! 0) \<le> v"; cases "rx_payload_len buf + rx_hdr_lens (buf ! 0) \<le> v")
        (simp_all add: Let_def)
  next
    case False
    show ?thesis
    proof (cases "?k < unat v")
      case lt: True
      have "take (unat v - ?k) (copy_down buf ?k (unat v - ?k)) = drop ?k (take (unat v) buf)"
        using k assms by (simp add: take_copy_down subbuf_def drop_take)
      moreover have "length (copy_down buf ?k (unat v - ?k)) = RX_BUF_SIZE"
        using k assms by simp
      ultimately show ?thesis
        using that(3) [of ?k "copy_down buf ?k (unat v - ?k)" "v - of_nat ?k"] False lt l
        by (simp add: Let_def)
    next
      case ge: False
      then show ?thesis
        using that(3) [of ?k buf "v - of_nat ?k"] False k l assms by (simp add: Let_def)
    qed
  qed
qed

lemma take_copied:
  assumes "length buf = RX_BUF_SIZE" "unat v \<le> RX_BUF_SIZE" "n \<le> (v :: u16)"
  shows "take (unat (v - n)) (copy_down buf (unat n) (unat (v - n))) = drop (unat n) (take (unat v) buf)"
    "length (copy_down buf (unat n) (unat (v - n))) = RX_BUF_SIZE"
    "unat (v - n) \<le> RX_BUF_SIZE"
proof -
  have "unat n \<le> unat v"
    using assms(3) by (simp add: word_le_nat_alt)
  then show "take (unat (v - n)) (copy_down buf (unat n) (unat (v - n))) = drop (unat n) (take (unat v) buf)"
    "length (copy_down buf (unat n) (unat (v - n))) = RX_BUF_SIZE" "unat (v - n) \<le> RX_BUF_SIZE"
    using assms by (simp_all add: unat_sub_u16 take_copy_down subbuf_def drop_take)
qed


text \<open>
  A header whose announced packet is longer than 16 bits can count.
\<close>

definition rx_wraps :: "byte list \<Rightarrow> bool" where
  "rx_wraps xs = (case rx_need xs of None \<Rightarrow> False | Some n \<Rightarrow> 65536 \<le> n)"

lemma rx_need_prefix:
  assumes "is_rx_type (buf ! 0)" "unat (rx_hdr_lens (buf ! 0)) \<le> v" "v \<le> length buf"
  shows "rx_need (take v buf) = Some (unat (rx_payload_len buf) + unat (rx_hdr_lens (buf ! 0)))"
proof -
  have v: "0 < v"
    using rx_hdr_lens_ge [OF assms(1)] assms(2) by linarith
  then have "rx_payload_len (take v buf) = rx_payload_len buf"
    using assms by (intro rx_payload_len_take) auto
  then show ?thesis
    using assms v by (auto simp: rx_need_def)
qed




lemma rx_parse_ends:
  assumes "length buf = RX_BUF_SIZE" "unat v \<le> RX_BUF_SIZE" "1 \<le> unat v" "unat v \<le> fuel"
    and "\<forall>k < unat v. \<not> rx_wraps (drop k (take (unat v) buf))"
  shows "rx_parse fuel buf v \<noteq> None"
  using assms
proof (induction fuel arbitrary: buf v)
  case 0
  then show ?case by simp
next
  case (Suc fuel)
  from Suc.prems(1,2) show ?case
  proof (cases rule: rx_parse_cases [of buf v fuel])
    case (cut n)
    have h: "unat (rx_hdr_lens (buf ! 0)) \<le> unat v" "unat v \<le> length buf"
      using cut(4) Suc.prems(1,2) by (simp_all add: word_le_nat_alt)
    have "\<not> rx_wraps (take (unat v) buf)"
      using Suc.prems(3,5) by (metis Suc_le_eq drop0 One_nat_def)
    then have "unat (rx_payload_len buf) + unat (rx_hdr_lens (buf ! 0)) < 65536"
      using rx_need_prefix [OF cut(3) h] by (simp add: rx_wraps_def)
    then have n: "3 \<le> unat n"
      using cut(2) rx_hdr_lens_ge [OF cut(3)] by (simp add: unat_add_u16)
    note c = take_copied [OF Suc.prems(1,2) cut(1)]
    have l: "unat (v - n) = unat v - unat n" "unat n \<le> unat v"
      using cut(1) by (simp_all add: unat_sub_u16 word_le_nat_alt)
    have "\<not> rx_wraps (drop k (drop (unat n) (take (unat v) buf)))" if "k < unat (v - n)" for k
      using Suc.prems(5) that l by (auto simp: add.commute)
    then have "rx_parse fuel (copy_down buf (unat n) (unat (v - n))) (v - n) \<noteq> None" if "4 \<le> v - n"
      using that c l n Suc.prems(4) by (intro Suc.IH) (auto simp: word_le_nat_alt)
    then show ?thesis
      using cut(5) by (auto simp: Let_def)
  qed simp_all
qed






text \<open>
  C28: The parse loop ends. On a buffer with at least one byte, if no position of the valid bytes
  holds a header whose packet length overflows 16 bits, one unit of fuel per byte is enough: the
  loop makes progress on every pass.
\<close>

theorem rx_parse_terminates:
  assumes "length buf = RX_BUF_SIZE" "unat v \<le> RX_BUF_SIZE" "1 \<le> unat v" "unat v \<le> fuel"
    and "\<forall>k < unat v. \<not> rx_wraps (drop k (take (unat v) buf))"
  shows "rx_parse fuel buf v \<noteq> None"
  using assms by (rule rx_parse_ends)

theorem rx_parse_terminates_witness:
  "rx_parse 2 (overwrite (replicate 2056 0) 0 [4, 0]) 2 \<noteq> None"
proof -
  have "take 2 (overwrite (replicate 2056 0) 0 [4, 0]) = [4, 0 :: byte]"
    by (simp add: overwrite_def)
  moreover have "\<forall>k < 2. \<not> rx_wraps (drop k [4, 0])"
    by (auto simp: rx_wraps_def rx_need_def is_rx_type_def rx_hdr_lens_def less_2_cases_iff)
  ultimately show ?thesis
    using rx_parse_terminates [of "overwrite (replicate 2056 0) 0 [4, 0]" 2 2]
    by (simp add: RX_BUF_SIZE_def)
qed


section \<open>Where the 16-bit lengths and the buffer size show\<close>

text \<open>
  C31: An ACL or ISO header that announces 65531 bytes makes the 16-bit packet length wrap to 0:
  the parse loop cuts nothing off the buffer and never ends, whatever the fuel.
\<close>

theorem rx_parse_zero_length_loops:
  assumes "length buf = RX_BUF_SIZE" and "5 \<le> unat v" and "unat v \<le> RX_BUF_SIZE"
    and "buf ! 0 = HCI_ACLDATA_PKT \<or> buf ! 0 = HCI_ISO_PKT" and "buf ! 3 = 0xFB" and "buf ! 4 = 0xFF"
  shows "rx_parse fuel buf v = None"
proof (induction fuel)
  case (Suc fuel)
  have "(65531 :: u16) + 5 = 0"
    by (simp add: word_unat_eq_iff unat_word_ariths)
  moreover have "is_rx_type (buf ! 0)" "rx_hdr_lens (buf ! 0) = 5" "rx_payload_len buf = 65531"
    using assms(4-6) by (auto simp: is_rx_type_def rx_hdr_lens_def rx_payload_len_def le16_def)
  ultimately have "is_rx_type (buf ! 0)" "rx_hdr_lens (buf ! 0) = 5"
    "rx_payload_len buf + rx_hdr_lens (buf ! 0) = 0"
    by simp_all
  moreover have "5 \<le> v" "4 \<le> v"
    using assms(2) by (simp_all add: word_le_nat_alt)
  ultimately show ?case
    using Suc by (simp add: Let_def)
qed simp

theorem rx_parse_zero_length_loops_witness:
  "rx_parse 100000 (overwrite (replicate 2056 0) 0 [2, 0, 0, 0xFB, 0xFF]) 5 = None"
  by (rule rx_parse_zero_length_loops) (simp_all add: RX_BUF_SIZE_def overwrite_def)

lemma rx_data_oversize:
  assumes "rx_inv st" "length bs \<le> rx_room st" "rx_need (rx_pending st) = Some n"
    and "RX_BUF_SIZE < n" "n < 65536" "0 < fuel"
  shows "\<exists>st'. rx_data fuel bs st = Some ([], st') \<and> rx_inv st' \<and> scomm st' = scomm st \<and>
           rx_pending st' = rx_pending st @ bs"
proof -
  let ?buf = "overwrite (read_buffer st) (unat (last_len st)) bs"
  let ?v = "of_nat (length bs) + last_len st"
  note b = rx_data_buffer [OF assms(1,2)]
  have need: "rx_need (take (unat ?v) ?buf) = Some n"
    using rx.need_append [OF assms(3), of bs] b(4) by simp
  then have ty: "is_rx_type (?buf ! 0)" "rx_hdr_lens (?buf ! 0) \<le> ?v"
    by (auto simp: rx_need_def word_le_nat_alt split: if_splits)
  then have "rx_need (take (unat ?v) ?buf) =
      Some (unat (rx_payload_len ?buf) + unat (rx_hdr_lens (?buf ! 0)))"
    using b by (intro rx_need_prefix) (simp_all add: word_le_nat_alt)
  then have n: "n = unat (rx_payload_len ?buf) + unat (rx_hdr_lens (?buf ! 0))"
    using need by simp
  then have "\<not> rx_payload_len ?buf + rx_hdr_lens (?buf ! 0) \<le> ?v"
    using assms(4,5) b(3) by (simp add: word_le_nat_alt unat_add_u16)
  with ty have "rx_parse fuel ?buf ?v = Some ([], ?buf, ?v)"
    using assms(6) by (cases fuel) (simp_all add: Let_def)
  then have "rx_data fuel bs st = Some ([], st\<lparr>read_buffer := ?buf, last_len := ?v\<rparr>)"
    by (simp add: rx_data_def)
  then show ?thesis
    using b by (auto simp: rx_inv_def rx_pending_def)
qed

lemma recv_scomm_body_oversize:
  assumes "rx_inv st" "rx_need (rx_pending st) = Some n" "RX_BUF_SIZE < n" "n < 65536" "0 < fuel"
    and "undisturbed (running, obs)" "read_ok obs st"
  shows "\<exists>st'. recv_scomm_body fuel port_index obs st = Some ([], st', True) \<and> rx_inv st' \<and>
           rx_pending st' = rx_pending st @ obs_data obs"
proof -
  let ?st = "st\<lparr>scomm := (scomm st)\<lparr>is_busying := True\<rparr>\<rparr>"
  have same: "rx_inv ?st" "rx_room ?st = rx_room st" "rx_pending ?st = rx_pending st"
    using assms(1) by (simp_all add: rx_inv_def rx_room_def rx_pending_def)
  show ?thesis
  proof (cases "pollin obs \<and> (\<exists>bs. read_res obs = Read_data bs)")
    case True
    then obtain bs where bs: "pollin obs" "read_res obs = Read_data bs" by blast
    then have "length bs \<le> rx_room ?st"
      using assms(7) same by (simp add: read_ok_def)
    from rx_data_oversize [OF same(1) this _ assms(3-5)] bs assms(2,6) same
    show ?thesis by (fastforce simp: recv_scomm_body_def undisturbed_def Let_def obs_data_def)
  next
    case False
    then have "obs_data obs = []"
      by (auto simp: obs_data_def split: read_result.split)
    moreover have "\<exists>st'. recv_scomm_body fuel port_index obs st = Some ([], st', True) \<and> (st' = st \<or> st' = ?st)"
      using False assms(6)
      by (auto simp: recv_scomm_body_def undisturbed_def Let_def split: read_result.splits)
    ultimately show ?thesis
      using assms(1) same by auto
  qed
qed

text \<open>
  A packet that the receive buffer cannot hold stops the port. Once the header of a packet of
  more than 2056 (and less than 65536) bytes is at the front, the thread keeps running but passes
  nothing on any more, however long it runs and whatever arrives: all it does is fill the buffer.
\<close>

theorem recv_scomm_oversize_stalls:
  assumes "rx_inv st" and "rx_need (rx_pending st) = Some n" and "RX_BUF_SIZE < n" and "n < 65536"
    and "\<forall>ro \<in> set os. undisturbed ro" and "reads_ok fuel port_index os st" and "0 < fuel"
  shows "\<exists>st'. recv_scomm_loop fuel port_index os st = Some ([], st', True) \<and>
           rx_pending st' = rx_pending st @ received os"
  using assms
proof (induction os arbitrary: st)
  case Nil
  then show ?case by (simp add: received_def)
next
  case (Cons ro os)
  obtain running obs where ro: "ro = (running, obs)" by fastforce
  have u: "undisturbed (running, obs)" "running" "read_ok obs st"
    using Cons.prems(5,6) ro by (auto simp: undisturbed_def)
  from recv_scomm_body_oversize [OF Cons.prems(1-4,7) u(1,3)] obtain st1 where
    st1: "recv_scomm_body fuel port_index obs st = Some ([], st1, True)" "rx_inv st1"
    "rx_pending st1 = rx_pending st @ obs_data obs" by blast
  have "rx_need (rx_pending st1) = Some n"
    using rx.need_append [OF Cons.prems(2)] st1(3) by simp
  with Cons.IH [of st1] st1 Cons.prems ro obtain st' where
    "recv_scomm_loop fuel port_index os st1 = Some ([], st', True)"
    "rx_pending st' = rx_pending st1 @ received os" by auto
  with st1 ro u(2) show ?case
    by (auto simp: received_def)
qed

theorem recv_scomm_oversize_stalls_witness:
  "\<exists>st'. recv_scomm_loop 1 0 [data_obs (replicate 2051 0)]
      \<lparr>scomm = zero_scomm, read_buffer = overwrite (replicate 2056 0) 0 [2, 0, 0, 0, 0x10], last_len = 5\<rparr>
      = Some ([], st', True)"
proof -
  let ?st = "\<lparr>scomm = zero_scomm, read_buffer = overwrite (replicate 2056 0) 0 [2, 0, 0, 0, 0x10], last_len = 5\<rparr>"
  have "rx_inv ?st"
    by (simp add: rx_inv_def RX_BUF_SIZE_def)
  moreover have "rx_pending ?st = [2, 0, 0, 0, 0x10]"
    by (simp add: rx_pending_def overwrite_def)
  then have "rx_need (rx_pending ?st) = Some 4101"
    by (simp add: rx_need_def is_rx_type_def rx_hdr_lens_def rx_payload_len_def le16_def)
  moreover have "reads_ok 1 0 [data_obs (replicate 2051 0)] ?st"
    by (auto simp: data_obs_def read_ok_def rx_room_def RX_BUF_SIZE_def
        split: option.split prod.split bool.split)
  ultimately show ?thesis
    using recv_scomm_oversize_stalls [of ?st 4101 "[data_obs (replicate 2051 0)]" 1 0]
    by (auto simp: RX_BUF_SIZE_def)
qed

section \<open>Resynchronisation and exit\<close>

lemma find_valid_from_takeWhile:
  "i + n \<le> length b \<Longrightarrow>
   find_valid_from b i n = i + length (takeWhile (\<lambda>t. t \<notin> {2, 3, 4, 7}) (subbuf i n b))"
proof (induction n arbitrary: i)
  case 0
  then show ?case by (simp add: subbuf_def)
next
  case (Suc n)
  then have "subbuf i (Suc n) b = b ! i # subbuf (Suc i) n b"
    by (simp add: subbuf_def Cons_nth_drop_Suc [symmetric])
  with Suc show ?case by auto
qed

text \<open>
  C32: Resynchronisation. When the first pending byte starts no packet, the pass delivers nothing
  and drops exactly the bytes before the first event, ACL, SCO or log packet type; what follows
  stays pending until the next read. (An ISO packet type, which the parser itself accepts, is not
  searched for and is dropped with the rest.)
\<close>

theorem rx_parse_resync:
  assumes "length buf = RX_BUF_SIZE" and "unat v \<le> RX_BUF_SIZE" and "\<not> is_rx_type (buf ! 0)"
  shows "\<exists>buf' l. rx_parse (Suc fuel) buf v = Some ([], buf', l) \<and>
           take (unat l) buf' = dropWhile (\<lambda>t. t \<notin> {2, 3, 4, 7}) (take (unat v) buf)"
  using assms(1,2)
proof (cases rule: rx_parse_cases [of buf v fuel])
  case wait
  with assms(3) show ?thesis by blast
next
  case (cut n)
  with assms(3) show ?thesis by blast
next
  case (skip k buf' l)
  have "k = length (takeWhile (\<lambda>t. t \<notin> {2, 3, 4, 7}) (take (unat v) buf))"
    using skip(2) find_valid_from_takeWhile [of 0 "unat v" buf] assms(1,2)
    by (simp add: scomm_vendor_find_valid_type_def)
  then show ?thesis
    using skip(3,6) by (simp add: dropWhile_eq_drop)
qed

theorem rx_parse_resync_witness:
  "\<exists>buf' l. rx_parse 1 (overwrite (replicate 2056 0) 0 [0, 5, 1, 4, 0x0E]) 5 = Some ([], buf', l) \<and>
     take (unat l) buf' = [4, 0x0E]"
proof -
  let ?b = "overwrite (replicate 2056 0) 0 [0, 5, 1, 4, 0x0E] :: byte list"
  have "length ?b = RX_BUF_SIZE" "unat (5 :: u16) \<le> RX_BUF_SIZE" "\<not> is_rx_type (?b ! 0)"
    by (simp_all add: RX_BUF_SIZE_def is_rx_type_def overwrite_def)
  from rx_parse_resync [OF this, of 0] show ?thesis
    by (simp add: overwrite_def)
qed

lemma recv_scomm_exit_simps [simp]:
  "is_busying (scomm (recv_scomm_exit st)) = False" "thread_uart_id (scomm (recv_scomm_exit st)) = -1"
  by (simp_all add: recv_scomm_exit_def)




end
