(* ===== verification/Posix.thy ===== *)
theory Posix
  imports Prelude
begin

text \<open>
  The file operations of the C library that the logs use, over an explicit file system: a
  directory from path names to files, the files' contents, and the table of open descriptors.
  Renaming moves a name, so a descriptor keeps its file, as in POSIX. Every write here is to a
  descriptor opened with \<open>O_APPEND\<close>; writes of the modelled code ignore the returned count, and
  are taken to be complete.
\<close>

section \<open>The file system\<close>

record posix =
  dir :: "string \<rightharpoonup> nat"
  inode :: "nat \<Rightarrow> byte list"
  next_ino :: nat
  fdt :: "nat option list"
  errno :: int
  denied :: "string \<Rightarrow> bool"  \<comment> \<open>paths \<open>open\<close> refuses\<close>

abbreviation (input) ENOENT :: int where "ENOENT \<equiv> 2"
abbreviation (input) EBADF :: int where "EBADF \<equiv> 9"
abbreviation (input) EACCES :: int where "EACCES \<equiv> 13"

text \<open>The lowest free descriptor.\<close>

fun fd_alloc :: "'a option list \<Rightarrow> 'a \<Rightarrow> nat \<times> 'a option list" where
  "fd_alloc [] x = (0, [Some x])"
| "fd_alloc (None # t) x = (0, Some x # t)"
| "fd_alloc (Some y # t) x = (let (n, t') = fd_alloc t x in (Suc n, Some y # t'))"

definition fd_ino :: "posix \<Rightarrow> int \<Rightarrow> nat option" where
  "fd_ino s d = (if 0 \<le> d \<and> nat d < length (fdt s) then fdt s ! nat d else None)"

definition px_exists :: "string \<Rightarrow> posix \<Rightarrow> bool" where
  "px_exists path s \<longleftrightarrow> dir s path \<noteq> None"

text \<open>\<open>stat\<close>: whether the path names a file.\<close>

definition px_stat :: "string \<Rightarrow> posix \<Rightarrow> bool \<times> posix" where
  "px_stat path s = (if px_exists path s then (True, s) else (False, s\<lparr>errno := ENOENT\<rparr>))"

definition px_open_read :: "string \<Rightarrow> posix \<Rightarrow> int \<times> posix" where
  "px_open_read path s =
     (case dir s path of
        None \<Rightarrow> (-1, s\<lparr>errno := ENOENT\<rparr>)
      | Some i \<Rightarrow>
          if denied s path then (-1, s\<lparr>errno := EACCES\<rparr>)
          else let (n, t) = fd_alloc (fdt s) i in (int n, s\<lparr>fdt := t\<rparr>))"

text \<open>The two steps both logs look for an existing file by: \<open>stat\<close>, and \<open>open\<close> if that succeeds.\<close>

definition px_look :: "string \<Rightarrow> posix \<Rightarrow> int \<times> posix" where
  "px_look path s = (let (found, s0) = px_stat path s in if found then px_open_read path s0 else (-1, s0))"

definition px_open_append :: "string \<Rightarrow> posix \<Rightarrow> int \<times> posix" where
  "px_open_append path s =
     (if denied s path then (-1, s\<lparr>errno := EACCES\<rparr>)
      else
        (case dir s path of
           Some i \<Rightarrow> let (n, t) = fd_alloc (fdt s) i in (int n, s\<lparr>fdt := t\<rparr>)
         | None \<Rightarrow>
             let i = next_ino s; (n, t) = fd_alloc (fdt s) i
             in (int n, s\<lparr>dir := (dir s)(path \<mapsto> i), inode := (inode s)(i := []),
                          next_ino := Suc i, fdt := t\<rparr>)))"

text \<open>\<open>fopen\<close> with \<open>"w"\<close>: like the above, and an existing file is emptied.\<close>

definition px_open_trunc :: "string \<Rightarrow> posix \<Rightarrow> int \<times> posix" where
  "px_open_trunc path s =
     (let (d, s1) = px_open_append path s in
      case dir s1 path of
        Some i \<Rightarrow> (d, if d < 0 then s1 else s1\<lparr>inode := (inode s1)(i := [])\<rparr>)
      | None \<Rightarrow> (d, s1))"

definition px_close :: "int \<Rightarrow> posix \<Rightarrow> posix" where
  "px_close d s =
     (case fd_ino s d of None \<Rightarrow> s\<lparr>errno := EBADF\<rparr> | Some _ \<Rightarrow> s\<lparr>fdt := (fdt s)[nat d := None]\<rparr>)"

definition px_write :: "int \<Rightarrow> byte list \<Rightarrow> posix \<Rightarrow> posix" where
  "px_write d bs s =
     (case fd_ino s d of
        None \<Rightarrow> s\<lparr>errno := EBADF\<rparr>
      | Some i \<Rightarrow> s\<lparr>inode := (inode s)(i := inode s i @ bs)\<rparr>)"

definition px_size :: "int \<Rightarrow> posix \<Rightarrow> nat" where
  "px_size d s = (case fd_ino s d of None \<Rightarrow> 0 | Some i \<Rightarrow> length (inode s i))"

definition px_remove :: "string \<Rightarrow> posix \<Rightarrow> posix" where
  "px_remove path s =
     (if px_exists path s then s\<lparr>dir := (dir s)(path := None)\<rparr> else s\<lparr>errno := ENOENT\<rparr>)"

text \<open>\<open>rename\<close>: the returned value and the file system.\<close>

definition px_rename :: "string \<Rightarrow> string \<Rightarrow> posix \<Rightarrow> int \<times> posix" where
  "px_rename old new s =
     (case dir s old of
        None \<Rightarrow> (-1, s\<lparr>errno := ENOENT\<rparr>)
      | Some i \<Rightarrow> (0, s\<lparr>dir := (dir s)(old := None, new := Some i)\<rparr>))"

text \<open>What a path and what a descriptor holds.\<close>

definition px_content :: "posix \<Rightarrow> string \<Rightarrow> byte list option" where
  "px_content s path = map_option (inode s) (dir s path)"

definition px_fd_content :: "posix \<Rightarrow> int \<Rightarrow> byte list option" where
  "px_fd_content s d = map_option (inode s) (fd_ino s d)"

text \<open>\<open>(int) buf.st_size\<close>: the size cut to a signed 32-bit integer.\<close>

definition c_int :: "nat \<Rightarrow> int" where
  "c_int n = sint (of_nat n :: u32)"

lemma c_int_small: "n < 2 ^ 31 \<Longrightarrow> c_int n = int n"
  by (simp add: c_int_def signed_of_nat signed_take_bit_int_eq_self)

lemma c_int_large: "2 ^ 31 \<le> n \<Longrightarrow> n < 2 ^ 32 \<Longrightarrow> c_int n = int n - 2 ^ 32"
proof -
  assume n: "2 ^ 31 \<le> n" "n < 2 ^ 32"
  have "c_int n = (int n + 2 ^ 31) mod 2 ^ 32 - 2 ^ 31"
    by (simp add: c_int_def signed_of_nat signed_take_bit_eq_take_bit_shift take_bit_eq_mod)
  moreover have "(int n + 2 ^ 31) mod 2 ^ 32 = int n + 2 ^ 31 - 2 ^ 32"
    using n by (intro mod_pos_pos_trivial [THEN trans [OF minus_mod_self2 [symmetric]]]) simp_all
  ultimately show ?thesis by simp
qed

section \<open>A well-formed file system\<close>

text \<open>Two names never share a file, and the next file is fresh.\<close>

definition px_ok :: "posix \<Rightarrow> bool" where
  "px_ok s \<longleftrightarrow>
     (\<forall>p q i. dir s p = Some i \<longrightarrow> dir s q = Some i \<longrightarrow> p = q) \<and>
     (\<forall>p i. dir s p = Some i \<longrightarrow> i < next_ino s) \<and>
     (\<forall>i. Some i \<in> set (fdt s) \<longrightarrow> i < next_ino s)"

text \<open>The number of open descriptors.\<close>

fun open_entry :: "'a option \<Rightarrow> bool" where
  "open_entry None = False"
| "open_entry (Some _) = True"

definition px_open_count :: "posix \<Rightarrow> nat" where
  "px_open_count s = length (filter open_entry (fdt s))"

lemma fd_alloc_get: "fd_alloc t x = (n, t') \<Longrightarrow> n < length t' \<and> t' ! n = Some x"
  by (induction t x arbitrary: n t' rule: fd_alloc.induct) (auto split: prod.splits)

lemma fd_alloc_fresh: "fd_alloc t x = (n, t') \<Longrightarrow> n < length t \<Longrightarrow> t ! n = None"
  by (induction t x arbitrary: n t' rule: fd_alloc.induct) (auto split: prod.splits)

lemma fd_alloc_other:
  "fd_alloc t x = (n, t') \<Longrightarrow> m \<noteq> n \<Longrightarrow>
     (m < length t' \<longrightarrow> m < length t \<and> t' ! m = t ! m) \<and> (m < length t \<longrightarrow> m < length t')"
proof (induction t x arbitrary: n t' m rule: fd_alloc.induct)
  case (3 y t x)
  then show ?case by (cases m) (auto split: prod.splits)
qed (auto simp: nth_Cons')

lemma fd_alloc_set: "fd_alloc t x = (n, t') \<Longrightarrow> set t' \<subseteq> insert (Some x) (set t)"
  by (induction t x arbitrary: n t' rule: fd_alloc.induct) (auto split: prod.splits)

lemma fd_alloc_count:
  "fd_alloc t x = (n, t') \<Longrightarrow>
     length (filter open_entry t') = Suc (length (filter open_entry t))"
  by (induction t x arbitrary: n t' rule: fd_alloc.induct) (auto split: prod.splits)

text \<open>A descriptor just allocated, then closed, leaves the others as they were.\<close>

lemma fd_alloc_close:
  "fd_alloc t x = (n, t') \<Longrightarrow> filter open_entry (t'[n := None]) = filter open_entry t"
  by (induction t x arbitrary: n t' rule: fd_alloc.induct) (auto split: prod.splits)

section \<open>The interface the logs use\<close>

text \<open>
  What a log relies on: an append goes to the end of the file a descriptor is linked to and to no
  other file; a rename moves one file; opening creates the file or keeps it; closing and removing
  do not touch other files. \<open>linked s d p\<close> says that descriptor \<open>d\<close> writes to the file named \<open>p\<close>.
\<close>

locale file_store =
  fixes ok :: "'s \<Rightarrow> bool"
    and content :: "'s \<Rightarrow> string \<Rightarrow> byte list option"
    and linked :: "'s \<Rightarrow> int \<Rightarrow> string \<Rightarrow> bool"
    and wr :: "int \<Rightarrow> byte list \<Rightarrow> 's \<Rightarrow> 's"
    and opn :: "string \<Rightarrow> 's \<Rightarrow> int \<times> 's"
    and cls :: "int \<Rightarrow> 's \<Rightarrow> 's"
    and ren :: "string \<Rightarrow> string \<Rightarrow> 's \<Rightarrow> int \<times> 's"
    and rm :: "string \<Rightarrow> 's \<Rightarrow> 's"
  assumes wr_ok: "ok s \<Longrightarrow> ok (wr d bs s)"
    and wr_content: "ok s \<Longrightarrow> linked s d p \<Longrightarrow> content s p = Some c \<Longrightarrow>
          content (wr d bs s) = (content s)(p \<mapsto> c @ bs)"
    and wr_linked: "linked (wr d bs s) e q = linked s e q"
    and opn_ok: "ok s \<Longrightarrow> ok (snd (opn p s))"
    and opn_linked: "ok s \<Longrightarrow> 0 \<le> fst (opn p s) \<Longrightarrow> linked (snd (opn p s)) (fst (opn p s)) p"
    and opn_content: "ok s \<Longrightarrow> 0 \<le> fst (opn p s) \<Longrightarrow>
          content (snd (opn p s)) = (content s)(p \<mapsto> (case content s p of None \<Rightarrow> [] | Some c \<Rightarrow> c))"
    and cls_ok: "ok s \<Longrightarrow> ok (cls d s)"
    and cls_content: "content (cls d s) = content s"
    and ren_ok: "ok s \<Longrightarrow> ok (snd (ren p q s))"
    and ren_content: "ok s \<Longrightarrow> content s p = Some c \<Longrightarrow> p \<noteq> q \<Longrightarrow>
          fst (ren p q s) = 0 \<and> content (snd (ren p q s)) = (content s)(p := None, q \<mapsto> c)"
    and rm_ok: "ok s \<Longrightarrow> ok (rm p s)"
    and rm_content: "content (rm p s) = (content s)(p := None)"
    and opn_keeps: "linked s d q \<Longrightarrow> linked (snd (opn p s)) d q"
    and cls_keeps: "d \<noteq> e \<Longrightarrow> linked (cls e s) d q = linked s d q"
    and ren_keeps: "q \<noteq> p1 \<Longrightarrow> q \<noteq> p2 \<Longrightarrow> linked (snd (ren p1 p2 s)) d q = linked s d q"
    and rm_keeps: "q \<noteq> p \<Longrightarrow> linked (rm p s) d q = linked s d q"
    and linked_inj: "ok s \<Longrightarrow> linked s d p \<Longrightarrow> linked s d q \<Longrightarrow> p = q"
begin

lemmas store_ok = wr_ok opn_ok cls_ok ren_ok rm_ok

lemmas store_keeps = wr_linked opn_keeps cls_keeps ren_keeps rm_keeps

text \<open>Descriptors of different files differ.\<close>

lemma linked_differ: "ok s \<Longrightarrow> linked s d p \<Longrightarrow> linked s e q \<Longrightarrow> p \<noteq> q \<Longrightarrow> d \<noteq> e"
  using linked_inj by blast

text \<open>A sequence of appends.\<close>

lemma wr_all:
  assumes "ok s" "linked s d p" "content s p = Some c"
  shows "ok (fold (wr d) bss s)" "linked (fold (wr d) bss s) e q = linked s e q"
    "content (fold (wr d) bss s) = (content s)(p \<mapsto> c @ concat bss)"
  using assms
  by (induction bss arbitrary: s c) (auto simp: wr_ok wr_content wr_linked fun_upd_idem)

text \<open>
  Rotation: the current log takes another name, a new file is opened under its own name and gets
  its header. The old contents survive under the other name.
\<close>

lemma rotate:
  assumes "ok s" "content s p = Some c" "p \<noteq> q" "ren p q s = (r, s1)" "opn p s1 = (d, s2)" "0 \<le> d"
  shows "content (wr d hdr s2) = (content s)(p \<mapsto> hdr, q \<mapsto> c)" "linked (wr d hdr s2) d p"
    "ok (wr d hdr s2)"
proof -
  from ren_content [OF assms(1-3)] ren_ok [OF assms(1), of p q] assms(4)
  have s1: "ok s1" "content s1 = (content s)(p := None, q \<mapsto> c)"
    by simp_all
  from opn_ok [OF s1(1), of p] opn_linked [OF s1(1), of p] opn_content [OF s1(1), of p] assms(3,5,6)
  have s2: "ok s2" "linked s2 d p" "content s2 = (content s)(p \<mapsto> [], q \<mapsto> c)"
    by (simp_all add: s1(2) fun_upd_twist)
  then show "ok (wr d hdr s2)" "linked (wr d hdr s2) d p"
    by (simp_all add: wr_ok wr_linked)
  show "content (wr d hdr s2) = (content s)(p \<mapsto> hdr, q \<mapsto> c)"
    using wr_content [OF s2(1,2)] assms(3) by (simp add: s2(3) fun_upd_twist)
qed

text \<open>A new file under a name that is not in use.\<close>

lemma fresh:
  assumes "ok s" "content s p = None" "opn p s = (d, s2)" "0 \<le> d"
  shows "content (wr d hdr s2) = (content s)(p \<mapsto> hdr)" "linked (wr d hdr s2) d p" "ok (wr d hdr s2)"
proof -
  from opn_ok [OF assms(1), of p] opn_linked [OF assms(1), of p] opn_content [OF assms(1), of p] assms(2-4)
  have s2: "ok s2" "linked s2 d p" "content s2 = (content s)(p \<mapsto> [])"
    by simp_all
  then show "ok (wr d hdr s2)" "linked (wr d hdr s2) d p" "content (wr d hdr s2) = (content s)(p \<mapsto> hdr)"
    using wr_content [OF s2(1,2)] by (simp_all add: wr_ok wr_linked)
qed

end

text \<open>The file system above provides it.\<close>

definition px_linked :: "posix \<Rightarrow> int \<Rightarrow> string \<Rightarrow> bool" where
  "px_linked s d path \<longleftrightarrow> fd_ino s d \<noteq> None \<and> fd_ino s d = dir s path"

lemma px_linked_iff: "px_linked s d p \<longleftrightarrow> (\<exists>i. fd_ino s d = Some i \<and> dir s p = Some i)"
  by (auto simp: px_linked_def)

lemma px_content_linked: "px_linked s d p \<Longrightarrow> \<exists>c. px_content s p = Some c"
  by (auto simp: px_linked_iff px_content_def)

lemma px_okI:
  "(\<And>p q i. dir s p = Some i \<Longrightarrow> dir s q = Some i \<Longrightarrow> p = q) \<Longrightarrow>
   (\<And>p i. dir s p = Some i \<Longrightarrow> i < next_ino s) \<Longrightarrow>
   (\<And>i. Some i \<in> set (fdt s) \<Longrightarrow> i < next_ino s) \<Longrightarrow> px_ok s"
  by (auto simp: px_ok_def)

lemma px_write_content:
  assumes "px_ok s" "px_linked s d p" "px_content s p = Some c"
  shows "px_content (px_write d bs s) = (px_content s)(p \<mapsto> c @ bs)"
proof
  fix q
  obtain i where i: "fd_ino s d = Some i" "dir s p = Some i"
    using assms(2) unfolding px_linked_def by (metis not_Some_eq)
  then have "dir s q = Some i \<longleftrightarrow> q = p"
    using assms(1) by (auto simp: px_ok_def)
  then show "px_content (px_write d bs s) q = ((px_content s)(p \<mapsto> c @ bs)) q"
    using i assms(3) by (auto simp: px_write_def px_content_def map_option_case split: option.split)
qed

text \<open>The three ways \<open>open\<close> goes.\<close>

lemma px_open_append_cases [case_names refused existing created]:
  obtains "px_open_append p s = (-1, s\<lparr>errno := EACCES\<rparr>)"
  | i n t where "dir s p = Some i" "fd_alloc (fdt s) i = (n, t)"
      "px_open_append p s = (int n, s\<lparr>fdt := t\<rparr>)"
  | n t where "dir s p = None" "fd_alloc (fdt s) (next_ino s) = (n, t)"
      "px_open_append p s = (int n, s\<lparr>dir := (dir s)(p \<mapsto> next_ino s),
         inode := (inode s)(next_ino s := []), next_ino := Suc (next_ino s), fdt := t\<rparr>)"
  by (cases "denied s p"; cases "dir s p"; cases "fd_alloc (fdt s) (next_ino s)";
      cases "fd_alloc (fdt s) (the (dir s p))")
    (auto simp: px_open_append_def Let_def)

lemma px_open_append_ok: "px_ok s \<Longrightarrow> px_ok (snd (px_open_append p s))"
proof (cases rule: px_open_append_cases [of p s])
  case refused
  then show "px_ok s \<Longrightarrow> ?thesis" by (simp add: px_ok_def)
next
  case (existing i n t)
  then show "px_ok s \<Longrightarrow> ?thesis"
    using fd_alloc_set [OF existing(2)] by (auto simp: px_ok_def)
next
  case (created n t)
  then show "px_ok s \<Longrightarrow> ?thesis"
    using fd_alloc_set [OF created(2)] by (auto simp: px_ok_def intro: less_SucI)
qed

lemma px_open_append_linked:
  "0 \<le> fst (px_open_append p s) \<Longrightarrow> px_linked (snd (px_open_append p s)) (fst (px_open_append p s)) p"
proof (cases rule: px_open_append_cases [of p s])
  case (existing i n t)
  then show ?thesis
    using fd_alloc_get [OF existing(2)] by (simp add: px_linked_def fd_ino_def)
next
  case (created n t)
  then show ?thesis
    using fd_alloc_get [OF created(2)] by (simp add: px_linked_def fd_ino_def)
qed simp

lemma px_open_append_content:
  assumes "px_ok s" "0 \<le> fst (px_open_append p s)"
  shows "px_content (snd (px_open_append p s)) =
    (px_content s)(p \<mapsto> (case px_content s p of None \<Rightarrow> [] | Some c \<Rightarrow> c))"
proof (cases rule: px_open_append_cases [of p s])
  case refused
  with assms show ?thesis by simp
next
  case (existing i n t)
  then show ?thesis by (auto simp: px_content_def fun_eq_iff)
next
  case (created n t)
  have "dir s q = Some i \<Longrightarrow> i \<noteq> next_ino s" for q i
    using assms(1) by (auto simp: px_ok_def)
  with created show ?thesis
    by (auto simp: px_content_def fun_eq_iff map_option_case split: option.split)
qed

lemma fd_ino_close: "fd_ino (px_close d s) e = (if e = d then None else fd_ino s e)"
  by (auto simp: px_close_def fd_ino_def nth_list_update nat_eq_iff split: option.split)

lemma px_close_ok: "px_ok s \<Longrightarrow> px_ok (px_close d s)"
  using set_update_subset_insert [of "fdt s" "nat d" None]
  by (auto simp: px_close_def px_ok_def split: option.split)

lemma px_close_content: "px_content (px_close d s) = px_content s"
  by (auto simp: px_close_def px_content_def fun_eq_iff split: option.split)

lemma px_rename_ok: "px_ok s \<Longrightarrow> px_ok (snd (px_rename p q s))"
  by (auto simp: px_rename_def px_ok_def split: option.split)

lemma px_rename_content:
  "px_content s p = Some c \<Longrightarrow> p \<noteq> q \<Longrightarrow>
   fst (px_rename p q s) = 0 \<and> px_content (snd (px_rename p q s)) = (px_content s)(p := None, q \<mapsto> c)"
  by (auto simp: px_rename_def px_content_def fun_eq_iff)

lemma fd_ino_open_other:
  assumes "fd_alloc (fdt s) x = (n, t)" "fd_ino s d \<noteq> None"
  shows "fd_ino (s\<lparr>fdt := t\<rparr>) d = fd_ino s d"
proof -
  have "nat d \<noteq> n"
    using fd_alloc_fresh [OF assms(1)] assms(2) by (auto simp: fd_ino_def split: if_splits)
  then show ?thesis
    using fd_alloc_other [OF assms(1), of "nat d"] by (auto simp: fd_ino_def)
qed

lemma fd_ino_frame [simp]:
  "fd_ino (s\<lparr>errno := e\<rparr>) d = fd_ino s d"
  "fd_ino (s\<lparr>dir := x, inode := y, next_ino := z, fdt := t\<rparr>) d = fd_ino (s\<lparr>fdt := t\<rparr>) d"
  by (simp_all add: fd_ino_def)

lemma px_open_append_keeps:
  assumes "px_linked s d q"
  shows "px_linked (snd (px_open_append p s)) d q"
proof (cases rule: px_open_append_cases [of p s])
  case refused
  with assms show ?thesis by (auto simp: px_linked_iff)
next
  case (existing i n t)
  then have "fd_ino (s\<lparr>fdt := t\<rparr>) d = fd_ino s d"
    using assms fd_ino_open_other [of s _ n t d] by (auto simp: px_linked_iff)
  with existing assms show ?thesis by (simp add: px_linked_iff)
next
  case (created n t)
  then have "fd_ino (s\<lparr>fdt := t\<rparr>) d = fd_ino s d"
    using assms fd_ino_open_other [of s _ n t d] by (auto simp: px_linked_iff)
  with created assms show ?thesis by (auto simp: px_linked_iff)
qed

lemma px_linked_inj: "px_ok s \<Longrightarrow> px_linked s d p \<Longrightarrow> px_linked s d q \<Longrightarrow> p = q"
  unfolding px_linked_def px_ok_def by (metis not_None_eq)

interpretation px: file_store px_ok px_content px_linked px_write px_open_append px_close px_rename px_remove
proof
  show "px_linked (px_write d bs s) e q = px_linked s e q" for d bs s e q
    by (auto simp: px_linked_def px_write_def fd_ino_def split: option.split)
  show "px_ok (px_write d bs s)" if "px_ok s" for d bs s
    using that by (auto simp: px_write_def px_ok_def split: option.split)
  show "px_ok (px_remove p s)" if "px_ok s" for p s
    using that by (auto simp: px_remove_def px_ok_def)
  show "px_content (px_remove p s) = (px_content s)(p := None)" for p s
    by (auto simp: px_remove_def px_content_def px_exists_def fun_eq_iff)
  show "px_linked (px_close e s) d q = px_linked s d q" if "d \<noteq> e" for d e s q
    using that by (auto simp: px_linked_def fd_ino_close) (auto simp: px_close_def split: option.splits)
  show "px_linked (snd (px_rename p1 p2 s)) d q = px_linked s d q" if "q \<noteq> p1" "q \<noteq> p2" for q p1 p2 d s
    using that by (auto simp: px_linked_def px_rename_def fd_ino_def split: option.split)
  show "px_linked (px_remove p s) d q = px_linked s d q" if "q \<noteq> p" for q p d s
    using that by (auto simp: px_linked_def px_remove_def fd_ino_def)
qed (simp_all add: px_write_content px_open_append_ok px_open_append_linked px_open_append_content
    px_close_ok px_close_content px_rename_ok px_rename_content px_open_append_keeps px_linked_inj)

text \<open>Reading opens, which the logs only use to learn a size, change no file.\<close>

lemma px_open_read_cases [case_names failed opened]:
  obtains e where "px_open_read p s = (-1, s\<lparr>errno := e\<rparr>)" "px_content s p = None \<or> denied s p"
  | i n t where "dir s p = Some i" "\<not> denied s p" "fd_alloc (fdt s) i = (n, t)"
      "px_open_read p s = (int n, s\<lparr>fdt := t\<rparr>)"
  by (cases "dir s p"; cases "denied s p"; cases "fd_alloc (fdt s) (the (dir s p))")
    (auto simp: px_open_read_def px_content_def)

lemma px_open_read_ok: "px_ok s \<Longrightarrow> px_ok (snd (px_open_read p s))"
proof (cases rule: px_open_read_cases [of p s])
  case (failed e)
  then show "px_ok s \<Longrightarrow> ?thesis" by (simp add: px_ok_def)
next
  case (opened i n t)
  then show "px_ok s \<Longrightarrow> ?thesis"
    using fd_alloc_set [OF opened(3)] by (auto simp: px_ok_def)
qed

lemma px_open_read_content: "px_content (snd (px_open_read p s)) = px_content s"
  by (cases rule: px_open_read_cases [of p s]) (simp_all add: px_content_def fun_eq_iff)

lemma px_open_read_size:
  "px_content s p = Some c \<Longrightarrow> \<not> denied s p \<Longrightarrow>
   0 \<le> fst (px_open_read p s) \<and> px_size (fst (px_open_read p s)) (snd (px_open_read p s)) = length c"
  by (cases rule: px_open_read_cases [of p s])
    (auto simp: px_content_def px_size_def fd_ino_def dest: fd_alloc_get)

lemmas px_effects =
  px.store_ok px_open_read_ok px_open_read_content px_close_content px.rm_content px.opn_content

section \<open>Descriptors\<close>

text \<open>Descriptor 0 is in use, as it is in every Android process: new descriptors are positive.\<close>

definition px_stdio :: "posix \<Rightarrow> bool" where
  "px_stdio s \<longleftrightarrow> fd_ino s 0 \<noteq> None"

lemma fd_alloc_positive: "fd_alloc t x = (n, t') \<Longrightarrow> t \<noteq> [] \<Longrightarrow> hd t \<noteq> None \<Longrightarrow> 0 < n \<and> hd t' = hd t \<and> t' \<noteq> []"
  by (cases t; cases "hd t") (auto split: prod.splits)

lemma px_stdio_hd: "px_stdio s \<longleftrightarrow> fdt s \<noteq> [] \<and> hd (fdt s) \<noteq> None"
  by (auto simp: px_stdio_def fd_ino_def hd_conv_nth)

lemma px_open_append_stdio:
  "px_stdio s \<Longrightarrow> \<not> denied s p \<Longrightarrow> 0 < fst (px_open_append p s) \<and> px_stdio (snd (px_open_append p s))"
  by (cases rule: px_open_append_cases [of p s])
    (auto simp: px_stdio_hd px_open_append_def Let_def split: option.splits prod.splits if_splits
      dest!: fd_alloc_positive)

lemma px_open_read_stdio:
  "px_stdio s \<Longrightarrow> \<not> denied s p \<Longrightarrow> px_content s p \<noteq> None \<Longrightarrow>
   0 < fst (px_open_read p s) \<and> px_stdio (snd (px_open_read p s))"
  by (cases rule: px_open_read_cases [of p s])
    (auto simp: px_stdio_hd dest!: fd_alloc_positive)

lemma px_open_read_stdio_any: "px_stdio s \<Longrightarrow> px_stdio (snd (px_open_read p s))"
  by (cases rule: px_open_read_cases [of p s])
    (auto simp: px_stdio_hd dest!: fd_alloc_positive)

lemma px_open_read_failed:
  "px_stdio s \<Longrightarrow> \<not> 0 < fst (px_open_read p s) \<Longrightarrow> \<exists>e. snd (px_open_read p s) = s\<lparr>errno := e\<rparr>"
  by (cases rule: px_open_read_cases [of p s]) (auto simp: px_stdio_hd dest!: fd_alloc_positive)

lemma px_close_stdio: "px_stdio s \<Longrightarrow> 0 < d \<Longrightarrow> px_stdio (px_close d s)"
  by (simp add: px_stdio_def fd_ino_close)

lemma px_stdio_frame [simp]:
  "px_stdio (px_write d bs s) = px_stdio s" "px_stdio (px_remove p s) = px_stdio s"
  "px_stdio (snd (px_rename p q s)) = px_stdio s"
  by (auto simp: px_stdio_hd px_write_def px_remove_def px_rename_def split: option.split)

lemma denied_frame [simp]:
  "denied (px_write d bs s) = denied s" "denied (px_remove p s) = denied s" "denied (px_close d s) = denied s"
  "denied (snd (px_rename p q s)) = denied s" "denied (snd (px_open_read p s)) = denied s"
  "denied (snd (px_open_append p s)) = denied s"
  by (auto simp: px_write_def px_remove_def px_rename_def px_close_def px_open_read_def
      px_open_append_def Let_def split: option.split prod.split)

lemmas px_stdio_effects = px_open_append_stdio px_open_read_stdio px_close_stdio

text \<open>No descriptor leaks: opening adds one, closing an open one removes one.\<close>

lemma filter_close:
  "n < length t \<Longrightarrow> t ! n \<noteq> None \<Longrightarrow>
   Suc (length (filter open_entry (t[n := None]))) = length (filter open_entry t)"
  by (induction t arbitrary: n) (auto split: nat.split simp: nth_Cons')

lemma px_close_count: "fd_ino s d \<noteq> None \<Longrightarrow> Suc (px_open_count (px_close d s)) = px_open_count s"
  using filter_close [of "nat d" "fdt s"]
  by (auto simp: fd_ino_def px_open_count_def px_close_def split: if_splits)

lemma px_open_append_count:
  "0 \<le> fst (px_open_append p s) \<Longrightarrow> px_open_count (snd (px_open_append p s)) = Suc (px_open_count s)"
  by (cases rule: px_open_append_cases [of p s]) (auto simp: px_open_count_def fd_alloc_count)

lemma px_open_read_close_count:
  "px_open_count (px_close (fst (px_open_read p s)) (snd (px_open_read p s))) = px_open_count s"
proof (cases rule: px_open_read_cases [of p s])
  case (failed e)
  then show ?thesis by (simp add: px_close_def fd_ino_def px_open_count_def)
next
  case (opened i n t)
  have "fd_ino (s\<lparr>fdt := t\<rparr>) (int n) = Some i"
    using fd_alloc_get [OF opened(3)] by (simp add: fd_ino_def)
  with opened show ?thesis
    by (simp add: px_close_def px_open_count_def fd_alloc_close)
qed

lemma px_open_count_frame [simp]:
  "px_open_count (px_write d bs s) = px_open_count s" "px_open_count (px_remove p s) = px_open_count s"
  "px_open_count (snd (px_rename p q s)) = px_open_count s"
  by (auto simp: px_open_count_def px_write_def px_remove_def px_rename_def split: option.split)

section \<open>Looking at a file\<close>

text \<open>Opening a file to learn its size and closing it again: nothing changes.\<close>

lemma px_peek:
  assumes "px_ok s" "px_stdio s" "\<not> denied s p" "px_content s p = Some c" "px_open_read p s = (d, s1)"
  shows "0 < d" "px_size d s1 = length c" "px_ok (px_close d s1)" "px_stdio (px_close d s1)"
    "px_content (px_close d s1) = px_content s" "denied (px_close d s1) = denied s"
    "px_open_count (px_close d s1) = px_open_count s"
  using px_open_read_stdio [OF assms(2,3)] px_open_read_size [OF assms(4,3)] px_open_read_ok [OF assms(1), of p]
    px_open_read_content [of p s] px_open_read_close_count [of p s] denied_frame(5) [of p s] assms(4,5)
  by (simp_all add: px_close_stdio px_close_ok px_close_content)

lemma px_open_read_keeps:
  assumes "px_linked s d q"
  shows "px_linked (snd (px_open_read p s)) d q"
proof (cases rule: px_open_read_cases [of p s])
  case (failed e)
  with assms show ?thesis by (auto simp: px_linked_iff)
next
  case (opened i n t)
  then have "fd_ino (s\<lparr>fdt := t\<rparr>) d = fd_ino s d"
    using assms fd_ino_open_other [of s _ n t d] by (auto simp: px_linked_iff)
  with opened assms show ?thesis by (simp add: px_linked_iff)
qed

lemma px_errno_frame [simp]:
  "px_ok (s\<lparr>errno := e\<rparr>) = px_ok s" "px_content (s\<lparr>errno := e\<rparr>) = px_content s"
  "px_linked (s\<lparr>errno := e\<rparr>) d p = px_linked s d p" "px_stdio (s\<lparr>errno := e\<rparr>) = px_stdio s"
  "px_open_count (s\<lparr>errno := e\<rparr>) = px_open_count s"
  by (simp_all add: px_ok_def px_content_def px_linked_def fd_ino_def px_stdio_def px_open_count_def fun_eq_iff)

lemma px_stat_found: "px_content s p = Some c \<Longrightarrow> px_stat p s = (True, s)"
  by (auto simp add: px_stat_def px_exists_def px_content_def)

lemma px_stat_missing: "px_content s p = None \<Longrightarrow> px_stat p s = (False, s\<lparr>errno := ENOENT\<rparr>)"
  by (simp add: px_stat_def px_exists_def px_content_def)

lemma px_peek_errno:
  assumes "px_open_read p s = (d, s1)" "0 < d"
  shows "errno (px_close d s1) = errno s"
  using assms by (cases rule: px_open_read_cases [of p s])
    (auto simp: px_close_def fd_ino_def dest: fd_alloc_get)

lemma px_exists_content: "px_exists p s \<longleftrightarrow> px_content s p \<noteq> None"
  by (simp add: px_exists_def px_content_def)

section \<open>What a sequence of operations leaves alone\<close>

text \<open>
  \<open>fs_keeps P f f'\<close>: the operations that lead from \<open>f\<close> to \<open>f'\<close> touch no file outside \<open>P\<close>, and no
  descriptor that writes to such a file.
\<close>

definition fs_keeps :: "string set \<Rightarrow> posix \<Rightarrow> posix \<Rightarrow> bool" where
  "fs_keeps P f f' \<longleftrightarrow> px_ok f' \<and> px_stdio f' \<and> denied f' = denied f \<and>
     (\<forall>q. q \<notin> P \<longrightarrow> px_content f' q = px_content f q \<and> (\<forall>d. px_linked f d q \<longrightarrow> px_linked f' d q))"

lemma fs_keeps_refl: "px_ok f \<Longrightarrow> px_stdio f \<Longrightarrow> fs_keeps P f f"
  by (simp add: fs_keeps_def)

lemma fs_keeps_trans [trans]: "fs_keeps P f g \<Longrightarrow> fs_keeps P g h \<Longrightarrow> fs_keeps P f h"
  by (simp add: fs_keeps_def)

lemma fs_keeps_mono: "fs_keeps P f g \<Longrightarrow> P \<subseteq> Q \<Longrightarrow> fs_keeps Q f g"
  by (auto simp: fs_keeps_def)

lemma fs_keepsD:
  assumes "fs_keeps P f f'"
  shows "px_ok f'" "px_stdio f'" "denied f' = denied f"
    "q \<notin> P \<Longrightarrow> px_content f' q = px_content f q" "q \<notin> P \<Longrightarrow> px_linked f d q \<Longrightarrow> px_linked f' d q"
  using assms by (auto simp: fs_keeps_def)

lemma fs_keeps_errno: "px_ok f \<Longrightarrow> px_stdio f \<Longrightarrow> fs_keeps P f (f\<lparr>errno := e\<rparr>)"
  by (simp add: fs_keeps_def)

lemma fs_keeps_write:
  assumes "px_ok f" "px_stdio f" "px_linked f d p" "p \<in> P"
  shows "fs_keeps P f (px_write d bs f)"
proof -
  obtain c where "px_content f p = Some c"
    using assms(3) by (auto simp: px_linked_iff px_content_def)
  from px_write_content [OF assms(1,3) this, of bs] assms show ?thesis
    by (auto simp: fs_keeps_def px.wr_ok px.wr_linked)
qed

lemma fs_keeps_close:
  assumes "px_ok f" "px_stdio f" "px_linked f d p" "p \<in> P" "0 < d"
  shows "fs_keeps P f (px_close d f)"
  using assms px.linked_differ [OF assms(1) _ assms(3)]
  by (auto simp: fs_keeps_def px_close_ok px_close_stdio px_close_content intro!: px.cls_keeps [THEN iffD2])

lemma fs_keeps_open_append:
  assumes "px_ok f" "px_stdio f" "\<not> denied f p" "p \<in> P"
  shows "fs_keeps P f (snd (px_open_append p f))"
  using assms px_open_append_stdio [OF assms(2,3)] px_open_append_content [OF assms(1), of p]
  by (auto simp: fs_keeps_def px.opn_ok px.opn_keeps)

lemma fs_keeps_rename:
  assumes "px_ok f" "px_stdio f" "p \<in> P" "q \<in> P"
  shows "fs_keeps P f (snd (px_rename p q f))"
proof -
  have "px_content (snd (px_rename p q f)) r = px_content f r" if "r \<notin> P" for r
    using that assms(3,4) by (auto simp: px_rename_def px_content_def split: option.split)
  moreover have "px_linked (snd (px_rename p q f)) d r = px_linked f d r" if "r \<notin> P" for d r
    using that assms(3,4) by (intro px.ren_keeps) auto
  ultimately show ?thesis
    using assms by (auto simp: fs_keeps_def px.ren_ok)
qed

lemma fs_keeps_remove:
  "px_ok f \<Longrightarrow> px_stdio f \<Longrightarrow> p \<in> P \<Longrightarrow> fs_keeps P f (px_remove p f)"
  by (auto simp: fs_keeps_def px.rm_ok px.rm_content px.rm_keeps)

text \<open>The last two behind another sequence.\<close>

lemma fs_keeps_then_rename:
  "fs_keeps P g f \<Longrightarrow> p \<in> P \<Longrightarrow> q \<in> P \<Longrightarrow> fs_keeps P g (snd (px_rename p q f))"
  by (rule fs_keeps_trans [OF _ fs_keeps_rename [OF fs_keepsD(1,2)]])

lemma fs_keeps_then_remove: "fs_keeps P g f \<Longrightarrow> q \<in> P \<Longrightarrow> fs_keeps P g (px_remove q f)"
  by (rule fs_keeps_trans [OF _ fs_keeps_remove [OF fs_keepsD(1,2)]])

text \<open>The look at a file, whether it is there or not: \<open>stat\<close>, \<open>open\<close>, \<open>fstat\<close>, \<open>close\<close>.\<close>

lemma px_peek_keeps:
  assumes "px_ok f" "px_stdio f" "px_open_read p f = (d, f1)" "d > 0"
  shows "fs_keeps {} f (px_close d f1)"
proof -
  have "d \<noteq> e" if "px_linked f e q" for e q
    using that assms(3,4)
  proof (cases rule: px_open_read_cases [of p f])
    case (opened i n t)
    with that assms(3) show ?thesis
      using fd_alloc_fresh [OF opened(3)] by (auto simp: px_linked_iff fd_ino_def split: if_splits)
  qed auto
  then show ?thesis
    using assms px_open_read_ok [OF assms(1), of p] px_open_read_content [of p f]
      px_open_read_keeps [of f _ _ p] denied_frame(5) [of p f]
      px_open_read_stdio_any [OF assms(2), of p]
    by (auto simp: fs_keeps_def px_close_ok px_close_stdio px_close_content intro!: px.cls_keeps [THEN iffD2])
qed

lemma px_look_missing: "px_content s p = None \<Longrightarrow> px_look p s = (-1, s\<lparr>errno := ENOENT\<rparr>)"
  by (simp add: px_look_def px_stat_missing)

lemma px_look_found: "px_content s p = Some c \<Longrightarrow> px_look p s = px_open_read p s"
  by (simp add: px_look_def px_stat_found)

lemma px_look_keeps:
  assumes "px_ok f" "px_stdio f" "px_look p f = (d, f1)"
  shows "0 < d \<Longrightarrow> fs_keeps {} f (px_close d f1)" "\<not> 0 < d \<Longrightarrow> fs_keeps {} f f1"
proof -
  show "fs_keeps {} f (px_close d f1)" if "0 < d"
    using px_peek_keeps [OF assms(1,2)] assms(3) that
    by (auto simp: px_look_def px_stat_def split: if_splits)
  show "fs_keeps {} f f1" if "\<not> 0 < d"
  proof -
    have "f1 = f \<or> (\<exists>e. f1 = f\<lparr>errno := e\<rparr>)"
      using px_open_read_failed [OF assms(2), of p] assms(3) that
      by (auto simp: px_look_def px_stat_def split: if_splits)
    then show ?thesis
      using assms(1,2) fs_keeps_refl fs_keeps_errno by blast
  qed
qed

lemma px_open_trunc_missing: "px_content s p = None \<Longrightarrow> px_open_trunc p s = px_open_append p s"
proof (cases rule: px_open_append_cases [of p s])
  case (existing i n t)
  then show "px_content s p = None \<Longrightarrow> ?thesis" by (simp add: px_content_def)
qed (auto simp: px_open_trunc_def px_content_def Let_def split: option.split)

lemma px_open_read_fd_content:
  "px_content s p = Some c \<Longrightarrow> \<not> denied s p \<Longrightarrow>
   px_fd_content (snd (px_open_read p s)) (fst (px_open_read p s)) = Some c"
  by (cases rule: px_open_read_cases [of p s])
    (auto simp: px_content_def px_fd_content_def fd_ino_def dest: fd_alloc_get)

end
