(* ===== verification/CpLog.thy ===== *)
theory CpLog
  imports Posix "HOL-Library.Char_ord"
begin

text \<open>
  The log of the controller's own messages: \<open>skw_log.c\<close>. The state of both log files of the
  library (this one and the snoop log of \<open>skw_btsnoop.c\<close>) and the configuration they read is one
  record, because the snoop log reopens this one.
\<close>

section \<open>State\<close>

record logs =
  fs :: posix
  skw_btsnoop_path :: string
  btsnoop_save_log :: bool
  btsnoop_log_en :: bool
  btcp_log_en :: bool
  skwlog_slice :: bool
  skwlog_fp :: int
  skwlog_rev_length :: u32
  skwlog_cnts :: u32
  hci_btsnoop_fd :: int
  btsnoop_cnts :: u32
  btsnoop_rev_length :: u32

text \<open>
  What the code reads from the clock and from \<open>rand\<close> during one operation: the \<open>strftime\<close>
  rendering of the local time, its fields, \<open>gettimeofday\<close>, and a random number.
\<close>

record clock =
  clk_stamp :: string
  clk_sec :: byte
  clk_min :: byte
  clk_hour :: byte
  clk_mday :: byte
  clk_tv_sec :: nat
  clk_tv_usec :: nat
  clk_rand :: nat

section \<open>Names\<close>

text \<open>
  The directory part of the snoop path, by the backward search both \<open>skw_log.c\<close> and
  \<open>skw_gen_addr.c\<close> use: up to, not including, the last separator that is not the first character.
\<close>

definition is_separator :: "char \<Rightarrow> bool" where
  "is_separator ch \<longleftrightarrow> ch = CHR ''/'' \<or> ch = CHR 0x5C"

primrec log_dir_from :: "string \<Rightarrow> nat \<Rightarrow> string" where
  "log_dir_from path 0 = []"
| "log_dir_from path (Suc i) =
     (if is_separator (path ! Suc i) then take (Suc i) path else log_dir_from path i)"

definition log_dir :: "string \<Rightarrow> string" where
  "log_dir path = log_dir_from path (length path - 1)"

text \<open>The conversions \<open>%d\<close>, \<open>%02d\<close>, \<open>%03d\<close>.\<close>

fun dec :: "nat \<Rightarrow> string" where
  "dec n = (if n < 10 then [char_of (48 + n)] else dec (n div 10) @ [char_of (48 + n mod 10)])"

declare dec.simps [simp del]

definition pad0 :: "nat \<Rightarrow> string \<Rightarrow> string" where
  "pad0 w s = replicate (w - length s) (CHR ''0'') @ s"

definition fmt_d :: "nat \<Rightarrow> int \<Rightarrow> string" where
  "fmt_d w i = (if i < 0 then CHR ''-'' # pad0 (w - 1) (dec (nat (- i))) else pad0 w (dec (nat i)))"

definition skwlog_path :: "logs \<Rightarrow> string" where
  "skwlog_path s = log_dir (skw_btsnoop_path s) @ ''/skwlog.log''"

definition skwlog_last_path :: "logs \<Rightarrow> string" where
  "skwlog_last_path s = log_dir (skw_btsnoop_path s) @ ''/skwlog-last.log''"

definition skwlog_dated_path :: "clock \<Rightarrow> logs \<Rightarrow> string" where
  "skwlog_dated_path clk s =
     log_dir (skw_btsnoop_path s) @ ''/skwlog-'' @ clk_stamp clk @ ''_'' @
     fmt_d 3 (int (clk_rand clk mod 1000)) @ ''-'' @ fmt_d 2 (sint (skwlog_cnts s)) @ ''.log''"

text \<open>\<open>"skwcplog\0\1\0\2\0\0\x3\xEA"\<close>, 16 bytes.\<close>

definition skwlog_header :: "byte list" where
  "skwlog_header = [0x73, 0x6B, 0x77, 0x63, 0x70, 0x6C, 0x6F, 0x67, 0, 1, 0, 2, 0, 0, 0x03, 0xEA]"

section \<open>Operations\<close>

text \<open>
  The part of \<open>skwlog_open\<close> that looks at an existing file: it is renamed or kept according to
  the configuration. The result is the state and the final value of \<open>new_file\<close>.
\<close>

definition skwlog_prepare :: "clock \<Rightarrow> bool \<Rightarrow> logs \<Rightarrow> logs \<times> bool" where
  "skwlog_prepare clk new_file s =
     (let (d, f1) = px_look (skwlog_path s) (fs s) in
      if d > 0 then
        let file_zie = c_int (px_size d f1);
            s1 = s\<lparr>fs := px_close d f1\<rparr>;
            s2 = (if skwlog_slice s1 then
                    (if new_file
                     then s1\<lparr>fs := snd (px_rename (skwlog_path s1) (skwlog_last_path s1)
                                       (px_remove (skwlog_last_path s1) (fs s1)))\<rparr>
                     else s1\<lparr>skwlog_rev_length := word_of_int file_zie\<rparr>)
                  else if file_zie > 16 + 12
                  then s1\<lparr>fs := snd (px_rename (skwlog_path s1) (skwlog_dated_path clk s1) (fs s1))\<rparr>
                  else s1)
        in (s2, if file_zie = 0 then True else new_file)
      else (s\<lparr>fs := f1\<rparr>, True))"

text \<open>\<open>skwlog_open\<close>.\<close>

definition skwlog_open :: "clock \<Rightarrow> bool \<Rightarrow> logs \<Rightarrow> logs" where
  "skwlog_open clk new_file s =
     (if \<not> btcp_log_en s then s
      else
        let (s1, new_file1) = skwlog_prepare clk new_file s;
            (d, f) = px_open_append (skwlog_path s1) (fs s1);
            s2 = s1\<lparr>fs := (if d > 0 \<and> new_file1 then px_write d skwlog_header f else f), skwlog_fp := d\<rparr>
        in s2\<lparr>skwlog_cnts := skwlog_cnts s2 + 1\<rparr>)"

text \<open>
  \<open>skwlog_write\<close>: append, count, and start a new file at 1.5 GB. The part under the lock
  \<open>skwlog_lock\<close> is a definition of its own, because other threads can run between the test and the lock.
\<close>

definition skwlog_locked :: "clock \<Rightarrow> byte list \<Rightarrow> logs \<Rightarrow> logs" where
  "skwlog_locked clk buffer s =
     (let s1 = s\<lparr>fs := px_write (skwlog_fp s) buffer (fs s),
                skwlog_rev_length := skwlog_rev_length s + of_nat (length buffer)\<rparr>
      in if skwlog_rev_length s1 \<ge> 1536 * 1024 * 1024
         then skwlog_open clk True
                (s1\<lparr>skwlog_rev_length := 0, fs := px_close (skwlog_fp s1) (fs s1), skwlog_fp := -1\<rparr>)
         else s1)"

definition skwlog_write :: "clock \<Rightarrow> byte list \<Rightarrow> logs \<Rightarrow> logs" where
  "skwlog_write clk buffer s = (if skwlog_fp s > 0 then skwlog_locked clk buffer s else s)"

text \<open>\<open>skwlog_print_current_time\<close>: the time as a log packet.\<close>

definition skwlog_time_packet :: "clock \<Rightarrow> byte list" where
  "skwlog_time_packet clk =
     [0x07, 0xFF, 0x08, 0x00, 0x01, 0xD0, 0x55, 0x55, clk_sec clk, clk_min clk, clk_hour clk, clk_mday clk]"

definition skwlog_print_current_time :: "clock \<Rightarrow> logs \<Rightarrow> logs" where
  "skwlog_print_current_time clk s = skwlog_write clk (skwlog_time_packet clk) s"

definition skwlog_reopen :: "clock \<Rightarrow> bool \<Rightarrow> logs \<Rightarrow> logs" where
  "skwlog_reopen clk new_file s =
     (let s1 = s\<lparr>skwlog_rev_length := 0\<rparr>;
          s2 = (if skwlog_fp s1 \<noteq> -1 then s1\<lparr>fs := px_close (skwlog_fp s1) (fs s1)\<rparr> else s1);
          s3 = skwlog_open clk new_file s2
      in if skwlog_fp s3 > 0 then skwlog_print_current_time clk s3 else s3)"

definition skwlog_init :: "clock \<Rightarrow> logs \<Rightarrow> logs" where
  "skwlog_init clk s =
     (let s1 = s\<lparr>skwlog_fp := -1, skwlog_rev_length := 0, skwlog_cnts := 0\<rparr> in
      if btcp_log_en s1 \<and> (\<not> btsnoop_save_log s1 \<or> \<not> skwlog_slice s1)
      then let s2 = skwlog_open clk True s1
           in if skwlog_fp s2 > 0 then skwlog_print_current_time clk s2 else s2
      else s1)"

definition skwlog_close :: "logs \<Rightarrow> logs" where
  "skwlog_close s =
     s\<lparr>fs := (if skwlog_fp s \<noteq> -1 then px_close (skwlog_fp s) (fs s) else fs s),
       skwlog_fp := -1, skwlog_rev_length := 0, skwlog_cnts := 0\<rparr>"

section \<open>Opening\<close>

text \<open>The state the log operations keep: the descriptor, when open, writes to the log file.\<close>

definition cplog_ok :: "logs \<Rightarrow> bool" where
  "cplog_ok s \<longleftrightarrow> px_ok (fs s) \<and> px_stdio (fs s) \<and> \<not> denied (fs s) (skwlog_path s) \<and>
     (0 < skwlog_fp s \<longrightarrow> px_linked (fs s) (skwlog_fp s) (skwlog_path s))"

lemma skwlog_paths_differ [simp]:
  "skwlog_path s \<noteq> skwlog_last_path s" "skwlog_path s \<noteq> skwlog_dated_path clk s"
  by (simp_all add: skwlog_path_def skwlog_last_path_def skwlog_dated_path_def)

lemma skwlog_path_frame [simp]:
  "skwlog_path (s\<lparr>fs := x_fs\<rparr>) = skwlog_path s"
  "skwlog_path (s\<lparr>skwlog_fp := x_skwlog_fp\<rparr>) = skwlog_path s"
  "skwlog_path (s\<lparr>skwlog_rev_length := x_skwlog_rev_length\<rparr>) = skwlog_path s"
  "skwlog_path (s\<lparr>btsnoop_rev_length := x_btsnoop_rev_length\<rparr>) = skwlog_path s"
  "skwlog_path (s\<lparr>hci_btsnoop_fd := x_hci_btsnoop_fd\<rparr>) = skwlog_path s"
  "skwlog_path (s\<lparr>btsnoop_cnts := x_btsnoop_cnts\<rparr>) = skwlog_path s"
  "skwlog_last_path (s\<lparr>fs := x_fs\<rparr>) = skwlog_last_path s"
  "skwlog_last_path (s\<lparr>skwlog_fp := x_skwlog_fp\<rparr>) = skwlog_last_path s"
  "skwlog_last_path (s\<lparr>skwlog_rev_length := x_skwlog_rev_length\<rparr>) = skwlog_last_path s"
  "skwlog_last_path (s\<lparr>btsnoop_rev_length := x_btsnoop_rev_length\<rparr>) = skwlog_last_path s"
  "skwlog_last_path (s\<lparr>hci_btsnoop_fd := x_hci_btsnoop_fd\<rparr>) = skwlog_last_path s"
  "skwlog_last_path (s\<lparr>btsnoop_cnts := x_btsnoop_cnts\<rparr>) = skwlog_last_path s"
  "skwlog_dated_path clk (s\<lparr>fs := x_fs\<rparr>) = skwlog_dated_path clk s"
  "skwlog_dated_path clk (s\<lparr>skwlog_fp := x_skwlog_fp\<rparr>) = skwlog_dated_path clk s"
  "skwlog_dated_path clk (s\<lparr>skwlog_rev_length := x_skwlog_rev_length\<rparr>) = skwlog_dated_path clk s"
  "skwlog_dated_path clk (s\<lparr>btsnoop_rev_length := x_btsnoop_rev_length\<rparr>) = skwlog_dated_path clk s"
  "skwlog_dated_path clk (s\<lparr>hci_btsnoop_fd := x_hci_btsnoop_fd\<rparr>) = skwlog_dated_path clk s"
  "skwlog_dated_path clk (s\<lparr>btsnoop_cnts := x_btsnoop_cnts\<rparr>) = skwlog_dated_path clk s"
  "skwlog_path (s\<lparr>skwlog_cnts := x_cnts\<rparr>) = skwlog_path s"
  "skwlog_last_path (s\<lparr>skwlog_cnts := x_cnts\<rparr>) = skwlog_last_path s"
  by (simp_all add: skwlog_path_def skwlog_last_path_def skwlog_dated_path_def)

text \<open>The file an existing log of contents \<open>c\<close> is moved to when a new one is started.\<close>

definition skwlog_kept_path :: "clock \<Rightarrow> logs \<Rightarrow> string" where
  "skwlog_kept_path clk s = (if skwlog_slice s then skwlog_last_path s else skwlog_dated_path clk s)"

lemma skwlog_kept_path_frame [simp]:
  "skwlog_kept_path clk (s\<lparr>fs := x_fs\<rparr>) = skwlog_kept_path clk s"
  "skwlog_kept_path clk (s\<lparr>skwlog_fp := x_skwlog_fp\<rparr>) = skwlog_kept_path clk s"
  "skwlog_kept_path clk (s\<lparr>skwlog_rev_length := x_rev\<rparr>) = skwlog_kept_path clk s"
  "skwlog_kept_path clk (s\<lparr>btsnoop_rev_length := x_rev\<rparr>) = skwlog_kept_path clk s"
  "skwlog_kept_path clk (s\<lparr>hci_btsnoop_fd := x_fd\<rparr>) = skwlog_kept_path clk s"
  "skwlog_kept_path clk (s\<lparr>btsnoop_cnts := x_cnts\<rparr>) = skwlog_kept_path clk s"
  by (simp_all add: skwlog_kept_path_def)

lemma skwlog_prepare_rotates:
  assumes "cplog_ok s" "px_content (fs s) (skwlog_path s) = Some c"
    and "skwlog_slice s \<or> 28 < length c \<and> length c < 2 ^ 31"
  obtains f r f1 where "skwlog_prepare clk True s = (s\<lparr>fs := f1\<rparr>, True)" "px_ok f" "px_stdio f"
    "px_content f (skwlog_path s) = Some c" "\<not> denied f (skwlog_path s)"
    "px_open_count f = px_open_count (fs s)"
    "px_rename (skwlog_path s) (skwlog_kept_path clk s) f = (r, f1)"
    "(px_content f)(skwlog_kept_path clk s \<mapsto> c) = (px_content (fs s))(skwlog_kept_path clk s \<mapsto> c)"
proof -
  let ?p = "skwlog_path s" and ?q = "skwlog_kept_path clk s"
  note ok = assms(1) [unfolded cplog_ok_def]
  obtain d f1 where op: "px_open_read ?p (fs s) = (d, f1)" by fastforce
  note peek = px_peek [OF _ _ _ assms(2) op]
  let ?f0 = "px_close d f1"
  let ?f = "if skwlog_slice s then px_remove ?q ?f0 else ?f0"
  note px_look_found [OF assms(2)]
  moreover have "c_int (length c) > 28" if "\<not> skwlog_slice s"
    using that assms(3) by (simp add: c_int_small)
  ultimately have 1: "skwlog_prepare clk True s = (s\<lparr>fs := snd (px_rename ?p ?q ?f)\<rparr>, True)"
    using op peek(1,2) ok
    by (simp add: skwlog_prepare_def Let_def skwlog_kept_path_def)
  have 2: "px_ok ?f" "px_stdio ?f" "px_content ?f ?p = Some c" "\<not> denied ?f ?p"
    "px_open_count ?f = px_open_count (fs s)"
    using peek ok assms(2) by (simp_all add: px.rm_ok px.rm_content skwlog_kept_path_def)
  have 3: "(px_content ?f)(?q \<mapsto> c) = (px_content (fs s))(?q \<mapsto> c)"
    using peek ok by (simp add: px.rm_content)
  have 4: "px_rename ?p ?q ?f = (fst (px_rename ?p ?q ?f), snd (px_rename ?p ?q ?f))"
    by simp
  show ?thesis
    by (rule that [OF 1 2 4 3])
qed

text \<open>
  Starting a new log keeps the old one: the log file holds just its header afterwards, the old
  contents are under the kept name, no other file changes, and one descriptor is opened.
\<close>

lemma skwlog_open_rotates:
  assumes "btcp_log_en s" "cplog_ok s" "px_content (fs s) (skwlog_path s) = Some c"
    and "skwlog_slice s \<or> 28 < length c \<and> length c < 2 ^ 31"
  shows "px_content (fs (skwlog_open clk True s)) =
           (px_content (fs s))(skwlog_path s \<mapsto> skwlog_header, skwlog_kept_path clk s \<mapsto> c)"
    and "cplog_ok (skwlog_open clk True s)" "0 < skwlog_fp (skwlog_open clk True s)"
    and "px_open_count (fs (skwlog_open clk True s)) = Suc (px_open_count (fs s))"
proof -
  let ?p = "skwlog_path s" and ?q = "skwlog_kept_path clk s"
  from skwlog_prepare_rotates [OF assms(2-4), of clk] obtain f r f1 where prep:
    "skwlog_prepare clk True s = (s\<lparr>fs := f1\<rparr>, True)" "px_ok f" "px_stdio f"
    "px_content f ?p = Some c" "\<not> denied f ?p" "px_open_count f = px_open_count (fs s)"
    "px_rename ?p ?q f = (r, f1)" "(px_content f)(?q \<mapsto> c) = (px_content (fs s))(?q \<mapsto> c)" .
  obtain d f2 where op: "px_open_append ?p f1 = (d, f2)" by fastforce
  have pq: "?p \<noteq> ?q"
    by (simp add: skwlog_kept_path_def)
  have f1: "px_stdio f1" "denied f1 = denied f" "px_open_count f1 = px_open_count f"
    using prep(3,7) px_stdio_frame(3) [of ?p ?q f] denied_frame(4) [of ?p ?q f]
      px_open_count_frame(3) [of ?p ?q f] by simp_all
  have d: "0 < d" "px_stdio f2" "denied f2 = denied f" "px_open_count f2 = Suc (px_open_count f)"
    using px_open_append_stdio [OF f1(1), of ?p] px_open_append_count [of ?p f1]
      denied_frame(6) [of ?p f1] f1 op prep(5) by simp_all
  note rot = px.rotate [OF prep(2,4) pq prep(7) op order_less_imp_le [OF d(1)], of skwlog_header]
  have eq: "skwlog_open clk True s =
      s\<lparr>fs := px_write d skwlog_header f2, skwlog_fp := d, skwlog_cnts := skwlog_cnts s + 1\<rparr>"
    using assms(1) prep(1) op d(1) by (simp add: skwlog_open_def Let_def)
  have "(px_content f)(?p \<mapsto> skwlog_header, ?q \<mapsto> c) =
      (px_content (fs s))(?p \<mapsto> skwlog_header, ?q \<mapsto> c)"
    using prep(8) pq by (metis fun_upd_twist)
  then show "px_content (fs (skwlog_open clk True s)) =
      (px_content (fs s))(?p \<mapsto> skwlog_header, ?q \<mapsto> c)"
    using rot(1) by (simp add: eq)
  show "cplog_ok (skwlog_open clk True s)"
    using rot(2,3) d prep(5) by (simp add: eq cplog_ok_def)
  show "0 < skwlog_fp (skwlog_open clk True s)"
    "px_open_count (fs (skwlog_open clk True s)) = Suc (px_open_count (fs s))"
    using d prep(6) by (simp_all add: eq)
qed

text \<open>The first log: the file is created with its header.\<close>

lemma skwlog_prepare_missing:
  "px_content (fs s) (skwlog_path s) = None \<Longrightarrow>
   skwlog_prepare clk b s = (s\<lparr>fs := (fs s)\<lparr>errno := ENOENT\<rparr>\<rparr>, True)"
  by (simp add: skwlog_prepare_def px_look_missing)

lemma skwlog_open_fresh:
  assumes "btcp_log_en s" "cplog_ok s" "px_content (fs s) (skwlog_path s) = None"
  shows "px_content (fs (skwlog_open clk b s)) = (px_content (fs s))(skwlog_path s \<mapsto> skwlog_header)"
    and "cplog_ok (skwlog_open clk b s)" "0 < skwlog_fp (skwlog_open clk b s)"
    and "px_open_count (fs (skwlog_open clk b s)) = Suc (px_open_count (fs s))"
proof -
  let ?p = "skwlog_path s" and ?f = "(fs s)\<lparr>errno := ENOENT\<rparr>"
  note ok = assms(2) [unfolded cplog_ok_def]
  obtain d f2 where op: "px_open_append ?p ?f = (d, f2)" by fastforce
  have d: "0 < d" "px_stdio f2" "denied f2 = denied (fs s)" "px_open_count f2 = Suc (px_open_count (fs s))"
    using px_open_append_stdio [of ?f ?p] px_open_append_count [of ?p ?f]
      denied_frame(6) [of ?p ?f] ok op by simp_all
  have eq: "skwlog_open clk b s =
      s\<lparr>fs := px_write d skwlog_header f2, skwlog_fp := d, skwlog_cnts := skwlog_cnts s + 1\<rparr>"
    using assms(1) op d(1) skwlog_prepare_missing [OF assms(3)] by (simp add: skwlog_open_def Let_def)
  have "px_ok ?f" "px_content ?f ?p = None" using ok assms(3) by simp_all
  note new = px.fresh [OF this op order_less_imp_le [OF d(1)], of skwlog_header]
  show "px_content (fs (skwlog_open clk b s)) = (px_content (fs s))(?p \<mapsto> skwlog_header)"
    "0 < skwlog_fp (skwlog_open clk b s)"
    "px_open_count (fs (skwlog_open clk b s)) = Suc (px_open_count (fs s))"
    using new(1) d by (simp_all add: eq)
  show "cplog_ok (skwlog_open clk b s)"
    using new(2,3) d ok by (simp add: eq cplog_ok_def)
qed

text \<open>A log with the one file it writes to, open on descriptor 1, and descriptor 0 taken.\<close>

definition sample_fs :: "string \<Rightarrow> byte list \<Rightarrow> posix" where
  "sample_fs path c =
     \<lparr>dir = [path \<mapsto> 1], inode = (\<lambda>i. if i = 1 then c else []), next_ino = 2,
      fdt = [Some 0, Some 1], errno = 0, denied = (\<lambda>p. False)\<rparr>"

definition sample_logs :: logs where
  "sample_logs =
     \<lparr>fs = sample_fs ''/d/skwlog.log'' skwlog_header, skw_btsnoop_path = ''/d/snoop.log'',
      btsnoop_save_log = True, btsnoop_log_en = True, btcp_log_en = True, skwlog_slice = True,
      skwlog_fp = 1, skwlog_rev_length = 0, skwlog_cnts = 1, hci_btsnoop_fd = -1,
      btsnoop_cnts = 0, btsnoop_rev_length = 0\<rparr>"

definition sample_clock :: clock where
  "sample_clock =
     \<lparr>clk_stamp = ''2024-01-01-000000'', clk_sec = 1, clk_min = 2, clk_hour = 3, clk_mday = 4,
      clk_tv_sec = 1000, clk_tv_usec = 7, clk_rand = 42\<rparr>"

lemma sample_logs_ok:
  "cplog_ok sample_logs" "skwlog_path sample_logs = ''/d/skwlog.log''"
  "px_content (fs sample_logs) ''/d/skwlog.log'' = Some skwlog_header"
proof -
  show p: "skwlog_path sample_logs = ''/d/skwlog.log''"
    by (simp add: skwlog_path_def sample_logs_def log_dir_def is_separator_def eval_nat_numeral)
  have "px_ok (fs sample_logs)"
    by (rule px_okI) (auto simp: sample_logs_def sample_fs_def split: if_splits)
  moreover have "px_stdio (fs sample_logs)" "px_linked (fs sample_logs) 1 ''/d/skwlog.log''"
    by (simp_all add: sample_logs_def sample_fs_def px_stdio_def fd_ino_def px_linked_def)
  ultimately show "cplog_ok sample_logs"
    using p by (simp add: cplog_ok_def) (simp add: sample_logs_def sample_fs_def)
  show "px_content (fs sample_logs) ''/d/skwlog.log'' = Some skwlog_header"
    by (simp add: sample_logs_def sample_fs_def px_content_def)
qed

section \<open>Writing\<close>

lemma cplog_ok_content: "cplog_ok s \<Longrightarrow> 0 < skwlog_fp s \<Longrightarrow> \<exists>c. px_content (fs s) (skwlog_path s) = Some c"
  unfolding cplog_ok_def px_linked_def px_content_def by (metis not_None_eq option.simps(9))

definition SKWLOG_LIMIT :: u32 where "SKWLOG_LIMIT = 1536 * 1024 * 1024"

definition skwlog_append :: "byte list \<Rightarrow> logs \<Rightarrow> logs" where
  "skwlog_append buffer s =
     s\<lparr>fs := px_write (skwlog_fp s) buffer (fs s),
       skwlog_rev_length := skwlog_rev_length s + of_nat (length buffer)\<rparr>"

lemma skwlog_append_props:
  assumes "cplog_ok s" "0 < skwlog_fp s" "px_content (fs s) (skwlog_path s) = Some c"
  shows "cplog_ok (skwlog_append buffer s)"
    and "px_content (fs (skwlog_append buffer s)) = (px_content (fs s))(skwlog_path s \<mapsto> c @ buffer)"
    and "px_open_count (fs (skwlog_append buffer s)) = px_open_count (fs s)"
  using assms by (simp_all add: cplog_ok_def skwlog_append_def px.wr_ok px.wr_linked px_write_content)

lemma skwlog_write_eq:
  "0 < skwlog_fp s \<Longrightarrow> skwlog_write clk buffer s =
     (let s1 = skwlog_append buffer s in
      if SKWLOG_LIMIT \<le> skwlog_rev_length s1
      then skwlog_open clk True
             (s1\<lparr>skwlog_rev_length := 0, fs := px_close (skwlog_fp s1) (fs s1), skwlog_fp := -1\<rparr>)
      else s1)"
  by (simp add: skwlog_write_def skwlog_locked_def skwlog_append_def SKWLOG_LIMIT_def Let_def)

lemma skwlog_rev_length_open:
  assumes "btcp_log_en s" "cplog_ok s" "px_content (fs s) (skwlog_path s) = Some c"
    and "skwlog_slice s \<or> 28 < length c \<and> length c < 2 ^ 31"
  shows "skwlog_rev_length (skwlog_open clk True s) = skwlog_rev_length s"
proof -
  from skwlog_prepare_rotates [OF assms(2-4), of clk] obtain f r f1 where
    "skwlog_prepare clk True s = (s\<lparr>fs := f1\<rparr>, True)" .
  then show ?thesis
    using assms(1) by (simp add: skwlog_open_def Let_def split: prod.split)
qed

text \<open>
  C16: Writing to the CP log loses nothing. A write appends exactly the given bytes; when the byte
  count reaches 1.5 GB the complete file is kept under its other name and the log goes on in a new
  file that holds the header, with the count at zero. No other file changes, the descriptor stays
  valid, and no descriptor leaks.
\<close>

theorem skwlog_write_keeps_data:
  assumes "cplog_ok s" and "0 < skwlog_fp s" and "btcp_log_en s"
    and "px_content (fs s) (skwlog_path s) = Some c"
    and "skwlog_slice s \<or> 28 < length (c @ buffer) \<and> length (c @ buffer) < 2 ^ 31"
  shows "cplog_ok (skwlog_write clk buffer s) \<and> 0 < skwlog_fp (skwlog_write clk buffer s) \<and>
    px_open_count (fs (skwlog_write clk buffer s)) = px_open_count (fs s) \<and>
    (if skwlog_rev_length s + of_nat (length buffer) < SKWLOG_LIMIT
     then px_content (fs (skwlog_write clk buffer s)) = (px_content (fs s))(skwlog_path s \<mapsto> c @ buffer) \<and>
          skwlog_rev_length (skwlog_write clk buffer s) = skwlog_rev_length s + of_nat (length buffer)
     else px_content (fs (skwlog_write clk buffer s)) =
            (px_content (fs s))(skwlog_path s \<mapsto> skwlog_header, skwlog_kept_path clk s \<mapsto> c @ buffer) \<and>
          skwlog_rev_length (skwlog_write clk buffer s) = 0)"
proof -
  let ?s1 = "skwlog_append buffer s"
  note app = skwlog_append_props [OF assms(1,2,4), of buffer]
  have rev: "skwlog_rev_length ?s1 = skwlog_rev_length s + of_nat (length buffer)"
    and frame: "skwlog_fp ?s1 = skwlog_fp s" "btcp_log_en ?s1 = btcp_log_en s"
      "skwlog_path ?s1 = skwlog_path s" "skwlog_kept_path clk ?s1 = skwlog_kept_path clk s"
      "skwlog_slice ?s1 = skwlog_slice s"
    by (simp_all add: skwlog_append_def skwlog_kept_path_def)
  show ?thesis
  proof (cases "skwlog_rev_length ?s1 < SKWLOG_LIMIT")
    case True
    then have "skwlog_write clk buffer s = ?s1"
      using assms(2) by (simp add: skwlog_write_eq Let_def)
    with True app assms(2) frame rev show ?thesis by simp
  next
    case False
    let ?s2 = "?s1\<lparr>skwlog_rev_length := 0, fs := px_close (skwlog_fp ?s1) (fs ?s1), skwlog_fp := -1\<rparr>"
    have wr: "skwlog_write clk buffer s = skwlog_open clk True ?s2"
      using False assms(2) by (simp add: skwlog_write_eq Let_def)
    have s2: "btcp_log_en ?s2" "px_content (fs ?s2) (skwlog_path ?s2) = Some (c @ buffer)"
      "skwlog_path ?s2 = skwlog_path s" "skwlog_kept_path clk ?s2 = skwlog_kept_path clk s"
      "skwlog_slice ?s2 \<or> 28 < length (c @ buffer) \<and> length (c @ buffer) < 2 ^ 31"
      using assms(3,5) app(2) frame by (simp_all add: px_close_content)
    have ok: "cplog_ok ?s2"
      using app(1) assms(2) frame by (simp add: cplog_ok_def px_close_ok px_close_stdio)
    have "fd_ino (fs ?s1) (skwlog_fp ?s1) \<noteq> None"
      using app(1) assms(2) frame unfolding cplog_ok_def px_linked_def by metis
    from px_close_count [OF this] have "Suc (px_open_count (fs ?s2)) = px_open_count (fs s)"
      using app(3) by simp
    moreover have "(px_content (fs ?s2))(skwlog_path s \<mapsto> x) = (px_content (fs s))(skwlog_path s \<mapsto> x)" for x
      using app(2) by (simp add: px_close_content)
    ultimately show ?thesis
      using skwlog_open_rotates [OF s2(1) ok s2(2,5), of clk] skwlog_rev_length_open [OF s2(1) ok s2(2,5), of clk]
        False rev s2(3,4) unfolding wr by simp
  qed
qed

section \<open>What the operations leave alone\<close>

text \<open>
  The files the CP log may touch, the invariant of its state, and what a step of it is: only its
  own fields change, its invariant holds again, and no other file is touched.
\<close>

definition skwlog_files :: "logs \<Rightarrow> string set" where
  "skwlog_files s = range (\<lambda>x. log_dir (skw_btsnoop_path s) @ ''/skwlog'' @ x)"

definition cplog_inv :: "logs \<Rightarrow> bool" where
  "cplog_inv s \<longleftrightarrow> cplog_ok s \<and> (skwlog_fp s = -1 \<or> 0 < skwlog_fp s \<and> btcp_log_en s)"

definition cplog_step :: "logs \<Rightarrow> logs \<Rightarrow> bool" where
  "cplog_step s s' \<longleftrightarrow>
     s' = s\<lparr>fs := fs s', skwlog_fp := skwlog_fp s', skwlog_rev_length := skwlog_rev_length s',
            skwlog_cnts := skwlog_cnts s'\<rparr> \<and>
     cplog_inv s' \<and> fs_keeps (skwlog_files s) (fs s) (fs s')"

lemma skwlog_names_files [simp]:
  "skwlog_path s \<in> skwlog_files s" "skwlog_last_path s \<in> skwlog_files s" "skwlog_dated_path clk s \<in> skwlog_files s"
  by (simp_all add: skwlog_files_def skwlog_path_def skwlog_last_path_def skwlog_dated_path_def)

lemma skwlog_files_frame [simp]:
  "skwlog_files (s\<lparr>fs := x_fs\<rparr>) = skwlog_files s" "skwlog_files (s\<lparr>skwlog_fp := x_skwlog_fp\<rparr>) = skwlog_files s"
  "skwlog_files (s\<lparr>skwlog_rev_length := x_rev\<rparr>) = skwlog_files s"
  "skwlog_files (s\<lparr>skwlog_cnts := x_cnts\<rparr>) = skwlog_files s"
  "skwlog_files (s\<lparr>btsnoop_rev_length := x_rev\<rparr>) = skwlog_files s"
  "skwlog_files (s\<lparr>hci_btsnoop_fd := x_fd\<rparr>) = skwlog_files s"
  "skwlog_files (s\<lparr>btsnoop_cnts := x_cnts\<rparr>) = skwlog_files s"
  by (simp_all add: skwlog_files_def)

lemma cplog_stepD:
  assumes "cplog_step s s'"
  shows "skw_btsnoop_path s' = skw_btsnoop_path s" "btsnoop_save_log s' = btsnoop_save_log s"
    "btsnoop_log_en s' = btsnoop_log_en s" "btcp_log_en s' = btcp_log_en s" "skwlog_slice s' = skwlog_slice s"
    "hci_btsnoop_fd s' = hci_btsnoop_fd s" "btsnoop_cnts s' = btsnoop_cnts s"
    "btsnoop_rev_length s' = btsnoop_rev_length s" "cplog_inv s'" "fs_keeps (skwlog_files s) (fs s) (fs s')"
    "skwlog_files s' = skwlog_files s" "skwlog_path s' = skwlog_path s"
proof -
  have eq: "s' = s\<lparr>fs := fs s', skwlog_fp := skwlog_fp s', skwlog_rev_length := skwlog_rev_length s',
      skwlog_cnts := skwlog_cnts s'\<rparr>"
    using assms by (simp add: cplog_step_def)
  show "skw_btsnoop_path s' = skw_btsnoop_path s" "btsnoop_save_log s' = btsnoop_save_log s"
    "btsnoop_log_en s' = btsnoop_log_en s" "btcp_log_en s' = btcp_log_en s" "skwlog_slice s' = skwlog_slice s"
    "hci_btsnoop_fd s' = hci_btsnoop_fd s" "btsnoop_cnts s' = btsnoop_cnts s"
    "btsnoop_rev_length s' = btsnoop_rev_length s" "skwlog_files s' = skwlog_files s" "skwlog_path s' = skwlog_path s"
    by (subst eq; simp)+
  show "cplog_inv s'" "fs_keeps (skwlog_files s) (fs s) (fs s')"
    using assms by (simp_all add: cplog_step_def)
qed

lemma cplog_step_trans [trans]: "cplog_step s t \<Longrightarrow> cplog_step t u \<Longrightarrow> cplog_step s u"
proof -
  assume st: "cplog_step s t" and tu: "cplog_step t u"
  have "u = s\<lparr>fs := fs u, skwlog_fp := skwlog_fp u, skwlog_rev_length := skwlog_rev_length u,
      skwlog_cnts := skwlog_cnts u\<rparr>"
    by (rule logs.equality) (simp_all add: cplog_stepD(1-8) [OF st] cplog_stepD(1-8) [OF tu])
  moreover have "fs_keeps (skwlog_files s) (fs s) (fs u)"
    using fs_keeps_trans cplog_stepD(10,11) [OF st] cplog_stepD(10) [OF tu] by metis
  ultimately show ?thesis
    using tu by (simp add: cplog_step_def)
qed

text \<open>A state in which the log file may be opened.\<close>

definition cplog_ready :: "logs \<Rightarrow> bool" where
  "cplog_ready s \<longleftrightarrow> px_ok (fs s) \<and> px_stdio (fs s) \<and> \<not> denied (fs s) (skwlog_path s)"

lemma cplog_inv_ready: "cplog_inv s \<Longrightarrow> cplog_ready s"
  by (simp add: cplog_inv_def cplog_ok_def cplog_ready_def)

lemma skwlog_prepare_keeps:
  assumes "cplog_ready s"
  obtains f r b' where "skwlog_prepare clk b s = (s\<lparr>fs := f, skwlog_rev_length := r\<rparr>, b')"
    "fs_keeps (skwlog_files s) (fs s) f"
proof -
  let ?p = "skwlog_path s" and ?P = "skwlog_files s"
  note ok = assms [unfolded cplog_ready_def]
  obtain d f1 where op: "px_look ?p (fs s) = (d, f1)" by fastforce
  have look: "0 < d \<Longrightarrow> fs_keeps ?P (fs s) (px_close d f1)" "\<not> 0 < d \<Longrightarrow> fs_keeps ?P (fs s) f1"
    using px_look_keeps [OF _ _ op] ok fs_keeps_mono by blast+
  show ?thesis
  proof (cases "0 < d")
    case True
    then have k1: "fs_keeps ?P (fs s) (px_close d f1)"
      by (rule look(1))
    note ok1 = fs_keepsD(1,2) [OF k1]
    have k2: "fs_keeps ?P (px_close d f1) (px_remove q (px_close d f1))"
      "fs_keeps ?P (px_close d f1) (snd (px_rename ?p q' (px_close d f1)))"
      "fs_keeps ?P (px_remove q (px_close d f1)) (snd (px_rename ?p q' (px_remove q (px_close d f1))))"
      if "q \<in> ?P" "q' \<in> ?P" for q q'
      using fs_keeps_remove [OF ok1 that(1)] fs_keeps_rename [OF ok1 _ that(2), of ?p]
        fs_keeps_rename [OF fs_keepsD(1,2) [OF fs_keeps_remove [OF ok1 that(1)]] _ that(2), of ?p] by simp_all
    note k = k1 k2
    consider r where "fst (skwlog_prepare clk b s) = s\<lparr>fs := px_close d f1, skwlog_rev_length := r\<rparr>"
      | "fst (skwlog_prepare clk b s) = s\<lparr>fs := snd (px_rename ?p (skwlog_last_path s)
            (px_remove (skwlog_last_path s) (px_close d f1))), skwlog_rev_length := skwlog_rev_length s\<rparr>"
      | "fst (skwlog_prepare clk b s) = s\<lparr>fs := snd (px_rename ?p (skwlog_dated_path clk s)
            (px_close d f1)), skwlog_rev_length := skwlog_rev_length s\<rparr>"
    proof (cases "skwlog_slice s")
      case True
      then show ?thesis
        using op \<open>0 < d\<close> that by (cases b) (auto simp: skwlog_prepare_def Let_def)
    next
      case False
      then show ?thesis
        using op \<open>0 < d\<close> that(1) [of "skwlog_rev_length s"] that(3)
        by (cases "c_int (px_size d f1) > 16 + 12") (simp_all add: skwlog_prepare_def Let_def)
    qed
    then show ?thesis
      by cases (metis that k fs_keeps_trans prod.collapse skwlog_names_files)+
  next
    case False
    then have eq: "skwlog_prepare clk b s = (s\<lparr>fs := f1, skwlog_rev_length := skwlog_rev_length s\<rparr>, True)"
      using op by (simp add: skwlog_prepare_def)
    with look(2) False that show ?thesis by blast
  qed
qed

lemma cplog_step_refl: "cplog_inv s \<Longrightarrow> cplog_step s s"
  by (simp add: cplog_step_def cplog_inv_def cplog_ok_def fs_keeps_refl)

text \<open>Opening: after it the descriptor is valid and writes to the log file.\<close>

lemma skwlog_open_step:
  assumes "cplog_ready s" "btcp_log_en s"
  shows "cplog_step s (skwlog_open clk b s)" "0 < skwlog_fp (skwlog_open clk b s)"
proof -
  let ?p = "skwlog_path s" and ?P = "skwlog_files s"
  note ok = assms(1) [unfolded cplog_ready_def]
  from skwlog_prepare_keeps [OF assms(1), of clk b] obtain f r b' where
    prep: "skwlog_prepare clk b s = (s\<lparr>fs := f, skwlog_rev_length := r\<rparr>, b')"
    and k: "fs_keeps ?P (fs s) f" .
  obtain d f2 where op: "px_open_append ?p f = (d, f2)" by fastforce
  note kf = fs_keepsD(1,2) [OF k]
  have nd: "\<not> denied f ?p" using ok fs_keepsD(3) [OF k] by simp
  have k2: "fs_keeps ?P f f2"
    using fs_keeps_open_append [OF kf nd, of ?P] op by simp
  have d: "0 < d" "px_linked f2 d ?p"
    using px_open_append_stdio [OF kf(2) nd] px_open_append_linked [of ?p f] op by simp_all
  let ?f3 = "if b' then px_write d skwlog_header f2 else f2"
  have "fs_keeps ?P f2 ?f3"
    using fs_keeps_write [OF fs_keepsD(1,2) [OF k2] d(2)] fs_keeps_refl fs_keepsD(1,2) [OF k2] by simp
  then have k3: "fs_keeps ?P (fs s) ?f3"
    using k k2 fs_keeps_trans by blast
  have eq: "skwlog_open clk b s =
      s\<lparr>fs := ?f3, skwlog_rev_length := r, skwlog_fp := d, skwlog_cnts := skwlog_cnts s + 1\<rparr>"
    using assms(2) prep op d(1) by (simp add: skwlog_open_def)
  have "px_linked ?f3 d ?p"
    using d(2) by (simp add: px.wr_linked)
  then show "cplog_step s (skwlog_open clk b s)"
    unfolding cplog_step_def eq
    using k3 fs_keepsD [OF k3] d ok assms(2) by (auto simp: cplog_inv_def cplog_ok_def)
  show "0 < skwlog_fp (skwlog_open clk b s)"
    using d by (simp add: eq)
qed

lemma skwlog_close_fd_keeps:
  assumes "cplog_inv s" "0 < skwlog_fp s"
  shows "fs_keeps (skwlog_files s) (fs s) (px_close (skwlog_fp s) (fs s))"
  using assms unfolding cplog_inv_def cplog_ok_def by (intro fs_keeps_close [of _ _ "skwlog_path s"]) auto

text \<open>Closing the descriptor, whatever else is reset, then opening again is a step.\<close>

lemma skwlog_close_open_step:
  assumes "cplog_inv s" "0 < skwlog_fp s"
    and t: "t = s\<lparr>fs := px_close (skwlog_fp s) (fs s), skwlog_rev_length := r, skwlog_fp := d\<rparr>"
  shows "cplog_step s (skwlog_open clk b t)" "0 < skwlog_fp (skwlog_open clk b t)"
proof -
  note k = skwlog_close_fd_keeps [OF assms(1,2)]
  have rdy: "cplog_ready t" "btcp_log_en t"
    using fs_keepsD [OF k] cplog_inv_ready [OF assms(1)] assms(1,2)
    by (auto simp: t cplog_ready_def cplog_inv_def)
  note st = skwlog_open_step [OF rdy, of clk b]
  then show "0 < skwlog_fp (skwlog_open clk b t)" by simp
  have "skwlog_files t = skwlog_files s" "fs t = px_close (skwlog_fp s) (fs s)"
    by (simp_all add: t)
  then have "fs_keeps (skwlog_files s) (fs s) (fs (skwlog_open clk b t))"
    using k cplog_stepD(10) [OF st(1)] fs_keeps_trans by metis
  moreover have "skwlog_open clk b t = s\<lparr>fs := fs (skwlog_open clk b t),
      skwlog_fp := skwlog_fp (skwlog_open clk b t), skwlog_rev_length := skwlog_rev_length (skwlog_open clk b t),
      skwlog_cnts := skwlog_cnts (skwlog_open clk b t)\<rparr>"
    using cplog_stepD(1-8) [OF st(1)] by (intro logs.equality) (simp_all add: t)
  ultimately show "cplog_step s (skwlog_open clk b t)"
    using cplog_stepD(9) [OF st(1)] by (simp add: cplog_step_def)
qed

lemma skwlog_append_step:
  assumes "cplog_inv s" "0 < skwlog_fp s"
  shows "cplog_step s (skwlog_append buffer s)"
proof -
  note ok = assms(1) [unfolded cplog_inv_def cplog_ok_def]
  have "fs_keeps (skwlog_files s) (fs s) (px_write (skwlog_fp s) buffer (fs s))"
    using ok assms(2) by (intro fs_keeps_write [of _ _ "skwlog_path s"]) auto
  then show ?thesis
    using ok assms(2) by (auto simp: cplog_step_def skwlog_append_def cplog_inv_def cplog_ok_def
        px.wr_ok px.wr_linked)
qed

lemma skwlog_write_step:
  assumes "cplog_inv s"
  shows "cplog_step s (skwlog_write clk buffer s)"
proof (cases "0 < skwlog_fp s")
  case True
  let ?s1 = "skwlog_append buffer s"
  note app = skwlog_append_step [OF assms True, of buffer]
  have "0 < skwlog_fp ?s1"
    using True by (simp add: skwlog_append_def)
  then have "cplog_step ?s1 (skwlog_open clk True
      (?s1\<lparr>skwlog_rev_length := 0, fs := px_close (skwlog_fp ?s1) (fs ?s1), skwlog_fp := -1\<rparr>))"
    by (intro skwlog_close_open_step(1) [OF cplog_stepD(9) [OF app], of _ "-1" 0]) simp_all
  from cplog_step_trans [OF app this]
  app True show ?thesis
    by (simp add: skwlog_write_eq Let_def)
next
  case False
  then show ?thesis
    using assms by (simp add: skwlog_write_def cplog_step_refl)
qed

lemma skwlog_reopen_step:
  assumes "cplog_inv s"
  shows "cplog_step s (skwlog_reopen clk b s)"
proof -
  let ?s1 = "s\<lparr>skwlog_rev_length := 0\<rparr>"
  let ?s2 = "if skwlog_fp ?s1 \<noteq> -1 then ?s1\<lparr>fs := px_close (skwlog_fp ?s1) (fs ?s1)\<rparr> else ?s1"
  have s1: "cplog_step s ?s1" "cplog_inv ?s1"
    using assms by (auto simp: cplog_step_def cplog_inv_def cplog_ok_def fs_keeps_refl)
  have "cplog_step s (skwlog_open clk b ?s2)"
  proof (cases "0 < skwlog_fp s")
    case True
    then show ?thesis
      by (intro skwlog_close_open_step(1) [OF assms True, of _ "skwlog_fp s" 0]) simp
  next
    case False
    then have fp: "skwlog_fp s = -1"
      using assms by (auto simp: cplog_inv_def)
    show ?thesis
    proof (cases "btcp_log_en s")
      case True
      have "cplog_step ?s1 (skwlog_open clk b ?s1)"
        using skwlog_open_step(1) [OF cplog_inv_ready [OF s1(2)]] True by simp
      then show ?thesis
        using cplog_step_trans [OF s1(1)] fp by simp
    next
      case False
      then show ?thesis
        using s1(1) fp by (simp add: skwlog_open_def)
    qed
  qed
  note op = this
  then have "cplog_step s (skwlog_print_current_time clk (skwlog_open clk b ?s2))"
    using cplog_step_trans skwlog_write_step [OF cplog_stepD(9)] unfolding skwlog_print_current_time_def by blast
  with op show ?thesis
    by (simp add: skwlog_reopen_def Let_def)
qed

lemma skwlog_close_step:
  assumes "cplog_inv s"
  shows "cplog_step s (skwlog_close s)"
proof (cases "0 < skwlog_fp s")
  case True
  note k = skwlog_close_fd_keeps [OF assms True]
  then show ?thesis
    using fs_keepsD [OF k] assms True
    by (auto simp: cplog_step_def skwlog_close_def cplog_inv_def cplog_ok_def)
next
  case False
  then show ?thesis
    using assms by (auto simp: cplog_step_def skwlog_close_def cplog_inv_def cplog_ok_def fs_keeps_refl)
qed

lemma skwlog_init_step:
  assumes "cplog_ready s"
  shows "cplog_step s (skwlog_init clk s)"
proof -
  let ?s1 = "s\<lparr>skwlog_fp := -1, skwlog_rev_length := 0, skwlog_cnts := 0\<rparr>"
  have s1: "cplog_step s ?s1"
    using assms by (simp add: cplog_step_def cplog_inv_def cplog_ok_def cplog_ready_def fs_keeps_refl)
  show ?thesis
  proof (cases "btcp_log_en s \<and> (\<not> btsnoop_save_log s \<or> \<not> skwlog_slice s)")
    case True
    then have "cplog_step s (skwlog_open clk True ?s1)"
      using skwlog_open_step(1) [OF cplog_inv_ready [OF cplog_stepD(9) [OF s1]], of clk True]
        cplog_step_trans [OF s1] by simp
    moreover from this have "cplog_step s (skwlog_print_current_time clk (skwlog_open clk True ?s1))"
      using cplog_step_trans skwlog_write_step [OF cplog_stepD(9)] unfolding skwlog_print_current_time_def by blast
    ultimately show ?thesis
      using True by (simp add: skwlog_init_def Let_def)
  next
    case False
    then show ?thesis
      using s1 by (auto simp: skwlog_init_def Let_def)
  qed
qed

text \<open>
  Every operation of the CP log keeps the log's invariant (the descriptor is closed, or is
  positive and writes to the log file), from the first state on, changes only its own state, and
  touches no file but its own: every other file keeps its contents and its open descriptors.
\<close>

theorem skwlog_operations_invariant:
  assumes "cplog_ready s0" and "cplog_inv s"
  shows "cplog_step s0 (skwlog_init clk s0) \<and> cplog_step s (skwlog_write clk buffer s) \<and>
    cplog_step s (skwlog_reopen clk b s) \<and> cplog_step s (skwlog_close s)"
  using assms by (simp add: skwlog_init_step skwlog_write_step skwlog_reopen_step skwlog_close_step)

text \<open>A sequence of writes below the limit.\<close>

lemma skwlog_write_all:
  assumes "cplog_ok s" "0 < skwlog_fp s" "btcp_log_en s" "px_content (fs s) (skwlog_path s) = Some c"
    and "unat (skwlog_rev_length s) + length (concat bss) < unat SKWLOG_LIMIT"
  shows "fold (skwlog_write clk) bss s =
    s\<lparr>fs := fold (px_write (skwlog_fp s)) bss (fs s),
      skwlog_rev_length := skwlog_rev_length s + of_nat (length (concat bss))\<rparr>"
  using assms
proof (induction bss arbitrary: s c)
  case (Cons b bss)
  have "unat SKWLOG_LIMIT = 1610612736"
    by (simp add: SKWLOG_LIMIT_def)
  then have rev: "unat (skwlog_rev_length s + of_nat (length b)) = unat (skwlog_rev_length s) + length b"
    using Cons.prems(5) by (simp add: unat_add_u32 unat_of_nat_u32)
  then have "\<not> SKWLOG_LIMIT \<le> skwlog_rev_length (skwlog_append b s)"
    using Cons.prems(5) by (simp add: skwlog_append_def word_le_nat_alt)
  then have w: "skwlog_write clk b s = skwlog_append b s"
    using Cons.prems(2) by (simp add: skwlog_write_eq Let_def)
  note app = skwlog_append_props [OF Cons.prems(1,2,4), of b]
  have "skwlog_append b s = s\<lparr>fs := px_write (skwlog_fp s) b (fs s),
      skwlog_rev_length := skwlog_rev_length s + of_nat (length b)\<rparr>"
    by (simp add: skwlog_append_def)
  with Cons.IH [OF app(1), of "c @ b"] app(2) Cons.prems rev w show ?case
    by (simp add: add.assoc)
qed simp

lemma px_fold_write_frame [simp]:
  "px_open_count (fold (px_write d) bss f) = px_open_count f" "denied (fold (px_write d) bss f) = denied f"
  "px_stdio (fold (px_write d) bss f) = px_stdio f"
  by (induction bss arbitrary: f) simp_all

text \<open>
  A logging session, from \<open>skwlog_init\<close> through any number of writes below the size limit to
  \<open>skwlog_close\<close>: the file holds the header, the time packet and the written chunks in order,
  nothing else is touched, and every descriptor the session opened is closed again.
\<close>

theorem skwlog_session:
  assumes "px_ok (fs s)" "px_stdio (fs s)" "\<not> denied (fs s) (skwlog_path s)"
    and "btcp_log_en s" "\<not> btsnoop_save_log s \<or> \<not> skwlog_slice s"
    and "px_content (fs s) (skwlog_path s) = None"
    and "12 + length (concat bss) < unat SKWLOG_LIMIT"
  shows "px_content (fs (skwlog_close (fold (skwlog_write clk) bss (skwlog_init clk s)))) =
           (px_content (fs s))(skwlog_path s \<mapsto> skwlog_header @ skwlog_time_packet clk @ concat bss) \<and>
         px_open_count (fs (skwlog_close (fold (skwlog_write clk) bss (skwlog_init clk s)))) =
           px_open_count (fs s)"
proof -
  let ?s0 = "s\<lparr>skwlog_fp := -1, skwlog_rev_length := 0, skwlog_cnts := 0\<rparr>"
  let ?o = "skwlog_open clk True ?s0" and ?p = "skwlog_path s" and ?bss = "skwlog_time_packet clk # bss"
  have s0: "cplog_ok ?s0" "btcp_log_en ?s0" "px_content (fs ?s0) (skwlog_path ?s0) = None" "skwlog_path ?s0 = ?p"
    using assms by (simp_all add: cplog_ok_def)
  note o = skwlog_open_fresh [OF s0(2,1,3), of clk True]
  have frame: "skwlog_path ?o = ?p" "btcp_log_en ?o" "skwlog_rev_length ?o = 0"
    using assms(4) skwlog_prepare_missing [OF s0(3), of clk True]
    by (simp_all add: skwlog_open_def Let_def split: prod.split)
  let ?d = "skwlog_fp ?o" and ?f = "fold (px_write (skwlog_fp ?o)) ?bss (fs ?o)"
  have "fold (skwlog_write clk) bss (skwlog_init clk s) = fold (skwlog_write clk) ?bss ?o"
    using assms(4,5) o(3) by (simp add: skwlog_init_def skwlog_print_current_time_def Let_def)
  also have "\<dots> = ?o\<lparr>fs := ?f, skwlog_rev_length := of_nat (length (concat ?bss))\<rparr>"
    using skwlog_write_all [OF o(2,3) frame(2), of skwlog_header ?bss clk] o(1) frame assms(7)
    by (simp add: skwlog_time_packet_def)
  finally have eq: "fs (skwlog_close (fold (skwlog_write clk) bss (skwlog_init clk s))) = px_close ?d ?f"
    using o(3) by (simp add: skwlog_close_def)
  have ok: "px_ok (fs ?o)" "px_linked (fs ?o) ?d ?p" "px_content (fs ?o) ?p = Some skwlog_header"
    using o frame unfolding cplog_ok_def by simp_all
  note all = px.wr_all [OF ok, of ?bss]
  have "px_content ?f = (px_content (fs s))(?p \<mapsto> skwlog_header @ concat ?bss)"
    using all(3) o(1) by simp
  moreover have "fd_ino ?f ?d \<noteq> None"
    using all(2) ok(2) unfolding px_linked_def by blast
  from px_close_count [OF this] have "px_open_count (px_close ?d ?f) = px_open_count (fs s)"
    using o(4) by simp
  ultimately show ?thesis
    unfolding eq by (simp add: px_close_content)
qed

lemma log_dir_from_eq:
  "0 < k \<Longrightarrow> k \<le> i \<Longrightarrow> is_separator (path ! k) \<Longrightarrow> \<forall>j. k < j \<and> j \<le> i \<longrightarrow> \<not> is_separator (path ! j) \<Longrightarrow>
     log_dir_from path i = take k path"
proof (induction i)
  case (Suc i)
  then show ?case by (cases "k = Suc i") auto
qed simp

text \<open>
  The CP log lies beside the snoop log: the directory is what the snoop path has before its
  last separator.
\<close>

theorem skwlog_path_beside_snoop:
  assumes "d \<noteq> []" and "\<forall>ch \<in> set b. \<not> is_separator ch" and "skw_btsnoop_path s = d @ ''/'' @ b"
  shows "skwlog_path s = d @ ''/skwlog.log''"
proof -
  let ?p = "d @ ''/'' @ b"
  have "\<not> is_separator (?p ! j)" if "length d < j \<and> j \<le> length ?p - 1" for j
  proof -
    have "?p ! j = b ! (j - length d - 1)" "j - length d - 1 < length b"
      using that by (auto simp: nth_append)
    then show ?thesis
      using assms(2) by simp
  qed
  moreover have "is_separator (?p ! length d)"
    by (simp add: nth_append is_separator_def)
  ultimately have "log_dir ?p = take (length d) ?p"
    unfolding log_dir_def using assms(1) by (intro log_dir_from_eq) auto
  then show ?thesis
    using assms(3) by (simp add: skwlog_path_def)
qed

theorem skwlog_path_beside_snoop_witness:
  "skwlog_path (sample_logs\<lparr>skw_btsnoop_path := ''/data/misc/bluedroid/btsnoop_hci.cfa''\<rparr>) =
     ''/data/misc/bluedroid/skwlog.log''"
  using skwlog_path_beside_snoop [of "''/data/misc/bluedroid''" "''btsnoop_hci.cfa''"
      "sample_logs\<lparr>skw_btsnoop_path := ''/data/misc/bluedroid/btsnoop_hci.cfa''\<rparr>"]
  by (simp add: is_separator_def)

theorem skwlog_write_keeps_data_witness:
  "px_content (fs (skwlog_write sample_clock [7, 0xFF, 0, 0] sample_logs)) ''/d/skwlog.log'' =
     Some (skwlog_header @ [7, 0xFF, 0, 0])"
proof -
  have "0 < skwlog_fp sample_logs" "btcp_log_en sample_logs" "skwlog_slice sample_logs"
    "skwlog_rev_length sample_logs + of_nat (length [7, 0xFF, 0, 0 :: byte]) < SKWLOG_LIMIT"
    by (simp_all add: sample_logs_def SKWLOG_LIMIT_def)
  with skwlog_write_keeps_data [of sample_logs skwlog_header "[7, 0xFF, 0, 0]" sample_clock] sample_logs_ok
  show ?thesis by simp
qed

theorem skwlog_session_witness:
  "px_content (fs (skwlog_close (fold (skwlog_write sample_clock) [[7, 0xFF, 0, 0], [7, 1, 1, 0, 9]]
     (skwlog_init sample_clock (sample_logs\<lparr>fs := sample_fs ''/x'' [], btsnoop_save_log := False\<rparr>)))))
     ''/d/skwlog.log'' =
   Some (skwlog_header @ skwlog_time_packet sample_clock @ [7, 0xFF, 0, 0, 7, 1, 1, 0, 9])"
proof -
  let ?s = "sample_logs\<lparr>fs := sample_fs ''/x'' [], btsnoop_save_log := False\<rparr>"
  have p: "skwlog_path ?s = ''/d/skwlog.log''"
    using sample_logs_ok(2) by (simp add: skwlog_path_def)
  have "px_ok (fs ?s)"
    by (rule px_okI) (auto simp: sample_fs_def split: if_splits)
  moreover have "px_stdio (fs ?s)" "\<not> denied (fs ?s) (skwlog_path ?s)" "btcp_log_en ?s"
    "px_content (fs ?s) (skwlog_path ?s) = None"
    unfolding p by (simp_all add: sample_logs_def sample_fs_def px_stdio_def fd_ino_def px_content_def)
  moreover have "12 + length (concat [[7, 0xFF, 0, 0], [7, 1, 1, 0, 9 :: byte]]) < unat SKWLOG_LIMIT"
    by (simp add: SKWLOG_LIMIT_def)
  ultimately show ?thesis
    using skwlog_session [of ?s "[[7, 0xFF, 0, 0], [7, 1, 1, 0, 9]]" sample_clock] p by simp
qed

theorem skwlog_operations_invariant_witness:
  "cplog_step sample_logs (skwlog_reopen sample_clock True sample_logs)"
proof -
  have "cplog_inv sample_logs"
    using sample_logs_ok(1) by (simp add: cplog_inv_def) (simp add: sample_logs_def)
  with skwlog_operations_invariant [OF cplog_inv_ready [OF this] this] show ?thesis by blast
qed

end
