(* ===== verification/Snoop.thy ===== *)
theory Snoop
  imports CpLog Deframe Hci
begin

text \<open>
  The snoop log \<open>skw_btsnoop.c\<close>: host packets in the btsnoop format. The state is the record of
  \<open>CpLog\<close>. The format itself is an instance of the frame format of \<open>Deframe\<close>: the file parses
  back to the records that were captured.
\<close>

section \<open>Operations\<close>

definition BTSNOOP_EPOCH_DELTA :: u64 where "BTSNOOP_EPOCH_DELTA = 0x00dcddb30f2f8000"

definition skw_btsnoop_timestamp :: "clock \<Rightarrow> u64" where
  "skw_btsnoop_timestamp clk =
     of_nat (clk_tv_sec clk) * (1000 * 1000) + of_nat (clk_tv_usec clk) + BTSNOOP_EPOCH_DELTA"

text \<open>\<open>"btsnoop\0\0\0\0\1\0\0\x3\xea"\<close>, 16 bytes.\<close>

definition btsnoop_header :: "byte list" where
  "btsnoop_header = [0x62, 0x74, 0x73, 0x6E, 0x6F, 0x6F, 0x70, 0, 0, 0, 0, 1, 0, 0, 0x03, 0xEA]"

definition btsnoop_last_path :: "logs \<Rightarrow> string" where
  "btsnoop_last_path s = skw_btsnoop_path s @ ''.last''"

definition btsnoop_dated_path :: "clock \<Rightarrow> logs \<Rightarrow> string" where
  "btsnoop_dated_path clk s =
     skw_btsnoop_path s @ ''.'' @ clk_stamp clk @ ''_'' @
     fmt_d 0 (int (unat ((skw_btsnoop_timestamp clk - BTSNOOP_EPOCH_DELTA) mod 1000000))) @
     ''-'' @ fmt_d 2 (sint (btsnoop_cnts s))"

text \<open>
  What \<open>skw_btsnoop_open\<close> does about an existing file and about the CP log before it opens its own
  file. The result is the state and the value of \<open>new_file\<close>; \<open>None\<close> is the early return.
\<close>

definition skw_btsnoop_rotate :: "clock \<Rightarrow> logs \<Rightarrow> logs \<times> bool option" where
  "skw_btsnoop_rotate clk s =
     (let path = skw_btsnoop_path s in
      if btsnoop_save_log s then
        let (d, f1) = px_look path (fs s) in
        if d > 0 then
          let file_zie = c_int (px_size d f1); s1 = s\<lparr>fs := px_close d f1\<rparr> in
          if skwlog_slice s1 then
            if file_zie > 1024 * 1024 * 1024 then
              let (r, f2) = px_rename path (btsnoop_last_path s1) (px_remove (btsnoop_last_path s1) (fs s1));
                  s2 = s1\<lparr>fs := f2\<rparr>
              in if r = 0 \<and> errno f2 \<noteq> ENOENT then (s2, None)
                 else (skwlog_reopen clk True s2, Some True)
            else
              let s2 = s1\<lparr>btsnoop_rev_length := word_of_int file_zie\<rparr>;
                  new_file = (file_zie \<le> 16)
              in (skwlog_reopen clk new_file s2, Some new_file)
          else if file_zie > 16 then
            (s1\<lparr>fs := snd (px_rename path (btsnoop_dated_path clk s1) (fs s1)),
                btsnoop_cnts := btsnoop_cnts s1 + 1\<rparr>, Some True)
          else (s1, Some True)
        else if skwlog_slice s then (skwlog_reopen clk True (s\<lparr>fs := f1\<rparr>), Some True)
        else (s\<lparr>fs := f1\<rparr>, Some True)
      else (s\<lparr>fs := snd (px_rename path (btsnoop_last_path s) (fs s))\<rparr>, Some True))"

text \<open>\<open>skw_btsnoop_open\<close>.\<close>

definition skw_btsnoop_open :: "clock \<Rightarrow> logs \<Rightarrow> logs" where
  "skw_btsnoop_open clk s =
     (let s0 = s\<lparr>btsnoop_rev_length := 0\<rparr> in
      if hci_btsnoop_fd s0 \<noteq> -1 \<or> \<not> btsnoop_log_en s0 then s0
      else
        (case skw_btsnoop_rotate clk s0 of
           (s1, None) \<Rightarrow> s1
         | (s1, Some new_file) \<Rightarrow>
             let (d, f) = px_open_append (skw_btsnoop_path s1) (fs s1) in
             if d < 0 then s1\<lparr>fs := f, hci_btsnoop_fd := d\<rparr>
             else s1\<lparr>fs := (if new_file then px_write d btsnoop_header f else f), hci_btsnoop_fd := d\<rparr>))"

definition skw_btsnoop_init :: "clock \<Rightarrow> logs \<Rightarrow> logs" where
  "skw_btsnoop_init clk s = skw_btsnoop_open clk (s\<lparr>btsnoop_cnts := 0\<rparr>)"

definition skw_btsnoop_close :: "logs \<Rightarrow> logs" where
  "skw_btsnoop_close s =
     s\<lparr>fs := (if hci_btsnoop_fd s \<noteq> -1 then px_close (hci_btsnoop_fd s) (fs s) else fs s),
       hci_btsnoop_fd := -1\<rparr>"

definition skw_btsnoop_write :: "byte list \<Rightarrow> logs \<Rightarrow> logs" where
  "skw_btsnoop_write bs s =
     (if hci_btsnoop_fd s \<noteq> -1 then s\<lparr>fs := px_write (hci_btsnoop_fd s) bs (fs s)\<rparr> else s)"

text \<open>
  The packet's length and flags from its header. The packet is the object the pointer points
  into, from the pointer on; a read behind its end is a fault.
\<close>

definition packet_at :: "byte list \<Rightarrow> nat \<Rightarrow> c_fault + byte" where
  "packet_at packet i = (if i < length packet then Inr (packet ! i) else Inl OutOfBounds)"

definition snoop_extent :: "byte list \<Rightarrow> bool \<Rightarrow> c_fault + (nat \<times> u32) option" where
  "snoop_extent packet is_received =
     (let dir = (if is_received then 1 else 0) in
      case packet_at packet 0 of
        Inl e \<Rightarrow> Inl e
      | Inr type \<Rightarrow>
          if type = HCI_COMMAND_PKT then
            map_sum id (\<lambda>n. Some (unat n + 4, 2)) (packet_at packet 3)
          else if type = HCI_ACLDATA_PKT \<or> type = HCI_ISO_PKT then
            (case packet_at packet 4 of
               Inl e \<Rightarrow> Inl e
             | Inr hi \<Rightarrow> map_sum id (\<lambda>lo. Some (unat hi * 256 + unat lo + 5, dir)) (packet_at packet 3))
          else if type = HCI_SCODATA_PKT then
            map_sum id (\<lambda>n. Some (unat n + 4, dir)) (packet_at packet 3)
          else if type = HCI_EVENT_PKT \<or> type = HCI_EVENT_SKWLOG then
            map_sum id (\<lambda>n. Some (unat n + 3, 3)) (packet_at packet 2)
          else Inr None)"

text \<open>The seven writes of one record.\<close>

definition snoop_chunks :: "u64 \<Rightarrow> u32 \<Rightarrow> byte list \<Rightarrow> byte list list" where
  "snoop_chunks timestamp flags payload =
     [be32 (of_nat (length payload)), be32 (of_nat (length payload)), be32 flags, be32 0,
      be32 (ucast (drop_bit 32 timestamp)), be32 (ucast timestamp), payload]"

definition SNOOP_LIMIT :: u32 where "SNOOP_LIMIT = 1024 * 1024 * 1024"

text \<open>\<open>skw_btsnoop_capture\<close>.\<close>

definition skw_btsnoop_capture :: "clock \<Rightarrow> byte list \<Rightarrow> bool \<Rightarrow> logs \<Rightarrow> c_fault + logs" where
  "skw_btsnoop_capture clk packet is_received s =
     (if \<not> btsnoop_log_en s \<or> hci_btsnoop_fd s = -1 then Inr s
      else
        case snoop_extent packet is_received of
          Inl e \<Rightarrow> Inl e
        | Inr None \<Rightarrow> Inr s
        | Inr (Some (length_he, flags)) \<Rightarrow>
            if length packet < length_he then Inl OutOfBounds
            else
              let s1 = s\<lparr>btsnoop_rev_length := btsnoop_rev_length s + of_nat length_he\<rparr>;
                  s2 = fold skw_btsnoop_write
                         (snoop_chunks (skw_btsnoop_timestamp clk) flags (take length_he packet)) s1
              in if btsnoop_rev_length s2 \<ge> SNOOP_LIMIT
                 then Inr (skw_btsnoop_open clk
                        (s2\<lparr>fs := px_close (hci_btsnoop_fd s2) (fs s2), hci_btsnoop_fd := -1\<rparr>))
                 else Inr s2)"

section \<open>The file format\<close>

text \<open>A record is a 24-byte header, whose second word is the number of bytes behind it.\<close>

definition snoop_need :: "byte list \<Rightarrow> nat option" where
  "snoop_need xs = (if 24 \<le> length xs then Some (24 + be32_val (subbuf 4 4 xs)) else None)"

interpretation snoop: frame_format snoop_need
proof
  show "0 < n" if "snoop_need xs = Some n" for xs n
    using that by (auto simp: snoop_need_def split: if_splits)
  show "snoop_need (xs @ ys) = Some n" if "snoop_need xs = Some n" for xs ys n
    using that by (auto simp: snoop_need_def subbuf_def split: if_splits)
  show "snoop_need (take n xs) = Some n" if "snoop_need xs = Some n" "n \<le> length xs" for xs n
    using that by (auto simp: snoop_need_def subbuf_take split: if_splits)
qed

text \<open>A reader of snoop files: the header, then records up to the end.\<close>

definition snoop_parse :: "byte list \<Rightarrow> byte list list option" where
  "snoop_parse file =
     (if take 16 file = btsnoop_header \<and> snd (deframe snoop_need (drop 16 file)) = []
      then Some (fst (deframe snoop_need (drop 16 file))) else None)"

definition snoop_record :: "u64 \<Rightarrow> u32 \<Rightarrow> byte list \<Rightarrow> byte list" where
  "snoop_record timestamp flags payload = concat (snoop_chunks timestamp flags payload)"

definition snoop_payload :: "byte list \<Rightarrow> byte list" where
  "snoop_payload rec = drop 24 rec"

definition snoop_flags :: "byte list \<Rightarrow> nat" where
  "snoop_flags rec = be32_val (subbuf 8 4 rec)"

lemma snoop_record_frame:
  assumes "length payload < 2 ^ 32"
  shows "snoop_need (snoop_record ts flags payload) = Some (length (snoop_record ts flags payload))"
proof -
  have "be32_val (be32 (of_nat (length payload) :: u32)) = length payload"
    using assms by (simp add: be32_val_be32 unat_of_nat_u32)
  then show ?thesis
    by (simp add: snoop_need_def snoop_record_def snoop_chunks_def subbuf_def)
qed

lemma snoop_record_fields:
  "snoop_payload (snoop_record ts flags payload) = payload"
  "snoop_flags (snoop_record ts flags payload) = unat flags"
  by (simp_all add: snoop_payload_def snoop_flags_def snoop_record_def snoop_chunks_def subbuf_def be32_val_be32)

lemma length_btsnoop_header [simp]: "length btsnoop_header = 16"
  by (simp add: btsnoop_header_def)

lemma snoop_parse_header: "snoop_parse btsnoop_header = Some []"
  by (simp add: snoop_parse_def)

text \<open>A record behind a well-formed file is one more record.\<close>

lemma snoop_parse_append:
  assumes "snoop_parse file = Some recs" "snoop_need r = Some (length r)"
  shows "snoop_parse (file @ r) = Some (recs @ [r])"
proof -
  from assms(1) have f: "take 16 file = btsnoop_header" "snd (deframe snoop_need (drop 16 file)) = []"
    "fst (deframe snoop_need (drop 16 file)) = recs"
    by (auto simp: snoop_parse_def split: if_splits)
  have "16 \<le> length file"
    using f(1) length_btsnoop_header by (metis length_take min.absorb_iff1 min.commute)
  then have "take 16 (file @ r) = btsnoop_header" "drop 16 (file @ r) = drop 16 file @ r"
    using f(1) by simp_all
  then show ?thesis
    using f snoop.deframe_append [of "drop 16 file" r] snoop.deframe_frame [OF assms(2), of "[]"]
    by (simp add: snoop_parse_def)
qed

text \<open>Fewer bytes than a record header behind a well-formed file make it unreadable.\<close>

lemma snoop_parse_extra:
  assumes "snoop_parse trace = Some recs" "xs \<noteq> []" "length xs < 24"
  shows "snoop_parse (trace @ xs) = None"
proof -
  from assms(1) have f: "take 16 trace = btsnoop_header" "snd (deframe snoop_need (drop 16 trace)) = []"
    by (auto simp: snoop_parse_def split: if_splits)
  have "16 \<le> length trace"
    using f(1) length_btsnoop_header by (metis length_take min.absorb_iff1 min.commute)
  moreover have "deframe snoop_need xs = ([], xs)"
    using assms(3) by (intro snoop.deframe_incomplete) (simp add: snoop_need_def)
  ultimately show ?thesis
    using f assms(2) snoop.deframe_append [of "drop 16 trace" xs] by (simp add: snoop_parse_def)
qed

section \<open>The invariant\<close>

text \<open>
  The files of the snoop log, and the invariant of both logs together: the snoop descriptor is
  closed or writes to the snoop file, and the two logs share no file.
\<close>

definition snoop_files :: "logs \<Rightarrow> string set" where
  "snoop_files s = range (\<lambda>x. skw_btsnoop_path s @ x)"

definition snoop_ready :: "logs \<Rightarrow> bool" where
  "snoop_ready s \<longleftrightarrow> cplog_inv s \<and> \<not> denied (fs s) (skw_btsnoop_path s) \<and>
     snoop_files s \<inter> skwlog_files s = {}"

definition snoop_inv :: "logs \<Rightarrow> bool" where
  "snoop_inv s \<longleftrightarrow> snoop_ready s \<and>
     (hci_btsnoop_fd s = -1 \<or>
      0 < hci_btsnoop_fd s \<and> btsnoop_log_en s \<and> px_linked (fs s) (hci_btsnoop_fd s) (skw_btsnoop_path s))"

lemma snoop_names [simp]:
  "skw_btsnoop_path s \<in> snoop_files s" "btsnoop_last_path s \<in> snoop_files s" "btsnoop_dated_path clk s \<in> snoop_files s"
  by (auto simp: snoop_files_def btsnoop_last_path_def btsnoop_dated_path_def intro: range_eqI [of _ _ "[]"])

lemma snoop_names_frame [simp]:
  "btsnoop_last_path (s\<lparr>fs := x_fs\<rparr>) = btsnoop_last_path s"
  "btsnoop_dated_path clk (s\<lparr>fs := x_fs\<rparr>) = btsnoop_dated_path clk s"
  "snoop_files (s\<lparr>fs := x_fs\<rparr>) = snoop_files s" "snoop_files (s\<lparr>btsnoop_rev_length := x_rev\<rparr>) = snoop_files s"
  "snoop_files (s\<lparr>hci_btsnoop_fd := x_fd\<rparr>) = snoop_files s" "snoop_files (s\<lparr>btsnoop_cnts := x_cnts\<rparr>) = snoop_files s"
  "btsnoop_last_path (s\<lparr>btsnoop_rev_length := x_rev\<rparr>) = btsnoop_last_path s"
  "btsnoop_dated_path clk (s\<lparr>btsnoop_rev_length := x_rev\<rparr>) = btsnoop_dated_path clk s"
  by (simp_all add: btsnoop_last_path_def btsnoop_dated_path_def snoop_files_def)

lemma snoop_path_not_skwlog: "snoop_ready s \<Longrightarrow> q \<in> snoop_files s \<Longrightarrow> q \<notin> skwlog_files s"
  by (auto simp: snoop_ready_def)

text \<open>The state other than the files, and the effect of writes on the files.\<close>

lemma fold_snoop_write:
  "hci_btsnoop_fd s \<noteq> -1 \<Longrightarrow>
   fold skw_btsnoop_write bss s = s\<lparr>fs := fold (px_write (hci_btsnoop_fd s)) bss (fs s)\<rparr>"
  by (induction bss arbitrary: s) (simp_all add: skw_btsnoop_write_def)

lemma fs_keeps_writes:
  assumes "px_ok f" "px_stdio f" "px_linked f d p" "p \<in> P"
  shows "fs_keeps P f (fold (px_write d) bss f)"
  using assms
proof (induction bss arbitrary: f)
  case Nil
  then show ?case by (simp add: fs_keeps_refl)
next
  case (Cons b bss)
  note k = fs_keeps_write [OF Cons.prems, of b]
  have "px_linked (px_write d b f) d p"
    using Cons.prems(3) by (simp add: px.wr_linked)
  from fs_keeps_trans [OF k Cons.IH [OF fs_keepsD(1,2) [OF k] this Cons.prems(4)]] show ?case
    by simp
qed

text \<open>The file operations on snoop files leave the CP log's invariant alone.\<close>

lemma cplog_inv_keeps:
  assumes "cplog_inv s" "fs_keeps P (fs s) f" "P \<inter> skwlog_files s = {}"
  shows "cplog_inv (s\<lparr>fs := f\<rparr>)" "cplog_inv (s\<lparr>fs := f, btsnoop_rev_length := r\<rparr>)"
    "cplog_inv (s\<lparr>fs := f, btsnoop_cnts := n\<rparr>)" "cplog_inv (s\<lparr>fs := f, hci_btsnoop_fd := d\<rparr>)"
proof -
  have "skwlog_path s \<notin> P"
    using assms(3) skwlog_names_files(1) [of s] by blast
  then show "cplog_inv (s\<lparr>fs := f\<rparr>)" "cplog_inv (s\<lparr>fs := f, btsnoop_rev_length := r\<rparr>)"
    "cplog_inv (s\<lparr>fs := f, btsnoop_cnts := n\<rparr>)" "cplog_inv (s\<lparr>fs := f, hci_btsnoop_fd := d\<rparr>)"
    using assms(1) fs_keepsD [OF assms(2)] by (auto simp: cplog_inv_def cplog_ok_def)
qed

section \<open>Capture\<close>

lemma skw_btsnoop_capture_below:
  fixes clk :: clock
  assumes "snoop_inv s" "hci_btsnoop_fd s \<noteq> -1"
    and "snoop_extent packet rx = Inr (Some (n, flags))" "n \<le> length packet"
    and "unat (btsnoop_rev_length s) + n < unat SNOOP_LIMIT"
  assumes bss_def: "bss = snoop_chunks (skw_btsnoop_timestamp clk) flags (take n packet)"
    and s'_def: "s' = s\<lparr>fs := fold (px_write (hci_btsnoop_fd s)) bss (fs s),
                 btsnoop_rev_length := btsnoop_rev_length s + of_nat n\<rparr>"
  shows "skw_btsnoop_capture clk packet rx s = Inr s'" "snoop_inv s'"
    "unat (btsnoop_rev_length s') = unat (btsnoop_rev_length s) + n"
proof -
  note inv = assms(1) [unfolded snoop_inv_def snoop_ready_def]
  have "unat SNOOP_LIMIT = 1073741824"
    by (simp add: SNOOP_LIMIT_def)
  then show rev: "unat (btsnoop_rev_length s') = unat (btsnoop_rev_length s) + n"
    using assms(5) by (simp add: s'_def unat_add_u32 unat_of_nat_u32)
  then have "\<not> SNOOP_LIMIT \<le> btsnoop_rev_length s'"
    using assms(5) by (simp add: word_le_nat_alt)
  then show "skw_btsnoop_capture clk packet rx s = Inr s'"
    using assms(2-4) inv by (simp add: skw_btsnoop_capture_def fold_snoop_write s'_def bss_def Let_def)
  have l: "px_ok (fs s)" "px_stdio (fs s)" "px_linked (fs s) (hci_btsnoop_fd s) (skw_btsnoop_path s)"
    using inv assms(2) by (auto simp: cplog_inv_def cplog_ok_def)
  note k = fs_keeps_writes [OF l snoop_names(1), of bss]
  have lk: "px_linked (fs s') (hci_btsnoop_fd s) (skw_btsnoop_path s)"
    using px.wr_all(2) [OF l(1,3)] l(3) px_content_linked [OF l(3)] by (auto simp: s'_def)
  show "snoop_inv s'"
    using inv lk fs_keepsD(3) [OF k] cplog_inv_keeps(2) [of s, OF _ k] assms(2)
    by (auto simp: snoop_inv_def snoop_ready_def s'_def)
qed

text \<open>Several captures, and what each one is to put into the file.\<close>

fun skw_btsnoop_captures :: "(clock \<times> byte list \<times> bool) list \<Rightarrow> logs \<Rightarrow> c_fault + logs" where
  "skw_btsnoop_captures [] s = Inr s"
| "skw_btsnoop_captures ((clk, packet, rx) # cs) s =
     (case skw_btsnoop_capture clk packet rx s of Inl e \<Rightarrow> Inl e | Inr s' \<Rightarrow> skw_btsnoop_captures cs s')"

fun snoop_sent :: "clock \<times> byte list \<times> bool \<Rightarrow> byte list" where
  "snoop_sent (clk, packet, rx) =
     (case snoop_extent packet rx of Inr (Some (n, _)) \<Rightarrow> take n packet | _ \<Rightarrow> [])"

text \<open>A packet of a known type whose announced bytes are all there.\<close>

fun snoop_complete :: "clock \<times> byte list \<times> bool \<Rightarrow> bool" where
  "snoop_complete (clk, packet, rx) =
     (case snoop_extent packet rx of Inr (Some (n, _)) \<Rightarrow> n \<le> length packet | _ \<Rightarrow> False)"

lemma snoop_extent_less: "snoop_extent packet rx = Inr (Some (n, flags)) \<Longrightarrow> n < 65541"
proof -
  have b: "unat a < 65537" "unat a < 65538" "unat a * 256 + unat b < 65536" for a b :: byte
    using unat_byte_lt [of a] unat_byte_lt [of b] by linarith+
  show "snoop_extent packet rx = Inr (Some (n, flags)) \<Longrightarrow> n < 65541"
    by (auto simp: snoop_extent_def packet_at_def Let_def b split: if_splits)
qed

text \<open>
  Any sequence of captures of complete packets below the size limit runs without a fault and adds
  exactly one record per packet, in order.
\<close>

lemma snoop_captures_run:
  assumes "snoop_inv s" "hci_btsnoop_fd s \<noteq> -1"
    and "px_content (fs s) (skw_btsnoop_path s) = Some trace" "snoop_parse trace = Some recs"
    and "\<forall>c \<in> set cs. snoop_complete c"
    and "unat (btsnoop_rev_length s) + length (concat (map snoop_sent cs)) < unat SNOOP_LIMIT"
  shows "\<exists>s' trace' rs. skw_btsnoop_captures cs s = Inr s' \<and> snoop_inv s' \<and>
    px_content (fs s') = (px_content (fs s))(skw_btsnoop_path s \<mapsto> trace') \<and>
    snoop_parse trace' = Some (recs @ rs) \<and> map snoop_payload rs = map snoop_sent cs"
  using assms
proof (induction cs arbitrary: s trace recs)
  case Nil
  then have "px_content (fs s) = (px_content (fs s))(skw_btsnoop_path s \<mapsto> trace)"
    by (simp add: fun_upd_idem)
  with Nil show ?case by fastforce
next
  case (Cons c cs)
  obtain clk packet rx where c: "c = (clk, packet, rx)" by (cases c)
  with Cons.prems(5) obtain n flags where ext: "snoop_extent packet rx = Inr (Some (n, flags))" "n \<le> length packet"
    by (auto split: sum.splits option.splits)
  let ?r = "snoop_record (skw_btsnoop_timestamp clk) flags (take n packet)"
  let ?bss = "snoop_chunks (skw_btsnoop_timestamp clk) flags (take n packet)"
  let ?s = "s\<lparr>fs := fold (px_write (hci_btsnoop_fd s)) ?bss (fs s), btsnoop_rev_length := btsnoop_rev_length s + of_nat n\<rparr>"
  have sent: "snoop_sent c = take n packet"
    using c ext by simp
  have lim: "unat (btsnoop_rev_length s) + n < unat SNOOP_LIMIT"
    using Cons.prems(6) sent ext(2) by simp
  note step = skw_btsnoop_capture_below [OF Cons.prems(1,2) ext lim refl refl, of clk]
  have ok: "px_ok (fs s)" "px_linked (fs s) (hci_btsnoop_fd s) (skw_btsnoop_path s)"
    using Cons.prems(1,2) by (auto simp: snoop_inv_def snoop_ready_def cplog_inv_def cplog_ok_def)
  have content: "px_content (fs ?s) = (px_content (fs s))(skw_btsnoop_path s \<mapsto> trace @ ?r)"
    using px.wr_all(3) [OF ok Cons.prems(3), of ?bss] by (simp add: snoop_record_def)
  have "length (take n packet) < 2 ^ 32"
    using snoop_extent_less [OF ext(1)] by simp
  from snoop_parse_append [OF Cons.prems(4) snoop_record_frame [OF this]]
  have parse: "snoop_parse (trace @ ?r) = Some (recs @ [?r])" .
  have "unat (btsnoop_rev_length ?s) + length (concat (map snoop_sent cs)) < unat SNOOP_LIMIT"
    using Cons.prems(6) sent ext(2) step(3) by simp
  note ih = Cons.IH [OF step(2) _ _ parse _ this]
  have "hci_btsnoop_fd ?s \<noteq> -1" "px_content (fs ?s) (skw_btsnoop_path ?s) = Some (trace @ ?r)"
    "\<forall>c \<in> set cs. snoop_complete c"
    using Cons.prems(2,5) content by simp_all
  from ih [OF this] obtain s' trace' rs where
    "skw_btsnoop_captures cs ?s = Inr s'" "snoop_inv s'"
    "px_content (fs s') = (px_content (fs ?s))(skw_btsnoop_path ?s \<mapsto> trace')"
    "snoop_parse trace' = Some ((recs @ [?r]) @ rs)" "map snoop_payload rs = map snoop_sent cs"
    by blast
  with step(1) content c sent show ?case
    by (intro exI [of _ s'] exI [of _ trace'] exI [of _ "?r # rs"]) (simp add: snoop_record_fields)
qed

text \<open>
  The flags of a record as the format has them: whether the packet was received, and whether it is a
  command or event.
\<close>

fun hci_flags :: "hci_packet \<Rightarrow> bool \<Rightarrow> nat" where
  "hci_flags (Hci_command a b pl) rx = 2"
| "hci_flags (Hci_event a pl) rx = 3"
| "hci_flags _ rx = (if rx then 1 else 0)"

lemma snoop_extent_encode:
  "hci_fits m \<Longrightarrow> \<not> is_log m \<Longrightarrow>
   snoop_extent (hci_encode m @ junk) rx = Inr (Some (length (hci_encode m), of_nat (hci_flags m rx)))"
  by (cases m) (simp_all add: snoop_extent_def packet_at_def unat_of_nat_mod)

lemma snoop_sent_encode:
  assumes "hci_fits m" "\<not> is_log m"
  shows "snoop_sent (clk, hci_encode m @ junk, rx) = hci_encode m" "snoop_complete (clk, hci_encode m @ junk, rx)"
  using snoop_extent_encode [OF assms, of junk rx] by auto

text \<open>
  C6: The snoop file is a faithful trace. Starting from a file that parses, any sequence of
  captures of buffers that start with a packet of the host controller interface, whatever follows
  it in the buffer, runs without a fault as long as the packets stay below the size limit, and
  leaves a file that parses to the old records followed by exactly one record per packet, in order,
  whose payload is the packet as the interface lays it out; no other file changes.
\<close>

theorem snoop_captures_roundtrip:
  assumes "snoop_inv s" "hci_btsnoop_fd s \<noteq> -1"
    and "px_content (fs s) (skw_btsnoop_path s) = Some trace" "snoop_parse trace = Some recs"
    and "\<forall>(clk, m, junk, rx) \<in> set cs. hci_fits m \<and> \<not> is_log m"
    and "unat (btsnoop_rev_length s) + length (concat (map (\<lambda>(clk, m, junk, rx). hci_encode m) cs)) < unat SNOOP_LIMIT"
  shows "\<exists>s' trace' rs.
    skw_btsnoop_captures (map (\<lambda>(clk, m, junk, rx). (clk, hci_encode m @ junk, rx)) cs) s = Inr s' \<and> snoop_inv s' \<and>
    px_content (fs s') = (px_content (fs s))(skw_btsnoop_path s \<mapsto> trace') \<and>
    snoop_parse trace' = Some (recs @ rs) \<and> map snoop_payload rs = map (\<lambda>(clk, m, junk, rx). hci_encode m) cs"
proof -
  let ?cs = "map (\<lambda>(clk, m, junk, rx). (clk, hci_encode m @ junk, rx)) cs"
  have sent: "map snoop_sent ?cs = map (\<lambda>(clk, m, junk, rx). hci_encode m) cs"
    using assms(5) by (auto simp del: snoop_sent.simps simp: snoop_sent_encode)
  have "\<forall>c \<in> set ?cs. snoop_complete c"
    using assms(5) by (auto simp del: snoop_complete.simps simp: snoop_sent_encode)
  from snoop_captures_run [OF assms(1-4) this] show ?thesis
    unfolding sent using assms(6) by blast
qed

section \<open>Opening\<close>

lemma snoop_ready_keeps:
  assumes "snoop_ready s" "fs_keeps (snoop_files s) (fs s) f"
  shows "snoop_ready (s\<lparr>fs := f\<rparr>)" "snoop_ready (s\<lparr>fs := f, btsnoop_cnts := n\<rparr>)"
    "snoop_ready (s\<lparr>fs := f, btsnoop_rev_length := r\<rparr>)" "snoop_ready (s\<lparr>fs := f, hci_btsnoop_fd := d\<rparr>)"
  using assms(1) fs_keepsD(3) [OF assms(2)] cplog_inv_keeps [OF _ assms(2)]
  by (simp_all add: snoop_ready_def)

lemma snoop_ready_fsD:
  "snoop_ready s \<Longrightarrow> px_ok (fs s)" "snoop_ready s \<Longrightarrow> px_stdio (fs s)"
  "snoop_ready s \<Longrightarrow> \<not> denied (fs s) (skw_btsnoop_path s)" "snoop_ready s \<Longrightarrow> cplog_inv s"
  by (simp_all add: snoop_ready_def cplog_inv_def cplog_ok_def)

lemma snoop_ready_step: "snoop_ready s \<Longrightarrow> cplog_step s s' \<Longrightarrow> snoop_ready s'"
  using cplog_stepD [of s s'] fs_keepsD(3) [OF cplog_stepD(10)]
  by (simp add: snoop_ready_def snoop_files_def)

lemma skwlog_reopen_ready: "snoop_ready s \<Longrightarrow> snoop_ready (skwlog_reopen clk b s)"
  by (blast intro: snoop_ready_step skwlog_reopen_step snoop_ready_fsD)

text \<open>The CP log's own steps leave the snoop files as they are.\<close>

lemma skwlog_reopen_content:
  "snoop_ready s \<Longrightarrow> q \<in> snoop_files s \<Longrightarrow>
   px_content (fs (skwlog_reopen clk b s)) q = px_content (fs s) q"
  using fs_keepsD(4) [OF cplog_stepD(10) [OF skwlog_reopen_step]] snoop_path_not_skwlog
  by (simp add: snoop_ready_fsD)

lemmas skwlog_reopen_frame [simp] = cplog_stepD(1-8) [OF skwlog_reopen_step]

text \<open>The end of \<open>skw_btsnoop_open\<close>: opening the file and the header.\<close>

definition snoop_finish :: "logs \<times> bool option \<Rightarrow> logs" where
  "snoop_finish r =
     (case r of
        (s1, None) \<Rightarrow> s1
      | (s1, Some new_file) \<Rightarrow>
          let (d, f) = px_open_append (skw_btsnoop_path s1) (fs s1) in
          if d < 0 then s1\<lparr>fs := f, hci_btsnoop_fd := d\<rparr>
          else s1\<lparr>fs := (if new_file then px_write d btsnoop_header f else f), hci_btsnoop_fd := d\<rparr>)"

lemma skw_btsnoop_open_eq:
  "hci_btsnoop_fd s = -1 \<Longrightarrow> btsnoop_log_en s \<Longrightarrow>
   skw_btsnoop_open clk s = snoop_finish (skw_btsnoop_rotate clk (s\<lparr>btsnoop_rev_length := 0\<rparr>))"
  by (simp add: skw_btsnoop_open_def snoop_finish_def Let_def)

lemma snoop_finish_open:
  assumes "snoop_ready s1" "btsnoop_log_en s1"
  shows "snoop_inv (snoop_finish (s1, Some b))" "0 < hci_btsnoop_fd (snoop_finish (s1, Some b))"
    and "fs_keeps (snoop_files s1) (fs s1) (fs (snoop_finish (s1, Some b)))"
    and "px_content (fs (snoop_finish (s1, Some b))) =
      (px_content (fs s1))(skw_btsnoop_path s1 \<mapsto>
        (case px_content (fs s1) (skw_btsnoop_path s1) of None \<Rightarrow> [] | Some c \<Rightarrow> c) @
        (if b then btsnoop_header else []))"
proof -
  let ?p = "skw_btsnoop_path s1"
  note ok = snoop_ready_fsD [OF assms(1)]
  obtain d f where op: "px_open_append ?p (fs s1) = (d, f)" by fastforce
  have k: "fs_keeps (snoop_files s1) (fs s1) f"
    using fs_keeps_open_append [OF ok(1-3) snoop_names(1)] op by simp
  have d: "0 < d" "px_linked f d ?p"
    using px_open_append_stdio [OF ok(2,3)] px_open_append_linked [of ?p "fs s1"] op by simp_all
  let ?f = "if b then px_write d btsnoop_header f else f"
  have eq: "snoop_finish (s1, Some b) = s1\<lparr>fs := ?f, hci_btsnoop_fd := d\<rparr>"
    using op d(1) by (simp add: snoop_finish_def)
  have "fs_keeps (snoop_files s1) f ?f"
    using fs_keeps_write [OF fs_keepsD(1,2) [OF k] d(2) snoop_names(1)] fs_keeps_refl fs_keepsD(1,2) [OF k] by simp
  then have k2: "fs_keeps (snoop_files s1) (fs s1) ?f"
    using k fs_keeps_trans by blast
  then show "fs_keeps (snoop_files s1) (fs s1) (fs (snoop_finish (s1, Some b)))"
    by (simp add: eq)
  have "px_linked ?f d ?p"
    using d(2) by (simp add: px.wr_linked)
  then show "snoop_inv (snoop_finish (s1, Some b))" "0 < hci_btsnoop_fd (snoop_finish (s1, Some b))"
    using snoop_ready_keeps(4) [OF assms(1) k2] d assms(2) unfolding eq snoop_inv_def by simp_all
  have c: "px_content f = (px_content (fs s1))(?p \<mapsto> (case px_content (fs s1) ?p of None \<Rightarrow> [] | Some c \<Rightarrow> c))"
    using px_open_append_content [OF ok(1), of ?p] op d(1) by simp
  then have "px_content ?f = (px_content (fs s1))(?p \<mapsto>
      (case px_content (fs s1) ?p of None \<Rightarrow> [] | Some c \<Rightarrow> c) @ (if b then btsnoop_header else []))"
    using px_write_content [OF fs_keepsD(1) [OF k] d(2), of _ btsnoop_header] by simp
  then show "px_content (fs (snoop_finish (s1, Some b))) = (px_content (fs s1))(skw_btsnoop_path s1 \<mapsto>
      (case px_content (fs s1) ?p of None \<Rightarrow> [] | Some c \<Rightarrow> c) @ (if b then btsnoop_header else []))"
    by (simp add: eq)
qed

text \<open>
  Whatever the branch, what comes before the open keeps the two logs' invariant, and changes only
  files of the two logs.
\<close>

definition snoop_rotated :: "logs \<Rightarrow> logs \<Rightarrow> bool" where
  "snoop_rotated s s1 \<longleftrightarrow> snoop_ready s1 \<and> hci_btsnoop_fd s1 = hci_btsnoop_fd s \<and>
     btsnoop_log_en s1 = btsnoop_log_en s \<and> skw_btsnoop_path s1 = skw_btsnoop_path s \<and>
     fs_keeps (snoop_files s \<union> skwlog_files s) (fs s) (fs s1)"

lemma snoop_rotated_files:
  assumes "snoop_ready s" "fs_keeps (snoop_files s) (fs s) f"
  shows "snoop_rotated s (s\<lparr>fs := f\<rparr>)" "snoop_rotated s (s\<lparr>fs := f, btsnoop_cnts := n\<rparr>)"
    "snoop_rotated s (s\<lparr>fs := f, btsnoop_rev_length := r\<rparr>)"
  using snoop_ready_keeps [OF assms] fs_keeps_mono [OF assms(2)] by (auto simp: snoop_rotated_def)

lemma snoop_rotated_reopen: "snoop_rotated s s1 \<Longrightarrow> snoop_rotated s (skwlog_reopen clk b s1)"
proof -
  assume r: "snoop_rotated s s1"
  then have "cplog_step s1 (skwlog_reopen clk b s1)"
    by (simp add: snoop_rotated_def skwlog_reopen_step snoop_ready_fsD)
  note st = cplog_stepD [OF this]
  have "skwlog_files s1 = skwlog_files s"
    using r by (simp add: snoop_rotated_def skwlog_files_def)
  then have "fs_keeps (snoop_files s \<union> skwlog_files s) (fs s1) (fs (skwlog_reopen clk b s1))"
    using fs_keeps_mono [OF st(10)] by simp
  moreover have "fs_keeps (snoop_files s \<union> skwlog_files s) (fs s) (fs s1)" "snoop_ready s1"
    using r by (simp_all add: snoop_rotated_def)
  ultimately have "fs_keeps (snoop_files s \<union> skwlog_files s) (fs s) (fs (skwlog_reopen clk b s1))"
    "snoop_ready (skwlog_reopen clk b s1)"
    by (blast intro: fs_keeps_trans skwlog_reopen_ready)+
  then show ?thesis
    using r st(1,3,6) by (simp add: snoop_rotated_def)
qed

lemma skw_btsnoop_rotate_ready:
  assumes "snoop_ready s" "skw_btsnoop_rotate clk s = (s1, nf)"
  shows "snoop_rotated s s1"
proof -
  let ?p = "skw_btsnoop_path s" and ?P = "snoop_files s"
  note ok = snoop_ready_fsD [OF assms(1)]
  note ren = fs_keeps_then_rename [OF _ snoop_names(1)] and rem = fs_keeps_then_remove
  obtain d f1 where look: "px_look ?p (fs s) = (d, f1)" by (cases "px_look ?p (fs s)")
  have k: "fs_keeps ?P (fs s) (if 0 < d then px_close d f1 else f1)"
    using fs_keeps_mono [OF px_look_keeps(1) [OF ok(1,2) look]]
      fs_keeps_mono [OF px_look_keeps(2) [OF ok(1,2) look]] by (cases "0 < d") simp_all
  note files = snoop_rotated_files [OF assms(1)]
  show ?thesis
  proof (cases "btsnoop_save_log s")
    case False
    then show ?thesis
      using assms(2) files(1) [OF ren [OF fs_keeps_refl [OF ok(1,2)] snoop_names(2)]]
      by (auto simp: skw_btsnoop_rotate_def Let_def)
  next
    case save: True
    show ?thesis
    proof (cases "0 < d")
      case False
      with k have "fs_keeps ?P (fs s) f1" by simp
      note rest = files(1) [OF this] snoop_rotated_reopen [OF files(1) [OF this]]
      then show ?thesis
        using assms(2) save look False
        by (cases "skwlog_slice s") (auto simp: skw_btsnoop_rotate_def Let_def)
    next
      case True
      with k have k1: "fs_keeps ?P (fs s) (px_close d f1)" by simp
      obtain r f2 where rr: "px_rename ?p (btsnoop_last_path s) (px_remove (btsnoop_last_path s) (px_close d f1)) = (r, f2)"
        by (cases "px_rename ?p (btsnoop_last_path s) (px_remove (btsnoop_last_path s) (px_close d f1))")
      with ren [OF rem [OF k1 snoop_names(2)] snoop_names(2)] have "fs_keeps ?P (fs s) f2" by simp
      note moved = files(1) [OF this] snoop_rotated_reopen [OF files(1) [OF this]]
      consider (big) "skwlog_slice s" "c_int (px_size d f1) > 1024 * 1024 * 1024"
        | (small) "skwlog_slice s" "\<not> c_int (px_size d f1) > 1024 * 1024 * 1024"
        | (dated) "\<not> skwlog_slice s" by blast
      then show ?thesis
      proof cases
        case big
        then show ?thesis
          using assms(2) save look True rr moved
          by (cases "r = 0 \<and> errno f2 \<noteq> ENOENT") (auto simp: skw_btsnoop_rotate_def Let_def)
      next
        case small
        then show ?thesis
          using assms(2) save look True snoop_rotated_reopen [OF files(3) [OF k1]]
          by (auto simp: skw_btsnoop_rotate_def Let_def)
      next
        case dated
        then show ?thesis
          using assms(2) save look True files(2) [OF ren [OF k1 snoop_names(3)]] files(1) [OF k1]
          by (cases "c_int (px_size d f1) > 16") (auto simp: skw_btsnoop_rotate_def Let_def)
      qed
    qed
  qed
qed

text \<open>A step of the snoop log: its invariant holds again, and only files of the logs are touched.\<close>

definition snoop_step :: "logs \<Rightarrow> logs \<Rightarrow> bool" where
  "snoop_step s s' \<longleftrightarrow> snoop_inv s' \<and> fs_keeps (snoop_files s \<union> skwlog_files s) (fs s) (fs s') \<and>
     skw_btsnoop_path s' = skw_btsnoop_path s"

lemma snoop_step_trans: "snoop_step s t \<Longrightarrow> snoop_step t u \<Longrightarrow> snoop_step s u"
  using fs_keeps_trans by (auto simp: snoop_step_def snoop_files_def skwlog_files_def)

lemma skw_btsnoop_open_step:
  assumes "snoop_inv s"
  shows "snoop_step s (skw_btsnoop_open clk s)"
proof -
  let ?s0 = "s\<lparr>btsnoop_rev_length := 0\<rparr>"
  have refl: "fs_keeps P (fs s) (fs s)" for P
    using assms by (simp add: fs_keeps_refl snoop_inv_def snoop_ready_fsD)
  have rdy: "snoop_ready ?s0"
    using snoop_ready_keeps(3) [OF _ refl] assms by (simp add: snoop_inv_def)
  show ?thesis
  proof (cases "hci_btsnoop_fd s \<noteq> -1 \<or> \<not> btsnoop_log_en s")
    case True
    then show ?thesis
      using assms rdy refl by (auto simp: skw_btsnoop_open_def snoop_step_def snoop_inv_def)
  next
    case False
    obtain s1 nf where rot: "skw_btsnoop_rotate clk ?s0 = (s1, nf)" by fastforce
    note r = skw_btsnoop_rotate_ready [OF rdy this, unfolded snoop_rotated_def]
    show ?thesis
    proof (cases nf)
      case None
      then show ?thesis
        using r rot False
        by (auto simp: skw_btsnoop_open_eq snoop_finish_def snoop_step_def snoop_inv_def)
    next
      case (Some b)
      have fin: "snoop_inv (snoop_finish (s1, Some b))" "fs_keeps (snoop_files s1) (fs s1) (fs (snoop_finish (s1, Some b)))"
        using snoop_finish_open [of s1 b] r False by simp_all
      have "snoop_files s1 = snoop_files s"
        using r by (simp add: snoop_files_def)
      with fin(2) have "fs_keeps (snoop_files s \<union> skwlog_files s) (fs s1) (fs (snoop_finish (s1, Some b)))"
        by (auto intro: fs_keeps_mono)
      moreover have "skw_btsnoop_path (snoop_finish (s1, Some b)) = skw_btsnoop_path s1"
        by (simp add: snoop_finish_def split: prod.split)
      ultimately show ?thesis
        using r rot False Some fin(1) fs_keeps_trans by (auto simp: skw_btsnoop_open_eq snoop_step_def)
    qed
  qed
qed

lemma snoop_fd_step:
  assumes "snoop_inv s" "fs_keeps (snoop_files s) (fs s) f"
    and "hci_btsnoop_fd s \<noteq> -1 \<Longrightarrow> px_linked f (hci_btsnoop_fd s) (skw_btsnoop_path s)"
  shows "snoop_step s (s\<lparr>fs := f, btsnoop_rev_length := r\<rparr>)"
  using assms snoop_ready_keeps(3) [of s f r] fs_keeps_mono [OF assms(2)]
  by (auto simp: snoop_step_def snoop_inv_def)

lemma skw_btsnoop_close_step:
  assumes "snoop_inv s"
  shows "snoop_step s (skw_btsnoop_close s)"
proof -
  let ?f = "if hci_btsnoop_fd s \<noteq> -1 then px_close (hci_btsnoop_fd s) (fs s) else fs s"
  have rdy: "snoop_ready s"
    using assms by (simp add: snoop_inv_def)
  note ok = snoop_ready_fsD [OF rdy]
  have k: "fs_keeps (snoop_files s) (fs s) ?f"
    using assms fs_keeps_close [OF ok(1,2) _ snoop_names(1)] fs_keeps_refl [OF ok(1,2)]
    by (auto simp: snoop_inv_def)
  then show ?thesis
    using snoop_ready_keeps(4) [OF rdy k, of "-1"] fs_keeps_mono [OF k]
    by (auto simp: snoop_step_def snoop_inv_def skw_btsnoop_close_def)
qed

lemma skw_btsnoop_capture_step:
  assumes "snoop_inv s" "skw_btsnoop_capture clk packet rx s = Inr s'"
  shows "snoop_step s s'"
proof -
  have rdy: "snoop_ready s"
    using assms(1) by (simp add: snoop_inv_def)
  note ok = snoop_ready_fsD [OF rdy]
  have refl: "snoop_step s s"
    using assms(1) fs_keeps_refl [OF ok(1,2)] by (simp add: snoop_step_def)
  consider "s' = s"
    | n flags where "hci_btsnoop_fd s \<noteq> -1" "snoop_extent packet rx = Inr (Some (n, flags))" "n \<le> length packet"
    using assms(2)
    by (auto simp: skw_btsnoop_capture_def Let_def split: if_splits sum.splits option.splits)
  then show ?thesis
  proof cases
    case 1
    with refl show ?thesis by simp
  next
    case (2 n flags)
    let ?bss = "snoop_chunks (skw_btsnoop_timestamp clk) flags (take n packet)"
    let ?f = "fold (px_write (hci_btsnoop_fd s)) ?bss (fs s)"
    let ?s2 = "s\<lparr>fs := ?f, btsnoop_rev_length := btsnoop_rev_length s + of_nat n\<rparr>"
    have l: "px_linked (fs s) (hci_btsnoop_fd s) (skw_btsnoop_path s)" "btsnoop_log_en s"
      using assms(1) 2(1) by (auto simp: snoop_inv_def)
    note k = fs_keeps_writes [OF ok(1,2) l(1) snoop_names(1), of ?bss]
    have lk: "px_linked ?f (hci_btsnoop_fd s) (skw_btsnoop_path s)"
      using px.wr_all(2) [OF ok(1) l(1)] l(1) px_content_linked [OF l(1)] by auto
    note step = snoop_fd_step [OF assms(1) k lk, of "btsnoop_rev_length s + of_nat n"]
    have inv2: "snoop_inv ?s2"
      using step by (simp add: snoop_step_def)
    note close = skw_btsnoop_close_step [OF inv2]
    then have "snoop_inv (skw_btsnoop_close ?s2)"
      by (simp add: snoop_step_def)
    from snoop_step_trans [OF close skw_btsnoop_open_step [OF this]]
    have "snoop_step ?s2 (skw_btsnoop_open clk (skw_btsnoop_close ?s2))" .
    moreover have "s' = (if SNOOP_LIMIT \<le> btsnoop_rev_length ?s2
        then skw_btsnoop_open clk (skw_btsnoop_close ?s2) else ?s2)"
      using assms(2) 2 l(2) by (auto simp: skw_btsnoop_capture_def fold_snoop_write skw_btsnoop_close_def Let_def)
    ultimately show ?thesis
      using step snoop_step_trans by (simp split: if_splits)
  qed
qed

text \<open>
  C25: Every operation of the snoop log keeps the invariant of the two logs (each descriptor is
  closed or positive and writes to its own log's file) and touches no file but the two logs'; in
  particular this holds when a capture rotates the file and reopens the CP log.
\<close>

theorem snoop_operations_invariant:
  assumes "snoop_inv s"
  shows "snoop_step s (skw_btsnoop_open clk s) \<and> snoop_step s (skw_btsnoop_close s) \<and>
    (\<forall>s'. skw_btsnoop_capture clk packet rx s = Inr s' \<longrightarrow> snoop_step s s')"
  using skw_btsnoop_open_step [OF assms] skw_btsnoop_close_step [OF assms] skw_btsnoop_capture_step [OF assms]
  by blast

section \<open>An existing file\<close>


text \<open>The branches for a file that is there.\<close>

lemma snoop_look_existing:
  assumes "snoop_ready s" "px_content (fs s) (skw_btsnoop_path s) = Some c"
  obtains d f1 where "px_look (skw_btsnoop_path s) (fs s) = (d, f1)" "0 < d" "px_size d f1 = length c"
    "fs_keeps {} (fs s) (px_close d f1)" "errno (px_close d f1) = errno (fs s)"
    "px_content (px_close d f1) = px_content (fs s)"
proof -
  note ok = snoop_ready_fsD [OF assms(1)]
  obtain d f1 where look: "px_look (skw_btsnoop_path s) (fs s) = (d, f1)"
    by (cases "px_look (skw_btsnoop_path s) (fs s)")
  then have op: "px_open_read (skw_btsnoop_path s) (fs s) = (d, f1)"
    using px_look_found [OF assms(2)] by simp
  note peek = px_peek [OF ok(1-3) assms(2) op]
  show ?thesis
    by (rule that [OF look peek(1,2) px_look_keeps(1) [OF ok(1,2) look peek(1)] px_peek_errno [OF op peek(1)] peek(5)])
qed


lemma snoop_rotate_small:
  assumes "snoop_ready s" "btsnoop_save_log s" "px_content (fs s) (skw_btsnoop_path s) = Some c"
    and "if skwlog_slice s then \<not> c_int (length c) > 1024 * 1024 * 1024 else \<not> c_int (length c) > 16"
  obtains s1 where "skw_btsnoop_rotate clk s = (s1, Some (c_int (length c) \<le> 16))" "snoop_ready s1"
    "btsnoop_log_en s1 = btsnoop_log_en s" "skw_btsnoop_path s1 = skw_btsnoop_path s"
    "px_content (fs s1) (skw_btsnoop_path s) = Some c"
    "skwlog_slice s \<longrightarrow> btsnoop_rev_length s1 = word_of_int (c_int (length c))"
proof -
  from snoop_look_existing [OF assms(1,3)] obtain d f1 where look:
    "px_look (skw_btsnoop_path s) (fs s) = (d, f1)" "0 < d" "px_size d f1 = length c"
    "fs_keeps {} (fs s) (px_close d f1)" "errno (px_close d f1) = errno (fs s)"
    "px_content (px_close d f1) = px_content (fs s)" .
  have k: "fs_keeps (snoop_files s) (fs s) (px_close d f1)"
    using fs_keeps_mono [OF look(4)] by simp
  show ?thesis
  proof (cases "skwlog_slice s")
    case True
    let ?s1 = "s\<lparr>fs := px_close d f1, btsnoop_rev_length := word_of_int (c_int (length c))\<rparr>"
    let ?s2 = "skwlog_reopen clk (c_int (length c) \<le> 16) ?s1"
    have rdy: "snoop_ready ?s1"
      by (rule snoop_ready_keeps(3) [OF assms(1) k])
    have "cplog_inv ?s1"
      using rdy by (rule snoop_ready_fsD)
    note frame = skwlog_reopen_frame [OF this]
    have "px_content (fs ?s2) (skw_btsnoop_path s) = Some c"
      using skwlog_reopen_content [OF rdy, of "skw_btsnoop_path s"] assms(3) look(6) by simp
    moreover have "skw_btsnoop_rotate clk s = (?s2, Some (c_int (length c) \<le> 16))"
      using True assms(2,4) look(1-3) by (simp add: skw_btsnoop_rotate_def Let_def)
    ultimately show ?thesis
      using that skwlog_reopen_ready [OF rdy] frame by simp
  next
    case False
    let ?s1 = "s\<lparr>fs := px_close d f1\<rparr>"
    have "skw_btsnoop_rotate clk s = (?s1, Some (c_int (length c) \<le> 16))"
      using False assms(2,4) look(1-3) by (simp add: skw_btsnoop_rotate_def Let_def)
    then show ?thesis
      using that [of ?s1] snoop_ready_keeps(1) [OF assms(1) k] look(6) assms(3) False by simp
  qed
qed

text \<open>The assumptions the theorems on existing files share.\<close>

definition snoop_opening :: "logs \<Rightarrow> byte list \<Rightarrow> bool" where
  "snoop_opening s c \<longleftrightarrow> snoop_inv s \<and> hci_btsnoop_fd s = -1 \<and> btsnoop_log_en s \<and> btsnoop_save_log s \<and>
     px_content (fs s) (skw_btsnoop_path s) = Some c"

lemma snoop_opening_rotate:
  assumes "snoop_opening s c"
  shows "snoop_ready (s\<lparr>btsnoop_rev_length := 0\<rparr>)"
    "skw_btsnoop_open clk s = snoop_finish (skw_btsnoop_rotate clk (s\<lparr>btsnoop_rev_length := 0\<rparr>))"
proof -
  have "snoop_ready s" "fs_keeps (snoop_files s) (fs s) (fs s)"
    using assms by (simp_all add: snoop_opening_def snoop_inv_def fs_keeps_refl snoop_ready_fsD)
  from snoop_ready_keeps(3) [OF this] show "snoop_ready (s\<lparr>btsnoop_rev_length := 0\<rparr>)" by simp
  show "skw_btsnoop_open clk s = snoop_finish (skw_btsnoop_rotate clk (s\<lparr>btsnoop_rev_length := 0\<rparr>))"
    using assms by (simp add: skw_btsnoop_open_eq snoop_opening_def)
qed


text \<open>
  With slicing, an existing snoop file of more than 16 bytes and at most 1 GB is continued: its
  contents stay as they are, the descriptor writes to it, and the byte count starts at its size.
\<close>

theorem snoop_open_continues:
  assumes "snoop_opening s c" and "skwlog_slice s" and "16 < length c" and "length c \<le> 2 ^ 30"
  shows "px_content (fs (skw_btsnoop_open clk s)) (skw_btsnoop_path s) = Some c \<and>
    0 < hci_btsnoop_fd (skw_btsnoop_open clk s) \<and>
    unat (btsnoop_rev_length (skw_btsnoop_open clk s)) = length c"
proof -
  let ?s = "s\<lparr>btsnoop_rev_length := 0\<rparr>"
  note op = snoop_opening_rotate [OF assms(1)]
  have len: "c_int (length c) = int (length c)" "\<not> length c \<le> 16"
    using assms(3,4) by (simp_all add: c_int_small)
  have pre: "btsnoop_save_log ?s" "px_content (fs ?s) (skw_btsnoop_path ?s) = Some c"
    "if skwlog_slice ?s then \<not> c_int (length c) > 1024 * 1024 * 1024 else \<not> c_int (length c) > 16"
    "btsnoop_log_en ?s"
    using assms len by (simp_all add: snoop_opening_def)
  from snoop_rotate_small [OF op(1) pre(1-3), of clk] obtain s1 where s1:
    "skw_btsnoop_rotate clk ?s = (s1, Some (c_int (length c) \<le> 16))" "snoop_ready s1"
    "btsnoop_log_en s1 = btsnoop_log_en ?s" "skw_btsnoop_path s1 = skw_btsnoop_path ?s"
    "px_content (fs s1) (skw_btsnoop_path ?s) = Some c"
    "skwlog_slice ?s \<longrightarrow> btsnoop_rev_length s1 = word_of_int (c_int (length c))" .
  have "btsnoop_rev_length (snoop_finish (s1, Some b)) = btsnoop_rev_length s1" for b
    by (simp add: snoop_finish_def split: prod.split)
  moreover have "unat (word_of_int (int (length c)) :: u32) = length c"
    using assms(4) by (simp add: unat_of_nat_u32)
  ultimately show ?thesis
    using snoop_finish_open(2,4) [OF s1(2), of False] s1(1,3-6) pre(4) assms(2) op(2) [of clk] len by simp
qed

text \<open>
  A well-formed snoop file can be made unreadable by opening it again. If the file is there
  and its size is at most 16 (a session that captured nothing leaves just the header), or from 2 GB
  up to 4 GB (the size is read as a negative 32-bit number), the header is appended once more; a file
  that parsed does not parse any more.
\<close>

theorem snoop_open_header_again:
  assumes "snoop_opening s c" and "snoop_parse c = Some recs"
    and "length c \<le> 16 \<or> 2 ^ 31 \<le> length c \<and> length c < 2 ^ 32"
  shows "px_content (fs (skw_btsnoop_open clk s)) (skw_btsnoop_path s) = Some (c @ btsnoop_header) \<and>
    snoop_parse (c @ btsnoop_header) = None"
proof -
  let ?s = "s\<lparr>btsnoop_rev_length := 0\<rparr>"
  note op = snoop_opening_rotate [OF assms(1)]
  have len: "c_int (length c) \<le> 16"
    using assms(3) c_int_large [of "length c"] by (auto simp: c_int_small)
  have pre: "btsnoop_save_log ?s" "px_content (fs ?s) (skw_btsnoop_path ?s) = Some c"
    "if skwlog_slice ?s then \<not> c_int (length c) > 1024 * 1024 * 1024 else \<not> c_int (length c) > 16"
    "btsnoop_log_en ?s"
    using assms len by (simp_all add: snoop_opening_def)
  from snoop_rotate_small [OF op(1) pre(1-3), of clk] obtain s1 where s1:
    "skw_btsnoop_rotate clk ?s = (s1, Some (c_int (length c) \<le> 16))" "snoop_ready s1"
    "btsnoop_log_en s1 = btsnoop_log_en ?s" "skw_btsnoop_path s1 = skw_btsnoop_path ?s"
    "px_content (fs s1) (skw_btsnoop_path ?s) = Some c"
    "skwlog_slice ?s \<longrightarrow> btsnoop_rev_length s1 = word_of_int (c_int (length c))" .
  have "px_content (fs (skw_btsnoop_open clk s)) (skw_btsnoop_path s) = Some (c @ btsnoop_header)"
    using snoop_finish_open(4) [OF s1(2), of True] s1(1,3-5) pre(4) op(2) [of clk] len by simp
  moreover have "snoop_parse (c @ btsnoop_header) = None"
    using snoop_parse_extra [OF assms(2), of btsnoop_header] by (simp add: btsnoop_header_def)
  ultimately show ?thesis ..
qed

section \<open>Witnesses\<close>

text \<open>The two logs on a file system that holds a snoop file of contents \<open>c\<close> and perhaps a \<open>.last\<close> file.\<close>

definition sample_snoop :: "byte list \<Rightarrow> bool \<Rightarrow> int \<Rightarrow> logs" where
  "sample_snoop c old d =
     \<lparr>fs = \<lparr>dir = (if old then [''/d/b'' \<mapsto> 1, ''/d/b.last'' \<mapsto> 2] else [''/d/b'' \<mapsto> 1]),
            inode = (\<lambda>i. if i = 1 then c else []), next_ino = 3, fdt = [Some 0, Some 1], errno = 0,
            denied = (\<lambda>p. False)\<rparr>,
      skw_btsnoop_path = ''/d/b'', btsnoop_save_log = True, btsnoop_log_en = True, btcp_log_en = False,
      skwlog_slice = True, skwlog_fp = -1, skwlog_rev_length = 0, skwlog_cnts = 0, hci_btsnoop_fd = d,
      btsnoop_cnts = 0, btsnoop_rev_length = 0\<rparr>"

lemma sample_snoop_inv: "d = -1 \<or> d = 1 \<Longrightarrow> snoop_inv (sample_snoop c old d)"
proof -
  have "px_ok (fs (sample_snoop c old d))"
    by (rule px_okI) (auto simp: sample_snoop_def split: if_splits)
  moreover have "px_stdio (fs (sample_snoop c old d))"
    by (simp add: sample_snoop_def px_stdio_def fd_ino_def)
  moreover have "log_dir ''/d/b'' = ''/d''"
    by (simp add: log_dir_def is_separator_def eval_nat_numeral)
  then have "snoop_files (sample_snoop c old d) \<inter> skwlog_files (sample_snoop c old d) = {}"
    by (auto simp: snoop_files_def skwlog_files_def sample_snoop_def)
  moreover have "px_linked (fs (sample_snoop c old d)) 1 ''/d/b''"
    by (simp add: sample_snoop_def px_linked_def fd_ino_def)
  ultimately show "d = -1 \<or> d = 1 \<Longrightarrow> snoop_inv (sample_snoop c old d)"
    unfolding snoop_inv_def snoop_ready_def cplog_inv_def cplog_ok_def
    by (auto simp: sample_snoop_def)
qed

lemma sample_snoop_opening: "snoop_opening (sample_snoop c old (-1)) c"
  using sample_snoop_inv [of "-1" c old]
  by (simp add: snoop_opening_def) (simp add: sample_snoop_def px_content_def)

theorem snoop_captures_roundtrip_witness:
  "\<exists>s' trace rs. skw_btsnoop_captures [(sample_clock, [4, 0x0E, 1, 0, 9, 9], True), (sample_clock, [1, 3, 0x0C, 0], False)]
        (sample_snoop btsnoop_header False 1) = Inr s' \<and>
     px_content (fs s') ''/d/b'' = Some trace \<and> snoop_parse trace = Some rs \<and>
     map snoop_payload rs = [[4, 0x0E, 1, 0], [1, 3, 0x0C, 0]]"
proof -
  let ?cs = "[(sample_clock, Hci_event 0x0E [0], [9, 9 :: byte], True), (sample_clock, Hci_command 3 0x0C [], [], False)]"
  let ?s = "sample_snoop btsnoop_header False 1"
  have s: "hci_btsnoop_fd ?s \<noteq> -1" "skw_btsnoop_path ?s = ''/d/b''" "px_content (fs ?s) ''/d/b'' = Some btsnoop_header"
    by (simp_all add: sample_snoop_def px_content_def)
  have m: "\<forall>(clk, m, junk, rx) \<in> set ?cs. hci_fits m \<and> \<not> is_log m"
    by simp
  have l: "unat (btsnoop_rev_length ?s) + length (concat (map (\<lambda>(clk, m, junk, rx). hci_encode m) ?cs)) < unat SNOOP_LIMIT"
    by (simp add: sample_snoop_def SNOOP_LIMIT_def)
  have "snoop_inv ?s"
    by (rule sample_snoop_inv) simp
  from snoop_captures_roundtrip [OF this s(1) _ snoop_parse_header m l, unfolded s(2), OF s(3)]
  obtain s' trace rs where
    "skw_btsnoop_captures (map (\<lambda>(clk, m, junk, rx). (clk, hci_encode m @ junk, rx)) ?cs) ?s = Inr s'"
    "px_content (fs s') = (px_content (fs ?s))(''/d/b'' \<mapsto> trace)"
    "snoop_parse trace = Some ([] @ rs)" "map snoop_payload rs = map (\<lambda>(clk, m, junk, rx). hci_encode m) ?cs"
    by blast
  then have "skw_btsnoop_captures [(sample_clock, [4, 0x0E, 1, 0, 9, 9], True), (sample_clock, [1, 3, 0x0C, 0], False)] ?s = Inr s'"
    "px_content (fs s') ''/d/b'' = Some trace" "snoop_parse trace = Some rs"
    "map snoop_payload rs = [[4, 0x0E, 1, 0], [1, 3, 0x0C, 0]]"
    by (simp_all del: skw_btsnoop_captures.simps)
  then show ?thesis by (intro exI [of _ s'] exI [of _ trace] exI [of _ rs] conjI)
qed

theorem snoop_operations_invariant_witness:
  "snoop_step (sample_snoop [] True 1) (skw_btsnoop_close (sample_snoop [] True 1))"
  using snoop_operations_invariant [OF sample_snoop_inv [of 1 "[]" True]] by blast


theorem snoop_open_continues_witness:
  "px_content (fs (skw_btsnoop_open sample_clock (sample_snoop (replicate 40 7) False (-1)))) ''/d/b'' =
     Some (replicate 40 7)"
proof -
  let ?s = "sample_snoop (replicate 40 7) False (-1)"
  have "skwlog_slice ?s" "skw_btsnoop_path ?s = ''/d/b''"
    by (simp_all add: sample_snoop_def)
  with snoop_open_continues [OF sample_snoop_opening [of "replicate 40 7" False], of sample_clock]
  show ?thesis by simp
qed

theorem snoop_open_header_again_witness:
  "px_content (fs (skw_btsnoop_open sample_clock (sample_snoop btsnoop_header False (-1)))) ''/d/b'' =
     Some (btsnoop_header @ btsnoop_header)"
proof -
  have "skw_btsnoop_path (sample_snoop btsnoop_header False (-1)) = ''/d/b''"
    by (simp add: sample_snoop_def)
  with snoop_open_header_again [OF sample_snoop_opening [of btsnoop_header False] snoop_parse_header, of sample_clock]
  show ?thesis by simp
qed

end
