(* ===== verification/BdAddr.thy ===== *)
theory BdAddr
  imports CpLog
begin

text \<open>
  The device address (\<open>skw_gen_addr.c\<close>): the lower three bytes are made up once and kept in a file
  beside the logs; a whole address may come from the board's vendor storage.
\<close>

section \<open>Operations\<close>

record addr_src =
  bdaddr_lap :: "byte list"
  bdaddr_valid :: bool

abbreviation (input) BD_ADDR_LEN :: nat where "BD_ADDR_LEN \<equiv> 6"

definition addr_src_init :: addr_src where
  "addr_src_init = \<lparr>bdaddr_lap = [0x12, 0x24, 0x56], bdaddr_valid = True\<rparr>"

definition skw_addr_path :: "string \<Rightarrow> string" where
  "skw_addr_path snoop_path = log_dir snoop_path @ ''/skwbdaddr.txt''"

text \<open>
  \<open>skw_addr_gen_init\<close>; the three numbers are what \<open>rand\<close> returns. A read of fewer than three
  bytes leaves the others as they are.
\<close>

definition skw_addr_gen_init :: "string \<Rightarrow> nat \<times> nat \<times> nat \<Rightarrow> posix \<Rightarrow> addr_src \<Rightarrow> posix \<times> addr_src" where
  "skw_addr_gen_init snoop_path rnd f a =
     (let filepath = skw_addr_path snoop_path; (d, f1) = px_open_read filepath f in
      if d < 0 then
        let (d2, f2) = px_open_trunc filepath f1 in
        if 0 \<le> d2 then
          let (r0, r1, r2) = rnd; lap = map of_nat [r0, r1, r2]
          in (px_close d2 (px_write d2 lap f2), a\<lparr>bdaddr_lap := lap\<rparr>)
        else (f2, a\<lparr>bdaddr_valid := False\<rparr>)
      else
        let bytes = (case px_fd_content f1 d of None \<Rightarrow> [] | Some c \<Rightarrow> take 3 c)
        in (px_close d f1, a\<lparr>bdaddr_lap := overwrite (bdaddr_lap a) 0 bytes\<rparr>))"

text \<open>
  \<open>m_get_mac_address\<close>: the vendor storage is absent (\<open>None\<close>), refuses the request (\<open>Some None\<close>),
  or returns its data. The caller's array is returned with the result.
\<close>

definition m_get_mac_address :: "byte list option option \<Rightarrow> byte list \<Rightarrow> int \<times> byte list" where
  "m_get_mac_address storage local_addr =
     (case storage of
        None \<Rightarrow> (-1, local_addr)
      | Some None \<Rightarrow> (0, local_addr)
      | Some (Some data) \<Rightarrow> (0, map (\<lambda>i. data ! (BD_ADDR_LEN - 1 - i)) [0..<BD_ADDR_LEN]))"

definition skw_addr_check_valid :: "byte list \<Rightarrow> bool" where
  "skw_addr_check_valid bd_addr = (0 < (\<Sum>i \<leftarrow> [0..<BD_ADDR_LEN]. ucast (bd_addr ! i) :: u32))"

definition skw_addr_from_ap :: "byte list option option \<Rightarrow> bool \<times> byte list" where
  "skw_addr_from_ap storage =
     (let bd_addr = replicate BD_ADDR_LEN 0; (r, bd_addr1) = m_get_mac_address storage bd_addr
      in if r = 0 then (skw_addr_check_valid bd_addr1, bd_addr1) else (False, bd_addr1))"

definition skw_addr_get :: "addr_src \<Rightarrow> byte list \<Rightarrow> nat \<Rightarrow> c_fault + byte list" where
  "skw_addr_get a buffer off = (if bdaddr_valid a then store buffer off (bdaddr_lap a) else Inr buffer)"

section \<open>Properties\<close>

lemma ucast_byte_sum: "length xs \<le> 16 \<Longrightarrow>
    unat (\<Sum>b \<leftarrow> xs. ucast (b :: byte) :: u32) = (\<Sum>b \<leftarrow> xs. unat b) \<and> (\<Sum>b \<leftarrow> xs. unat b) \<le> 255 * length xs"
proof (induction xs)
  case (Cons b xs)
  then have ih: "unat (\<Sum>b \<leftarrow> xs. ucast b :: u32) = (\<Sum>b \<leftarrow> xs. unat b)"
    "(\<Sum>b \<leftarrow> xs. unat b) \<le> 255 * length xs" "length xs \<le> 15"
    by auto
  have "(\<Sum>b \<leftarrow> xs. unat b) \<le> 3825"
    using ih(2,3) by linarith
  moreover have "unat b < 256" by simp
  ultimately have "unat (ucast b :: u32) + unat (\<Sum>b \<leftarrow> xs. ucast b :: u32) < 4294967296"
    unfolding ih(1) unat_ucast_byte_u32 by linarith
  from unat_add_u32 [OF this] ih(1,2) unat_byte_le [of b] show ?case
    by (simp del: unat_byte_le)
qed simp

lemma skw_addr_check_valid_iff:
  assumes "length bd_addr = 6"
  shows "skw_addr_check_valid bd_addr \<longleftrightarrow> (\<exists>b \<in> set bd_addr. b \<noteq> 0)"
proof -
  have "map (\<lambda>i. ucast (bd_addr ! i) :: u32) [0..<6] = map ucast bd_addr"
    using assms by (intro nth_equalityI) auto
  then have "skw_addr_check_valid bd_addr \<longleftrightarrow> 0 < unat (\<Sum>b \<leftarrow> bd_addr. ucast b :: u32)"
    by (simp only: skw_addr_check_valid_def word_less_nat_alt unat_0)
  also have "\<dots> \<longleftrightarrow> (\<Sum>b \<leftarrow> bd_addr. unat b) \<noteq> 0"
    using ucast_byte_sum [of bd_addr] assms by linarith
  also have "\<dots> \<longleftrightarrow> (\<exists>b \<in> set bd_addr. b \<noteq> 0)"
    by (simp only: sum_list_eq_0_iff) (auto simp: unat_eq_zero)
  finally show ?thesis .
qed

text \<open>
  An address is taken from the board exactly when its storage answers with an address that is
  not all zero, and then it is the stored address in reverse byte order.
\<close>

theorem skw_addr_from_ap_spec:
  assumes "\<forall>data. storage = Some (Some data) \<longrightarrow> length data = 6"
  shows "(fst (skw_addr_from_ap storage) \<longleftrightarrow> (\<exists>data. storage = Some (Some data) \<and> (\<exists>b \<in> set data. b \<noteq> 0))) \<and>
    (\<forall>data. storage = Some (Some data) \<longrightarrow> snd (skw_addr_from_ap storage) = rev data)"
proof (cases "\<exists>data. storage = Some (Some data)")
  case True
  then obtain data where d: "storage = Some (Some data)" "length data = 6"
    using assms by blast
  have "map (\<lambda>i. data ! (6 - 1 - i)) [0..<6] = rev data"
    using d(2) by (intro nth_equalityI) (auto simp: rev_nth)
  then have "m_get_mac_address storage (replicate 6 0) = (0, rev data)"
    by (simp add: m_get_mac_address_def d(1))
  then show ?thesis
    using skw_addr_check_valid_iff [of "rev data"] d by (simp add: skw_addr_from_ap_def)
next
  case False
  then have "m_get_mac_address storage (replicate 6 0) = (0, replicate 6 0) \<or>
      m_get_mac_address storage (replicate 6 0) = (-1, replicate 6 0)"
    by (auto simp: m_get_mac_address_def split: option.split)
  then show ?thesis
    using False skw_addr_check_valid_iff [of "replicate 6 0"] by (auto simp: skw_addr_from_ap_def)
qed

theorem skw_addr_from_ap_spec_witness:
  "skw_addr_from_ap (Some (Some [1, 2, 3, 4, 5, 6])) = (True, [6, 5, 4, 3, 2, 1])"
proof -
  have "\<forall>data. Some (Some [1, 2, 3, 4, 5, 6 :: byte]) = Some (Some data) \<longrightarrow> length data = 6"
    by auto
  note s = skw_addr_from_ap_spec [OF this]
  from s have "snd (skw_addr_from_ap (Some (Some [1, 2, 3, 4, 5, 6]))) = [6, 5, 4, 3, 2, 1]"
    by simp
  moreover from s have "fst (skw_addr_from_ap (Some (Some [1, 2, 3, 4, 5, 6])))"
    by (metis list.set_intros(1) one_neq_zero)
  ultimately show ?thesis
    by (simp add: prod_eq_iff)
qed

lemma skw_addr_gen_init_first:
  assumes "px_ok f" "px_stdio f" "\<not> denied f (skw_addr_path p)" "px_content f (skw_addr_path p) = None"
    and "skw_addr_gen_init p (r0, r1, r2) f a = (f', a')"
  shows "bdaddr_lap a' = map of_nat [r0, r1, r2]" "px_ok f'" "px_stdio f'" "denied f' = denied f"
    "px_content f' = (px_content f)(skw_addr_path p \<mapsto> map of_nat [r0, r1, r2])"
proof -
  let ?p = "skw_addr_path p" and ?f1 = "f\<lparr>errno := ENOENT\<rparr>" and ?lap = "map of_nat [r0, r1, r2] :: byte list"
  have rd: "px_open_read ?p f = (-1, ?f1)"
    using assms(4) by (simp add: px_open_read_def px_content_def)
  obtain d f2 where op: "px_open_append ?p ?f1 = (d, f2)"
    by (cases "px_open_append ?p ?f1")
  have f1: "px_ok ?f1" "px_stdio ?f1" "\<not> denied ?f1 ?p" "px_content ?f1 ?p = None"
    using assms(1-4) by simp_all
  have d: "0 < d" "px_stdio f2" "denied f2 = denied f"
    using px_open_append_stdio [OF f1(2,3)] denied_frame(6) [of ?p ?f1] op by simp_all
  have eq: "skw_addr_gen_init p (r0, r1, r2) f a = (px_close d (px_write d ?lap f2), a\<lparr>bdaddr_lap := ?lap\<rparr>)"
    using rd op d(1) f1(4) by (simp add: skw_addr_gen_init_def Let_def px_open_trunc_missing)
  note new = px.fresh [OF f1(1,4) op order_less_imp_le [OF d(1)], of ?lap]
  show "bdaddr_lap a' = ?lap" "px_ok f'" "px_stdio f'" "denied f' = denied f"
    "px_content f' = (px_content f)(?p \<mapsto> ?lap)"
    using assms(5) eq new d by (auto simp: px_close_ok px_close_stdio px_close_content)
qed

lemma skw_addr_gen_init_again:
  assumes "px_ok f" "px_stdio f" "\<not> denied f (skw_addr_path p)" "px_content f (skw_addr_path p) = Some lap"
    and "length lap = 3" "length (bdaddr_lap a) = 3"
  shows "bdaddr_lap (snd (skw_addr_gen_init p rnd f a)) = lap"
    "px_content (fst (skw_addr_gen_init p rnd f a)) = px_content f"
proof -
  obtain d f1 where op: "px_open_read (skw_addr_path p) f = (d, f1)"
    by (cases "px_open_read (skw_addr_path p) f")
  have "0 < d" "px_fd_content f1 d = Some lap" "px_content f1 = px_content f"
    using px_open_read_stdio [OF assms(2,3)] px_open_read_fd_content [OF assms(4,3)]
      px_open_read_content [of "skw_addr_path p" f] assms(4) op by simp_all
  then show "bdaddr_lap (snd (skw_addr_gen_init p rnd f a)) = lap"
    "px_content (fst (skw_addr_gen_init p rnd f a)) = px_content f"
    using op assms(5,6) by (simp_all add: skw_addr_gen_init_def overwrite_def px_close_content)
qed

text \<open>
  C34: The made-up address is stable. If no address file exists, the first start draws three bytes
  and stores them; every later start reads back the same three bytes, whatever the defaults and the
  random numbers are then, and changes no file.
\<close>

theorem skw_addr_gen_init_stable:
  assumes "px_ok f" and "px_stdio f" and "\<not> denied f (skw_addr_path p)" and "px_content f (skw_addr_path p) = None"
    and "skw_addr_gen_init p (r0, r1, r2) f a = (f', a')" and "length (bdaddr_lap b) = 3"
  shows "bdaddr_lap a' = map of_nat [r0, r1, r2] \<and>
    bdaddr_lap (snd (skw_addr_gen_init p rnd f' b)) = bdaddr_lap a' \<and>
    px_content (fst (skw_addr_gen_init p rnd f' b)) = px_content f'"
proof -
  note f' = skw_addr_gen_init_first [OF assms(1-5)]
  have "\<not> denied f' (skw_addr_path p)" "px_content f' (skw_addr_path p) = Some (map of_nat [r0, r1, r2])"
    using assms(3) f'(4,5) by simp_all
  from skw_addr_gen_init_again [OF f'(2,3) this _ assms(6)] f'(1) show ?thesis by simp
qed

theorem skw_addr_gen_init_stable_witness:
  "bdaddr_lap (snd (skw_addr_gen_init ''/d/b'' (9, 9, 9)
      (fst (skw_addr_gen_init ''/d/b'' (1, 2, 0x103) (sample_fs ''/x'' []) addr_src_init)) addr_src_init)) = [1, 2, 3]"
proof -
  let ?f = "sample_fs ''/x'' []"
  have "px_ok ?f"
    by (rule px_okI) (auto simp: sample_fs_def split: if_splits)
  moreover have "skw_addr_path ''/d/b'' = ''/d/skwbdaddr.txt''"
    by (simp add: skw_addr_path_def log_dir_def is_separator_def eval_nat_numeral)
  moreover have "px_stdio ?f" "\<not> denied ?f p" "px_content ?f ''/d/skwbdaddr.txt'' = None" for p
    by (simp_all add: sample_fs_def px_stdio_def fd_ino_def px_content_def)
  moreover have "length (bdaddr_lap addr_src_init) = 3"
    by (simp add: addr_src_init_def)
  ultimately show ?thesis
    using skw_addr_gen_init_stable [of ?f "''/d/b''" 1 2 "0x103" addr_src_init
        "fst (skw_addr_gen_init ''/d/b'' (1, 2, 0x103) ?f addr_src_init)"
        "snd (skw_addr_gen_init ''/d/b'' (1, 2, 0x103) ?f addr_src_init)" addr_src_init "(9, 9, 9)"]
    by simp
qed

end
