(* ===== verification/HwCfg.thy ===== *)
theory HwCfg
  imports Hci BdAddr Deframe
begin

text \<open>
  The controller configuration (\<open>scomm_vendor_config_start\<close>, \<open>scomm_vendor_config_callback\<close> of
  \<open>scom_vendor.c\<close>): reset, version, download of the NV file of the chip, address, completion.
  The stack calls the callback with the event that completes the last command; the callback's
  commands, frees and results are the events of the model.
\<close>

section \<open>State\<close>

datatype hw_cfg_state =
    HW_CFG_INIT | HW_CFG_START | HW_CFG_WRITE_OS_TYPE | HW_CFG_READ_HCI_VERSION | HW_CFG_NV_SEND
  | HW_CFG_NV_SEND_CMPL | HW_CFG_WRITE_BD_ADDR | HW_RESET_CONTROLLER | HARDWARE_INIT_COMPLETE

text \<open>A file open for reading: its contents, the position, and the end-of-file indicator.\<close>

record cfile =
  cf_content :: "byte list"
  cf_pos :: nat
  cf_eof :: bool

definition c_fopen :: "byte list \<Rightarrow> cfile" where
  "c_fopen content = \<lparr>cf_content = content, cf_pos = 0, cf_eof = False\<rparr>"

definition c_fread :: "nat \<Rightarrow> cfile \<Rightarrow> byte list \<times> cfile" where
  "c_fread n f =
     (let bytes = subbuf (cf_pos f) n (cf_content f) in
      (bytes, f\<lparr>cf_pos := cf_pos f + length bytes, cf_eof := (cf_eof f \<or> length bytes < n)\<rparr>))"

definition c_fseek :: "nat \<Rightarrow> cfile \<Rightarrow> cfile" where
  "c_fseek pos f = f\<lparr>cf_pos := pos, cf_eof := False\<rparr>"

text \<open>\<open>bt_hw_cfg_cb_st\<close> and the global \<open>chip_version\<close>.\<close>

record hw_cfg =
  state :: hw_cfg_state
  file_offset :: byte
  nv_fp :: "cfile option"
  chip_version :: u16

abbreviation (input) HCI_RESET :: u16 where "HCI_RESET \<equiv> 0x0C03"
abbreviation (input) HCI_READ_LOCAL_VERSION_INFO :: u16 where "HCI_READ_LOCAL_VERSION_INFO \<equiv> 0x1001"
abbreviation (input) HCI_CMD_SKW_BT_NVDS :: u16 where "HCI_CMD_SKW_BT_NVDS \<equiv> 0xFC80"
abbreviation (input) HCI_CMD_WRITE_BD_ADDR :: u16 where "HCI_CMD_WRITE_BD_ADDR \<equiv> 0xFC82"
abbreviation (input) NV_TAG_BD_ADDR :: byte where "NV_TAG_BD_ADDR \<equiv> 0x01"
abbreviation (input) NV_FILE_RD_BLOCK_SIZE :: nat where "NV_FILE_RD_BLOCK_SIZE \<equiv> 252"
abbreviation (input) HCI_CMD_MAX_LEN :: nat where "HCI_CMD_MAX_LEN \<equiv> 258"

text \<open>
  What the callback meets: whether the stack's callbacks are set, the memory \<open>alloc\<close> returns (the
  bytes behind the buffer's header), whether \<open>xmit_cb\<close> takes the buffer, the two NV files, the
  board's vendor storage, and the made-up address.
\<close>

record cfg_env =
  cbacks :: bool
  alloc_mem :: "byte list option"
  xmit_ok :: bool
  nv_6316 :: "byte list option"
  nv_6160 :: "byte list option"
  vendor_storage :: "byte list option option"
  addr :: addr_src

text \<open>
  What the callback does to the world: the stack's buffers and callbacks, and \<open>fopen\<close> and \<open>fclose\<close> of the NV
  file, which a pointer in \<open>hw_cfg\<close> alone would not show.
\<close>

datatype cfg_event =
    Cfg_alloc
  | Cfg_fopen
  | Cfg_fclose
  | Cfg_xmit u16 "byte list"
  | Cfg_dealloc
  | Cfg_dealloc_evt
  | Cfg_result bool

section \<open>The NV file of the 6316: tagged records\<close>

text \<open>
  The packing loop: the command buffer, \<open>total_len\<close>, the file. The result is the buffer, the
  length, the file and \<open>file_end\<close>. A record cut off by the end of the file frees the buffer, and
  the code goes on to use it.
\<close>

function nv_pack :: "addr_src \<Rightarrow> byte list \<Rightarrow> nat \<Rightarrow> cfile \<Rightarrow> c_fault + byte list \<times> nat \<times> cfile \<times> bool" where
  "nv_pack a buf total_len f =
     (let (tmp_buffer, f1) = c_fread 3 f in
      if length tmp_buffer < 3 \<or> cf_eof f1 then Inr (buf, total_len, f1, True)
      else
        (case store buf (5 + total_len) tmp_buffer of
           Inl e \<Rightarrow> Inl e
         | Inr buf1 \<Rightarrow>
             let nv_param_len = unat (tmp_buffer ! 2); nv_tag = tmp_buffer ! 0 in
             if nv_param_len + total_len + 3 > 252 then Inr (buf1, total_len, c_fseek (cf_pos f) f1, False)
             else if nv_param_len > 0 then
               let (data, f2) = c_fread nv_param_len f1 in
               (case store buf1 (5 + (total_len + 3)) data of
                  Inl e \<Rightarrow> Inl e
                | Inr buf2 \<Rightarrow>
                    if length data < nv_param_len then Inl UseAfterFree
                    else
                      (case (if nv_tag = NV_TAG_BD_ADDR then skw_addr_get a buf2 (5 + (total_len + 3) + 3)
                             else Inr buf2) of
                         Inl e \<Rightarrow> Inl e
                       | Inr buf3 \<Rightarrow> nv_pack a buf3 (total_len + 3 + length data) f2))
             else nv_pack a buf1 (total_len + 3) f1))"
  by pat_completeness auto
termination
  by (relation "measure (\<lambda>(a, buf, total_len, f). length (cf_content f) - cf_pos f)")
    (auto simp: c_fread_def Let_def split: if_splits)

declare nv_pack.simps [simp del]

section \<open>One callback\<close>

text \<open>\<open>scomm_vendor_init_err\<close>, once the file is known to be open.\<close>

definition scomm_vendor_init_err :: "hw_cfg \<Rightarrow> cfg_event list \<times> hw_cfg" where
  "scomm_vendor_init_err hw = ([Cfg_dealloc, Cfg_fclose], hw\<lparr>state := HW_CFG_INIT, nv_fp := None\<rparr>)"

definition nv_packet :: "byte list \<Rightarrow> nat \<Rightarrow> byte \<Rightarrow> byte list" where
  "nv_packet buf n off = take (n + 5) (overwrite buf 2 [of_nat (n + 2), off, of_nat n])"

text \<open>The state \<open>HW_CFG_NV_SEND\<close>.\<close>

definition cfg_nv_send :: "cfg_env \<Rightarrow> byte list \<Rightarrow> hw_cfg \<Rightarrow> c_fault + cfg_event list \<times> hw_cfg" where
  "cfg_nv_send env mem hw =
     (case nv_fp hw of
        None \<Rightarrow> Inl NullDeref
      | Some f \<Rightarrow>
          let buf = overwrite mem 0 (u16_stream HCI_CMD_SKW_BT_NVDS) in
          if chip_version hw = SKW_CHIPID_6316 then
            (case nv_pack (addr env) buf 0 f of
               Inl e \<Rightarrow> Inl e
             | Inr (buf1, total_len, f1, file_end) \<Rightarrow>
                 let out = (if total_len > 0
                            then [Cfg_xmit HCI_CMD_SKW_BT_NVDS (nv_packet buf1 total_len (file_offset hw))] else []);
                     hw1 = (if total_len > 0
                            then hw\<lparr>nv_fp := Some f1, file_offset := file_offset hw + 1\<rparr>
                            else hw\<lparr>nv_fp := Some f1\<rparr>)
                 in if total_len > 0 \<and> \<not> xmit_ok env then
                      let (e, hw2) = scomm_vendor_init_err hw1 in Inr (out @ e, hw2)
                    else if file_end then Inr (out @ [Cfg_fclose], hw1\<lparr>state := HW_CFG_WRITE_BD_ADDR, nv_fp := None\<rparr>)
                    else Inr (out, hw1))
          else
            let (data, f1) = c_fread NV_FILE_RD_BLOCK_SIZE f; len = length data in
            (case store buf 5 data of
               Inl e \<Rightarrow> Inl e
             | Inr buf1 \<Rightarrow>
                 (case (if file_offset hw = 0 then skw_addr_get (addr env) buf1 (5 + 7)
                        else if file_offset hw = 1 then store buf1 (5 + 62) [buf1 ! (5 + 62) OR 0x80]
                        else Inr buf1) of
                    Inl e \<Rightarrow> Inl e
                  | Inr buf2 \<Rightarrow>
                      let out = [Cfg_xmit HCI_CMD_SKW_BT_NVDS (nv_packet buf2 len (file_offset hw))];
                          hw1 = hw\<lparr>nv_fp := Some f1, file_offset := file_offset hw + 1\<rparr>;
                          file_end = (len < NV_FILE_RD_BLOCK_SIZE \<or> len = 0 \<or> cf_eof f1);
                          (out2, hw2) = (if file_end
                                         then (out @ [Cfg_fclose], hw1\<lparr>state := HW_CFG_WRITE_BD_ADDR, nv_fp := None\<rparr>)
                                         else (out, hw1))
                      in if xmit_ok env then Inr (out2, hw2)
                         else if nv_fp hw2 = None then Inl NullDeref
                         else let (e, hw3) = scomm_vendor_init_err hw2 in Inr (out2 @ e, hw3))))"

text \<open>The version event picks the file and opens it; the flag says whether it is there.\<close>

definition cfg_read_version :: "cfg_env \<Rightarrow> byte list option \<Rightarrow> hw_cfg \<Rightarrow> c_fault + bool \<times> hw_cfg" where
  "cfg_read_version env evt hw =
     (case evt of
        None \<Rightarrow> Inl NullDeref
      | Some e \<Rightarrow>
          if length e < 9 then Inl OutOfBounds
          else
            let ver = le16 (e ! 7) (e ! 8);
                (ver1, nv_file, skip_header) =
                  (if ver = SKW_CHIPID_6316 then (ver, nv_6316 env, True) else (SKW_CHIPID_6160, nv_6160 env, False));
                hw1 = hw\<lparr>chip_version := ver1\<rparr>
            in
            (case nv_file of
               None \<Rightarrow> Inr (False, hw1\<lparr>nv_fp := None, state := HW_CFG_INIT\<rparr>)
             | Some content \<Rightarrow>
                 let f = c_fopen content in
                 Inr (True, hw1\<lparr>file_offset := 0, state := HW_CFG_NV_SEND,
                   nv_fp := Some (if skip_header then snd (c_fread 4 f) else f)\<rparr>)))"

definition cfg_complete :: "hw_cfg \<Rightarrow> cfg_event list \<times> hw_cfg" where
  "cfg_complete hw = ([Cfg_result True, Cfg_dealloc], hw\<lparr>state := HW_CFG_INIT\<rparr>)"

text \<open>The \<open>switch\<close>: the last component says whether the code reaches the end of the function.\<close>

definition cfg_switch ::
    "cfg_env \<Rightarrow> byte list \<Rightarrow> byte list option \<Rightarrow> hw_cfg \<Rightarrow> c_fault + cfg_event list \<times> hw_cfg \<times> bool" where
  "cfg_switch env mem evt hw =
     (let goes_on = map_sum id (\<lambda>(es, hw'). (es, hw', True)) in
      case state hw of
        HW_CFG_START \<Rightarrow>
          Inr ([Cfg_xmit HCI_READ_LOCAL_VERSION_INFO (u16_stream HCI_READ_LOCAL_VERSION_INFO @ [0])],
               hw\<lparr>state := HW_CFG_READ_HCI_VERSION\<rparr>, True)
      | HW_CFG_READ_HCI_VERSION \<Rightarrow>
          (case cfg_read_version env evt hw of
             Inl e \<Rightarrow> Inl e
           | Inr (False, hw1) \<Rightarrow> Inr ([Cfg_result False], hw1, False)
           | Inr (True, hw1) \<Rightarrow>
               map_sum id (\<lambda>(es, hw'). (Cfg_fopen # es, hw', True)) (cfg_nv_send env mem hw1))
      | HW_CFG_NV_SEND \<Rightarrow> goes_on (cfg_nv_send env mem hw)
      | HW_CFG_WRITE_BD_ADDR \<Rightarrow>
          let (found, bd_addr) = skw_addr_from_ap (vendor_storage env) in
          if found then
            Inr ([Cfg_xmit HCI_CMD_WRITE_BD_ADDR (u16_stream HCI_CMD_WRITE_BD_ADDR @ [6] @ bd_addr)],
                 hw\<lparr>state := HW_CFG_NV_SEND_CMPL\<rparr>, True)
          else goes_on (Inr (cfg_complete hw))
      | HW_CFG_NV_SEND_CMPL \<Rightarrow> goes_on (Inr (cfg_complete hw))
      | _ \<Rightarrow> Inr ([], hw, True))"

text \<open>\<open>scomm_vendor_config_callback\<close>.\<close>

definition scomm_vendor_config_callback ::
    "cfg_env \<Rightarrow> byte list option \<Rightarrow> hw_cfg \<Rightarrow> c_fault + cfg_event list \<times> hw_cfg" where
  "scomm_vendor_config_callback env evt hw =
     (let free = (if cbacks env \<and> evt \<noteq> None then [Cfg_dealloc_evt] else []) in
      if evt \<noteq> None \<and> length (the evt) < 6 then Inl OutOfBounds
      else
        let status = (case evt of None \<Rightarrow> 0 | Some e \<Rightarrow> e ! 5) in
        if status = 0 \<and> cbacks env then
          (case alloc_mem env of
             None \<Rightarrow> Inr (free, hw)
           | Some mem \<Rightarrow>
               (case cfg_switch env mem evt hw of
                  Inl e \<Rightarrow> Inl e
                | Inr (es, hw1, to_end) \<Rightarrow> Inr (Cfg_alloc # es @ (if to_end then free else []), hw1)))
        else Inr (free, hw))"

text \<open>
  \<open>scomm_vendor_config_start\<close>. The \<open>memset\<close> forgets a file that is still open; no \<open>fclose\<close> is done.
\<close>

definition hw_cfg_zero :: "u16 \<Rightarrow> hw_cfg" where
  "hw_cfg_zero ver = \<lparr>state = HW_CFG_INIT, file_offset = 0, nv_fp = None, chip_version = ver\<rparr>"

definition scomm_vendor_config_start :: "cfg_env \<Rightarrow> hw_cfg \<Rightarrow> cfg_event list \<times> hw_cfg" where
  "scomm_vendor_config_start env hw =
     (let hw0 = hw_cfg_zero (chip_version hw) in
      if cbacks env \<and> alloc_mem env \<noteq> None
      then ([Cfg_alloc, Cfg_xmit HCI_RESET (u16_stream HCI_RESET @ [0])], hw0\<lparr>state := HW_CFG_START\<rparr>)
      else ([], hw0))"

section \<open>The command buffer\<close>

lemma subbuf_list_update:
  "off \<le> k \<Longrightarrow> subbuf off n (buf[k := x]) = (subbuf off n buf)[k - off := x]"
  by (simp add: subbuf_def drop_update_swap take_update_swap)

lemma overwrite_1: "k < length buf \<Longrightarrow> overwrite buf k [x] = buf[k := x]"
  by (simp add: overwrite_def upd_conv_take_nth_drop)

lemma overwrite_Cons: "k < length buf \<Longrightarrow> overwrite buf k (x # bs) = overwrite (buf[k := x]) (Suc k) bs"
  by (simp add: overwrite_def take_Suc_conv_app_nth)

lemma overwrite_3:
  "k + 3 \<le> length buf \<Longrightarrow> overwrite buf k [x, y, z] = buf[k := x, Suc k := y, Suc (Suc k) := z]"
  by (simp add: overwrite_Cons)

lemma nv_packet_eq:
  "n + 5 \<le> length buf \<Longrightarrow> nv_packet buf n off = take 2 buf @ [of_nat (n + 2), off, of_nat n] @ subbuf 5 n buf"
proof -
  assume n: "n + 5 \<le> length buf"
  have "take (n + 5) (take 2 buf @ [of_nat (n + 2), off, of_nat n] @ drop 5 buf) =
      take 2 buf @ [of_nat (n + 2), off, of_nat n] @ take n (drop 5 buf)"
    using n by (simp add: min_def numeral_eq_Suc)
  then show ?thesis
    using n by (simp add: nv_packet_def overwrite_def subbuf_def)
qed

text \<open>What the code puts in front of the \<open>n\<close> bytes of NV data.\<close>

definition nv_command :: "byte \<Rightarrow> byte list \<Rightarrow> byte list" where
  "nv_command off payload =
     u16_stream HCI_CMD_SKW_BT_NVDS @ [of_nat (length payload + 2), off, of_nat (length payload)] @ payload"

lemma nv_packet_command:
  "n + 5 \<le> length buf \<Longrightarrow> take 2 buf = u16_stream HCI_CMD_SKW_BT_NVDS \<Longrightarrow> subbuf 5 n buf = payload \<Longrightarrow>
   nv_packet buf n off = nv_command off payload"
  by (auto simp: nv_packet_eq nv_command_def)

section \<open>The file of the 6160: blocks\<close>

text \<open>One block: the address goes into the first, a flag into the second.\<close>

definition nv6160_block :: "addr_src \<Rightarrow> byte \<Rightarrow> byte list \<Rightarrow> byte list" where
  "nv6160_block a off block =
     (if off = 0 then
        (if bdaddr_valid a
         then block[7 := bdaddr_lap a ! 0, 8 := bdaddr_lap a ! 1, 9 := bdaddr_lap a ! 2] else block)
      else if off = 1 then block[62 := block ! 62 OR 0x80]
      else block)"

lemma list_of_3: "length xs = 3 \<Longrightarrow> xs = [xs ! 0, xs ! 1, xs ! 2]"
  by (rule nth_equalityI) (auto simp: less_Suc_eq numeral_eq_Suc)

text \<open>The environment of a callback that goes well.\<close>

definition env_good :: "addr_src \<Rightarrow> cfg_env \<Rightarrow> byte list \<Rightarrow> bool" where
  "env_good a env mem \<longleftrightarrow> cbacks env \<and> alloc_mem env = Some mem \<and> length mem = HCI_CMD_MAX_LEN \<and> xmit_ok env \<and>
     addr env = a \<and> length (bdaddr_lap a) = 3"

lemma cmd_prefix: "2 \<le> length mem \<Longrightarrow> take 2 (overwrite mem 0 (u16_stream w)) = u16_stream w"
  by (simp add: overwrite_def u16_stream_def)

lemma nv6160_patch:
  assumes "length buf1 = 258" "take 2 buf1 = u16_stream HCI_CMD_SKW_BT_NVDS" "subbuf 5 (length block) buf1 = block"
    and "length block \<le> 252" "length (bdaddr_lap a) = 3"
  obtains buf2 where "(if off = 0 then skw_addr_get a buf1 (5 + 7)
      else if off = 1 then store buf1 (5 + 62) [buf1 ! (5 + 62) OR 0x80] else Inr buf1) = Inr buf2"
    "nv_packet buf2 (length block) off = nv_command off (nv6160_block a off block)"
proof -
  obtain l0 l1 l2 where lap: "bdaddr_lap a = [l0, l1, l2]"
    using assms(5) list_of_3 by blast
  let ?n = "length block"
  have same: "length (nv6160_block a off block) = ?n"
    by (simp add: nv6160_block_def)
  have pk: "nv_packet b ?n off = nv_command off (nv6160_block a off block)"
    if "length b = 258" "take 2 b = take 2 buf1" "subbuf 5 ?n b = nv6160_block a off block" for b
    using nv_packet_command [of ?n b "nv6160_block a off block" off] that assms(2,4) by simp
  consider "off = 0" "bdaddr_valid a" | "off = 0" "\<not> bdaddr_valid a" | "off = 1" | "off \<noteq> 0" "off \<noteq> 1"
    by blast
  then show ?thesis
  proof cases
    case 1
    show ?thesis
      by (intro that [of "buf1[12 := l0, 13 := l1, 14 := l2]"] pk, use 1 assms lap in
          \<open>simp_all add: skw_addr_get_def store_def overwrite_3 subbuf_list_update nv6160_block_def\<close>)
  next
    case 2
    show ?thesis
      by (intro that [of buf1] pk, use 2 assms in \<open>simp_all add: skw_addr_get_def nv6160_block_def\<close>)
  next
    case 3
    have "block[62 := buf1 ! 67 OR 0x80] = block[62 := block ! 62 OR 0x80]"
    proof (cases "62 < ?n")
      case True
      then have "buf1 ! 67 = block ! 62"
        using nth_subbuf [of 62 ?n 5 buf1] assms(1,3,4) by simp
      then show ?thesis by simp
    next
      case False
      then show ?thesis by (simp add: list_update_beyond)
    qed
    then show ?thesis
      by (intro that [of "buf1[67 := buf1 ! 67 OR 0x80]"] pk, use 3 assms in
          \<open>simp_all add: store_def overwrite_1 subbuf_list_update nv6160_block_def\<close>)
  next
    case 4
    show ?thesis
      by (intro that [of buf1] pk, use 4 assms in \<open>simp_all add: nv6160_block_def\<close>)
  qed
qed

lemma cfg_nv_send_6160:
  assumes "env_good a env mem" "nv_fp hw = Some f" "\<not> cf_eof f" "chip_version hw \<noteq> SKW_CHIPID_6316"
    and block: "block = subbuf (cf_pos f) 252 (cf_content f)"
  shows "cfg_nv_send env mem hw =
    Inr (Cfg_xmit HCI_CMD_SKW_BT_NVDS (nv_command (file_offset hw) (nv6160_block a (file_offset hw) block)) #
           (if length block < 252 then [Cfg_fclose] else []),
         if length block < 252
         then hw\<lparr>file_offset := file_offset hw + 1, state := HW_CFG_WRITE_BD_ADDR, nv_fp := None\<rparr>
         else hw\<lparr>file_offset := file_offset hw + 1, nv_fp := Some (f\<lparr>cf_pos := cf_pos f + 252\<rparr>)\<rparr>)"
proof -
  note env = assms(1) [unfolded env_good_def]
  let ?n = "length block" and ?off = "file_offset hw"
  let ?buf = "overwrite mem 0 (u16_stream HCI_CMD_SKW_BT_NVDS)"
  let ?buf1 = "overwrite ?buf 5 block"
  have n: "?n \<le> 252" by (simp add: block)
  have len: "length ?buf = 258" "length ?buf1 = 258"
    using env n by simp_all
  have b1: "take 2 ?buf1 = u16_stream HCI_CMD_SKW_BT_NVDS" "subbuf 5 ?n ?buf1 = block"
    using env n by (simp_all add: buf_simps cmd_prefix)
  have lap: "length (bdaddr_lap a) = 3" using env by simp
  from nv6160_patch [OF len(2) b1 n lap, of ?off] obtain buf2 where b2:
    "(if ?off = 0 then skw_addr_get a ?buf1 (5 + 7)
      else if ?off = 1 then store ?buf1 (5 + 62) [?buf1 ! (5 + 62) OR 0x80] else Inr ?buf1) = Inr buf2"
    "nv_packet buf2 ?n ?off = nv_command ?off (nv6160_block a ?off block)" .
  have rd: "c_fread 252 f = (block, f\<lparr>cf_pos := cf_pos f + ?n, cf_eof := ?n < 252\<rparr>)"
    using assms(3) block by (simp add: c_fread_def Let_def)
  have w: "store ?buf 5 block = Inr ?buf1"
    using len n by (simp add: store_def)
  have ae: "addr env = a" and xm: "xmit_ok env" using env by simp_all
  have nv: "cfg_nv_send env mem hw =
    (let hw1 = hw\<lparr>nv_fp := Some (f\<lparr>cf_pos := cf_pos f + ?n, cf_eof := ?n < 252\<rparr>), file_offset := ?off + 1\<rparr>;
         out = [Cfg_xmit HCI_CMD_SKW_BT_NVDS (nv_command ?off (nv6160_block a ?off block))]
     in Inr (if ?n < 252 \<or> ?n = 0 \<or> ?n < 252
             then (out @ [Cfg_fclose], hw1\<lparr>state := HW_CFG_WRITE_BD_ADDR, nv_fp := None\<rparr>) else (out, hw1)))"
    unfolding cfg_nv_send_def assms(2) option.case rd Let_def prod.case w sum.case
      if_not_P [OF assms(4)] ae b2
    by (simp add: xm case_prod_unfold)
  have "?n = 252 \<or> ?n < 252" using n by linarith
  then show ?thesis
    unfolding nv Let_def using assms(3) by auto
qed

section \<open>Runs\<close>

text \<open>A sequence of callbacks, each with what it meets and the event it gets.\<close>

fun cfg_run :: "(cfg_env \<times> byte list option) list \<Rightarrow> hw_cfg \<Rightarrow> c_fault + cfg_event list \<times> hw_cfg" where
  "cfg_run [] hw = Inr ([], hw)"
| "cfg_run ((env, evt) # cs) hw =
     (case scomm_vendor_config_callback env evt hw of
        Inl e \<Rightarrow> Inl e
      | Inr (es, hw1) \<Rightarrow> map_sum id (\<lambda>(es', hw'). (es @ es', hw')) (cfg_run cs hw1))"

text \<open>
  The commands sent, the results reported, how many command buffers are not accounted for, and how many
  more files were opened than closed.
\<close>

fun cfg_sent :: "cfg_event list \<Rightarrow> byte list list" where
  "cfg_sent [] = []"
| "cfg_sent (Cfg_xmit _ p # es) = p # cfg_sent es"
| "cfg_sent (_ # es) = cfg_sent es"

fun cfg_results :: "cfg_event list \<Rightarrow> bool list" where
  "cfg_results [] = []"
| "cfg_results (Cfg_result b # es) = b # cfg_results es"
| "cfg_results (_ # es) = cfg_results es"

fun cfg_held :: "cfg_event list \<Rightarrow> int" where
  "cfg_held [] = 0"
| "cfg_held (Cfg_alloc # es) = cfg_held es + 1"
| "cfg_held (Cfg_xmit _ _ # es) = cfg_held es - 1"
| "cfg_held (Cfg_dealloc # es) = cfg_held es - 1"
| "cfg_held (_ # es) = cfg_held es"

fun cfg_files :: "cfg_event list \<Rightarrow> int" where
  "cfg_files [] = 0"
| "cfg_files (Cfg_fopen # es) = cfg_files es + 1"
| "cfg_files (Cfg_fclose # es) = cfg_files es - 1"
| "cfg_files (_ # es) = cfg_files es"

lemma cfg_sent_append [simp]: "cfg_sent (a @ b) = cfg_sent a @ cfg_sent b"
  by (induction a rule: cfg_sent.induct) auto

lemma cfg_results_append [simp]: "cfg_results (a @ b) = cfg_results a @ cfg_results b"
  by (induction a rule: cfg_results.induct) auto

lemma cfg_held_append [simp]: "cfg_held (a @ b) = cfg_held a + cfg_held b"
  by (induction a rule: cfg_held.induct) auto

lemma cfg_files_append [simp]: "cfg_files (a @ b) = cfg_files a + cfg_files b"
  by (induction a rule: cfg_files.induct) auto

text \<open>A call that goes well: memory, a transport that takes the command, and a success event.\<close>

fun call_good :: "addr_src \<Rightarrow> cfg_env \<times> byte list option \<Rightarrow> bool" where
  "call_good a (env, evt) =
     (case (alloc_mem env, evt) of
        (Some mem, Some e) \<Rightarrow> cbacks env \<and> length mem = HCI_CMD_MAX_LEN \<and> xmit_ok env \<and> addr env = a \<and>
          length (bdaddr_lap a) = 3 \<and> 6 \<le> length e \<and> e ! 5 = 0
      | _ \<Rightarrow> False)"

lemma call_good_callback:
  assumes "call_good a (env, evt)" "state hw = HW_CFG_NV_SEND"
  obtains mem where "env_good a env mem"
    "\<And>es hw'. cfg_nv_send env mem hw = Inr (es, hw') \<Longrightarrow>
       scomm_vendor_config_callback env evt hw = Inr (Cfg_alloc # es @ [Cfg_dealloc_evt], hw')"
proof -
  from assms(1) obtain mem e where me: "alloc_mem env = Some mem" "evt = Some e"
    by (cases "alloc_mem env"; cases evt) auto
  show ?thesis
    by (rule that [of mem]) (use assms me in
        \<open>auto simp: env_good_def scomm_vendor_config_callback_def cfg_switch_def Let_def\<close>)
qed

text \<open>The blocks of the file of the 6160: all of 252 bytes but the last, which is shorter.\<close>

function nv_blocks :: "byte list \<Rightarrow> byte list list" where
  "nv_blocks xs = (if length xs < 252 then [xs] else take 252 xs # nv_blocks (drop 252 xs))"
  by pat_completeness auto
termination
  by (relation "measure length") auto

declare nv_blocks.simps [simp del]

fun nv6160_commands :: "addr_src \<Rightarrow> byte \<Rightarrow> byte list list \<Rightarrow> byte list list" where
  "nv6160_commands a off [] = []"
| "nv6160_commands a off (b # bs) = nv_command off (nv6160_block a off b) # nv6160_commands a (off + 1) bs"

lemma concat_nv_blocks: "concat (nv_blocks xs) = xs"
proof (induction xs rule: nv_blocks.induct)
  case (1 xs)
  then show ?case by (subst nv_blocks.simps) auto
qed

lemma cfg_run_6160:
  assumes "\<forall>c \<in> set cs. call_good a c" "state hw = HW_CFG_NV_SEND" "chip_version hw \<noteq> SKW_CHIPID_6316"
    and "nv_fp hw = Some f" "\<not> cf_eof f" "length cs = length (nv_blocks (drop (cf_pos f) (cf_content f)))"
  shows "\<exists>es hw'. cfg_run cs hw = Inr (es, hw') \<and> state hw' = HW_CFG_WRITE_BD_ADDR \<and> nv_fp hw' = None \<and>
    cfg_sent es = nv6160_commands a (file_offset hw) (nv_blocks (drop (cf_pos f) (cf_content f))) \<and>
    cfg_results es = [] \<and> cfg_held es = 0 \<and> cfg_files es = - 1"
  using assms
proof (induction cs arbitrary: hw f)
  case Nil
  then show ?case by (subst (asm) nv_blocks.simps) (auto split: if_splits)
next
  case (Cons c cs)
  obtain env evt where c: "c = (env, evt)" by (cases c)
  let ?rest = "drop (cf_pos f) (cf_content f)"
  let ?b = "subbuf (cf_pos f) 252 (cf_content f)"
  have "call_good a (env, evt)" using Cons.prems(1) c by simp
  from call_good_callback [OF this Cons.prems(2)] obtain mem where mem: "env_good a env mem"
    "\<And>es hw'. cfg_nv_send env mem hw = Inr (es, hw') \<Longrightarrow>
       scomm_vendor_config_callback env evt hw = Inr (Cfg_alloc # es @ [Cfg_dealloc_evt], hw')" by blast
  note send = mem(2) [OF cfg_nv_send_6160 [OF mem(1) Cons.prems(4,5,3) refl]]
  show ?case
  proof (cases "length ?b < 252")
    case True
    then have "nv_blocks ?rest = [?b]"
      by (subst nv_blocks.simps) (auto simp: subbuf_def)
    with True send Cons.prems(6) c show ?thesis by simp
  next
    case False
    then have blocks: "nv_blocks ?rest = ?b # nv_blocks (drop (cf_pos f + 252) (cf_content f))"
      by (subst nv_blocks.simps) (auto simp: subbuf_def add.commute)
    let ?hw = "hw\<lparr>file_offset := file_offset hw + 1, nv_fp := Some (f\<lparr>cf_pos := cf_pos f + 252\<rparr>)\<rparr>"
    have "\<exists>es hw'. cfg_run cs ?hw = Inr (es, hw') \<and> state hw' = HW_CFG_WRITE_BD_ADDR \<and> nv_fp hw' = None \<and>
      cfg_sent es = nv6160_commands a (file_offset ?hw) (nv_blocks (drop (cf_pos f + 252) (cf_content f))) \<and>
      cfg_results es = [] \<and> cfg_held es = 0 \<and> cfg_files es = - 1"
      using Cons.IH [of ?hw "f\<lparr>cf_pos := cf_pos f + 252\<rparr>"] Cons.prems blocks by simp
    with send False blocks c show ?thesis by auto
  qed
qed

section \<open>The file of the 6316: records\<close>

text \<open>A record is a tag, a type and a length byte, and that many bytes.\<close>

definition nv_need :: "byte list \<Rightarrow> nat option" where
  "nv_need xs = (if 3 \<le> length xs then Some (3 + unat (xs ! 2)) else None)"

interpretation nv: frame_format nv_need
proof
  show "0 < n" if "nv_need xs = Some n" for xs n
    using that by (auto simp: nv_need_def split: if_splits)
  show "nv_need (xs @ ys) = Some n" if "nv_need xs = Some n" for xs ys n
    using that by (auto simp: nv_need_def nth_append split: if_splits)
  show "nv_need (take n xs) = Some n" if "nv_need xs = Some n" "n \<le> length xs" for xs n
    using that by (auto simp: nv_need_def split: if_splits)
qed

text \<open>
  A record the packing handles: it fits into one command, and an address record has at least the
  six bytes of an address. What the code makes of it: the made-up bytes go into the \<^emph>\<open>last\<close> three
  of the six.
\<close>

definition nv_record :: "byte list \<Rightarrow> bool" where
  "nv_record r \<longleftrightarrow> nv_need r = Some (length r) \<and> length r \<le> 252 \<and> (r ! 0 = NV_TAG_BD_ADDR \<longrightarrow> 9 \<le> length r)"

definition nv_patch :: "addr_src \<Rightarrow> byte list \<Rightarrow> byte list" where
  "nv_patch a r =
     (if r ! 0 = NV_TAG_BD_ADDR \<and> bdaddr_valid a
      then r[6 := bdaddr_lap a ! 0, 7 := bdaddr_lap a ! 1, 8 := bdaddr_lap a ! 2] else r)"

lemma length_nv_patch [simp]: "length (nv_patch a r) = length r"
  by (simp add: nv_patch_def)

text \<open>The records of one command, behind \<open>t\<close> bytes, and those left; the commands of a whole file.\<close>

fun nv_group :: "nat \<Rightarrow> byte list list \<Rightarrow> byte list list \<times> byte list list" where
  "nv_group t [] = ([], [])"
| "nv_group t (r # rs) =
     (if 252 < t + length r then ([], r # rs)
      else (r # fst (nv_group (t + length r) rs), snd (nv_group (t + length r) rs)))"

lemma nv_group_append: "fst (nv_group t rs) @ snd (nv_group t rs) = rs"
  by (induction t rs rule: nv_group.induct) auto

lemma nv_group_length: "length (fst (nv_group t rs)) + length (snd (nv_group t rs)) = length rs"
  by (metis nv_group_append length_append)

function nv_groups :: "byte list list \<Rightarrow> byte list list list" where
  "nv_groups rs =
     (if fst (nv_group 0 rs) = [] then []
      else fst (nv_group 0 rs) # nv_groups (snd (nv_group 0 rs)))"
  by pat_completeness auto
termination
proof (relation "measure length")
  show "(snd (nv_group 0 rs), rs) \<in> measure length" if "fst (nv_group 0 rs) \<noteq> []" for rs
    using nv_group_length [of 0 rs] that by (cases "fst (nv_group 0 rs)") auto
qed simp

declare nv_groups.simps [simp del]

lemma nv_record_shape:
  assumes "nv_record r"
  shows "3 \<le> length r" "length r = 3 + unat (r ! 2)" "length r \<le> 252"
  using assms by (auto simp: nv_record_def nv_need_def split: if_splits)

text \<open>
  What a call of the packing loop does: it appends the patched records of one group. The header of
  the record that does not fit is copied before it is measured, so it has to fit into the buffer.
\<close>

lemma c_fread_front:
  assumes "drop (cf_pos f) (cf_content f) = xs @ ys" "n = length xs" "\<not> cf_eof f"
  shows "c_fread n f = (xs, f\<lparr>cf_pos := cf_pos f + n\<rparr>)"
  using assms by (simp add: c_fread_def subbuf_def)

lemma nv_patch_stored:
  assumes "length buf = 258" "subbuf off (length r) buf = r" "nv_record r" "off + length r \<le> 257"
    and "length (bdaddr_lap a) = 3"
  obtains buf' where "(if r ! 0 = NV_TAG_BD_ADDR then skw_addr_get a buf (off + 6) else Inr buf) = Inr buf'"
    "length buf' = 258" "take (off + length r) buf' = take off buf @ nv_patch a r"
proof -
  have plain: "take (off + length r) buf = take off buf @ r"
    using assms(2) by (metis take_append_subbuf)
  show ?thesis
  proof (cases "r ! 0 = NV_TAG_BD_ADDR \<and> bdaddr_valid a")
    case True
    obtain l0 l1 l2 where lap: "bdaddr_lap a = [l0, l1, l2]"
      using assms(5) list_of_3 by blast
    have r9: "9 \<le> length r" using True assms(3) by (simp add: nv_record_def)
    let ?b = "buf[off + 6 := l0, off + 7 := l1, off + 8 := l2]"
    have "take (off + length r) ?b = take off ?b @ subbuf off (length r) ?b"
      by (rule take_append_subbuf [symmetric])
    also have "\<dots> = take off buf @ nv_patch a r"
      using True lap assms(2) by (simp add: subbuf_list_update nv_patch_def)
    finally show ?thesis
      using that [of ?b] True lap assms(1,4) r9
      by (simp add: skw_addr_get_def store_def overwrite_3 numeral_eq_Suc)
  next
    case False
    then show ?thesis
      using that [of buf] assms(1) plain by (auto simp: skw_addr_get_def nv_patch_def)
  qed
qed

text \<open>One record that fits.\<close>

lemma nv_pack_record:
  assumes "length buf = 258" "length (bdaddr_lap a) = 3" "\<not> cf_eof f" "nv_record r"
    and "drop (cf_pos f) (cf_content f) = r @ rest" "t + length r \<le> 252"
  obtains buf' where "nv_pack a buf t f = nv_pack a buf' (t + length r) (f\<lparr>cf_pos := cf_pos f + length r\<rparr>)"
    "length buf' = 258" "take (5 + t + length r) buf' = take (5 + t) buf @ nv_patch a r"
proof -
  note shape = nv_record_shape [OF assms(4)]
  let ?h = "take 3 r" and ?d = "drop 3 r" and ?n = "unat (r ! 2)"
  let ?f1 = "f\<lparr>cf_pos := cf_pos f + 3\<rparr>"
  have front: "drop (cf_pos f) (cf_content f) = ?h @ (?d @ rest)"
    using assms(5) by simp
  have h: "length ?h = 3" "?h ! 2 = r ! 2" "?h ! 0 = r ! 0" "length ?d = ?n"
    using shape by simp_all
  have rd: "c_fread 3 f = (?h, ?f1)"
    using c_fread_front [OF front _ assms(3), of 3] h(1) by simp
  let ?b1 = "overwrite buf (5 + t) ?h"
  have w1: "store buf (5 + t) ?h = Inr ?b1"
    using assms(1,6) shape(1) by (simp add: store_def)
  have b1: "length ?b1 = 258" "take (5 + t + 3) ?b1 = take (5 + t) buf @ ?h"
    using assms(1,6) shape(1) take_overwrite_append [of "5 + t" ?h buf] by simp_all
  show ?thesis
  proof (cases "?n = 0")
    case True
    then have r3: "length r = 3" "?h = r" using shape(1,2) by simp_all
    then have "nv_patch a r = r"
      using assms(4) by (auto simp: nv_record_def nv_patch_def)
    moreover have "nv_pack a buf t f = nv_pack a ?b1 (t + 3) ?f1"
      using rd w1 h assms(3,6) r3(1) True by (subst nv_pack.simps) (simp add: Let_def)
    ultimately show ?thesis
      using that [of ?b1] b1 r3 by simp
  next
    case False
    let ?f2 = "f\<lparr>cf_pos := cf_pos f + (3 + ?n)\<rparr>"
    have "drop 3 (drop (cf_pos f) (cf_content f)) = ?d @ rest"
      unfolding front using h(1) by simp
    then have "drop (cf_pos ?f1) (cf_content ?f1) = ?d @ rest"
      by (simp add: add.commute)
    from c_fread_front [OF this, of ?n] have rd2: "c_fread ?n ?f1 = (?d, ?f2)"
      using h(4) assms(3) shape(2) by (simp add: add.assoc)
    let ?b2 = "overwrite ?b1 (5 + (t + 3)) ?d"
    have w2: "store ?b1 (5 + (t + 3)) ?d = Inr ?b2"
      using b1(1) h(4) shape(2) assms(6) by (simp add: store_def)
    have lb: "5 + (t + 3) + length ?d \<le> length ?b1"
      using b1(1) h(4) shape(2) assms(6) by simp
    have "take (5 + (t + 3) + length ?d) ?b2 = take (5 + (t + 3)) ?b1 @ ?d"
      by (rule take_overwrite_append [OF lb])
    also have "\<dots> = take (5 + t) buf @ r"
      using b1(2) by (simp add: add.assoc)
    finally have t2: "take (5 + t + length r) ?b2 = take (5 + t) buf @ r"
      using h(4) shape(2) by (simp add: add.assoc add.commute add.left_commute)
    then have "subbuf (5 + t) (length r) ?b2 = r" "take (5 + t) ?b2 = take (5 + t) buf"
      using assms(1,6) append_eq_append_conv [of "take (5 + t) ?b2" "take (5 + t) buf"]
        take_append_subbuf [of "5 + t" ?b2 "length r"] b1(1) lb by simp_all
    note sub = this
    have "length ?b2 = 258" "5 + t + length r \<le> 257"
      using lb b1(1) assms(6) by simp_all
    from nv_patch_stored [OF this(1) sub(1) assms(4) this(2) assms(2)] obtain b3 where b3:
      "(if r ! 0 = NV_TAG_BD_ADDR then skw_addr_get a ?b2 (5 + t + 6) else Inr ?b2) = Inr b3"
      "length b3 = 258" "take (5 + t + length r) b3 = take (5 + t) ?b2 @ nv_patch a r" .
    have b3': "(if r ! 0 = NV_TAG_BD_ADDR then skw_addr_get a ?b2 (5 + (t + 3) + 3) else Inr ?b2) = Inr b3"
    proof -
      have "5 + (t + 3) + 3 = 5 + t + 6" by simp
      then show ?thesis using b3(1) by (simp only:)
    qed
    have "nv_pack a buf t f =
      (case Inr b3 of Inl e \<Rightarrow> Inl e | Inr buf3 \<Rightarrow> nv_pack a buf3 (t + 3 + length ?d) ?f2)"
      unfolding b3' [symmetric]
      using rd w1 h assms(3,6) False rd2 w2 shape(2) by (subst nv_pack.simps) (simp add: Let_def)
    then show ?thesis
      using that [of b3] b3(2,3) sub(2) h(4) shape(2) by (simp add: add.assoc)
  qed
qed

lemma nv_pack_group:
  assumes "length buf = 258" "length (bdaddr_lap a) = 3" "\<not> cf_eof f"
    and "drop (cf_pos f) (cf_content f) = concat rs" "\<forall>r \<in> set rs. nv_record r" "t \<le> 252"
    and "snd (nv_group t rs) \<noteq> [] \<longrightarrow> t + length (concat (fst (nv_group t rs))) \<le> 250"
  shows "\<exists>buf' f'. nv_pack a buf t f =
      Inr (buf', t + length (concat (fst (nv_group t rs))), f', snd (nv_group t rs) = []) \<and> length buf' = 258 \<and>
    take (5 + t + length (concat (fst (nv_group t rs)))) buf' =
      take (5 + t) buf @ concat (map (nv_patch a) (fst (nv_group t rs))) \<and>
    (snd (nv_group t rs) \<noteq> [] \<longrightarrow> f' = f\<lparr>cf_pos := cf_pos f + length (concat (fst (nv_group t rs)))\<rparr>)"
  using assms
proof (induction rs arbitrary: buf t f)
  case Nil
  then have "c_fread 3 f = ([], f\<lparr>cf_eof := True\<rparr>)"
    by (simp add: c_fread_def subbuf_def)
  then show ?case
    by (subst nv_pack.simps) (simp add: Nil)
next
  case (Cons r rs)
  have rec: "nv_record r" using Cons.prems(5) by simp
  note shape = nv_record_shape [OF rec]
  let ?h = "take 3 r" and ?d = "drop 3 r"
  have front: "drop (cf_pos f) (cf_content f) = ?h @ (?d @ concat rs)"
    using Cons.prems(4) by (metis append.assoc append_take_drop_id concat.simps(2))
  let ?f1 = "f\<lparr>cf_pos := cf_pos f + 3\<rparr>"
  have rd: "c_fread 3 f = (?h, ?f1)"
    using c_fread_front [OF front _ Cons.prems(3), of 3] shape(1) by simp
  show ?case
  proof (cases "252 < t + length r")
    case True
    then have g: "nv_group t (r # rs) = ([], r # rs)" by simp
    have t: "t \<le> 250" using Cons.prems(7) g by simp
    then have w: "store buf (5 + t) ?h = Inr (overwrite buf (5 + t) ?h)"
      using Cons.prems(1) shape(1) by (simp add: store_def)
    have "nv_pack a buf t f = Inr (overwrite buf (5 + t) ?h, t, c_fseek (cf_pos f) ?f1, False)"
      using True shape rd w Cons.prems(3) by (subst nv_pack.simps) (simp add: Let_def)
    moreover have "c_fseek (cf_pos f) ?f1 = f"
      using Cons.prems(3) by (simp add: c_fseek_def)
    ultimately show ?thesis
      using g t Cons.prems(1) shape(1) by (simp add: buf_simps)
  next
    case False
    then have fit: "t + length r \<le> 252" by simp
    have front: "drop (cf_pos f) (cf_content f) = r @ concat rs"
      using Cons.prems(4) by simp
    from nv_pack_record [OF Cons.prems(1-3) rec front fit] obtain buf' where buf':
      "nv_pack a buf t f = nv_pack a buf' (t + length r) (f\<lparr>cf_pos := cf_pos f + length r\<rparr>)"
      "length buf' = 258" "take (5 + t + length r) buf' = take (5 + t) buf @ nv_patch a r" .
    let ?f = "f\<lparr>cf_pos := cf_pos f + length r\<rparr>"
    have "drop (length r) (drop (cf_pos f) (cf_content f)) = concat rs"
      unfolding front by simp
    then have "drop (cf_pos ?f) (cf_content ?f) = concat rs"
      by (simp add: add.commute)
    note ih = Cons.IH [OF buf'(2) Cons.prems(2) _ this _ fit]
    let ?g = "fst (nv_group (t + length r) rs)" and ?l = "snd (nv_group (t + length r) rs)"
    have g: "nv_group t (r # rs) = (r # ?g, ?l)" using False by simp
    have "?l \<noteq> [] \<longrightarrow> t + length r + length (concat ?g) \<le> 250"
      using Cons.prems(7) unfolding g by (simp add: add.assoc)
    moreover have "\<not> cf_eof ?f" "\<forall>r \<in> set rs. nv_record r"
      using Cons.prems(3,5) by simp_all
    ultimately obtain b f' where ib:
      "nv_pack a buf' (t + length r) ?f = Inr (b, t + length r + length (concat ?g), f', ?l = [])" "length b = 258"
      "take (5 + (t + length r) + length (concat ?g)) b = take (5 + (t + length r)) buf' @ concat (map (nv_patch a) ?g)"
      "?l \<noteq> [] \<longrightarrow> f' = ?f\<lparr>cf_pos := cf_pos ?f + length (concat ?g)\<rparr>"
      using ih by blast
    show ?thesis
      unfolding g by (intro exI [of _ b] exI [of _ f']) (use ib buf' in \<open>simp add: add.assoc\<close>)
  qed
qed

definition nv_payload :: "addr_src \<Rightarrow> byte list list \<Rightarrow> byte list" where
  "nv_payload a g = concat (map (nv_patch a) g)"

lemma cfg_nv_send_6316:
  assumes "env_good a env mem" "nv_fp hw = Some f" "\<not> cf_eof f" "chip_version hw = SKW_CHIPID_6316"
    and "drop (cf_pos f) (cf_content f) = concat rs" "\<forall>r \<in> set rs. nv_record r" "nv_group 0 rs = (g, l)" "g \<noteq> []"
    and "l \<noteq> [] \<longrightarrow> length (concat g) \<le> 250"
  shows "cfg_nv_send env mem hw =
    Inr (Cfg_xmit HCI_CMD_SKW_BT_NVDS (nv_command (file_offset hw) (nv_payload a g)) # (if l = [] then [Cfg_fclose] else []),
         if l = [] then hw\<lparr>file_offset := file_offset hw + 1, state := HW_CFG_WRITE_BD_ADDR, nv_fp := None\<rparr>
         else hw\<lparr>file_offset := file_offset hw + 1, nv_fp := Some (f\<lparr>cf_pos := cf_pos f + length (concat g)\<rparr>)\<rparr>)"
proof -
  note env = assms(1) [unfolded env_good_def]
  let ?buf = "overwrite mem 0 (u16_stream HCI_CMD_SKW_BT_NVDS)" and ?n = "length (concat g)"
  have buf: "length ?buf = 258" "length (bdaddr_lap a) = 3" using env by simp_all
  have "snd (nv_group 0 rs) \<noteq> [] \<longrightarrow> 0 + length (concat (fst (nv_group 0 rs))) \<le> 250"
    using assms(7,9) by simp
  from nv_pack_group [OF buf assms(3,5,6) _ this] obtain b f1 where pk:
    "nv_pack a ?buf 0 f = Inr (b, ?n, f1, l = [])" "length b = 258"
    "take (5 + ?n) b = take 5 ?buf @ concat (map (nv_patch a) g)"
    "l \<noteq> [] \<longrightarrow> f1 = f\<lparr>cf_pos := cf_pos f + ?n\<rparr>"
    using assms(7) by auto
  have len: "length (concat (map (nv_patch a) g)) = ?n"
    by (simp add: length_concat comp_def)
  have "length (take (5 + ?n) b) = 5 + ?n"
    unfolding pk(3) using buf(1) len by simp
  then have n: "?n + 5 \<le> length b"
    by simp
  have "take 2 b = take 2 (take (5 + ?n) b)" by (simp add: min_def)
  also have "\<dots> = u16_stream HCI_CMD_SKW_BT_NVDS"
    unfolding pk(3) using env by (simp add: min_def cmd_prefix)
  finally have t2: "take 2 b = u16_stream HCI_CMD_SKW_BT_NVDS" .
  have "subbuf 5 ?n b = drop 5 (take (5 + ?n) b)"
    by (simp add: subbuf_def drop_take)
  then have "subbuf 5 ?n b = concat (map (nv_patch a) g)"
    unfolding pk(3) using buf(1) by simp
  from nv_packet_command [OF n t2 this]
  have cmd: "nv_packet b ?n (file_offset hw) = nv_command (file_offset hw) (concat (map (nv_patch a) g))" .
  have "0 < ?n"
    using assms(6,8) nv_record_shape(1) nv_group_append [of 0 rs] assms(7) by (cases g) fastforce+
  then show ?thesis
    unfolding cfg_nv_send_def assms(2) option.case Let_def
    using assms(4) env pk(1,4) cmd by (simp add: nv_payload_def)
qed

text \<open>A file of records the download gets through.\<close>

definition nv_fits :: "byte list list \<Rightarrow> bool" where
  "nv_fits rs \<longleftrightarrow> rs \<noteq> [] \<and> (\<forall>r \<in> set rs. nv_record r) \<and>
     (\<forall>g \<in> set (butlast (nv_groups rs)). length (concat g) \<le> 250)"

fun nv_commands :: "byte \<Rightarrow> byte list list \<Rightarrow> byte list list" where
  "nv_commands off [] = []"
| "nv_commands off (p # ps) = nv_command off p # nv_commands (off + 1) ps"

lemma nv_groups_step:
  assumes "nv_fits rs" "nv_group 0 rs = (g, l)"
  shows "g \<noteq> []" "nv_groups rs = g # nv_groups l" "l \<noteq> [] \<Longrightarrow> length (concat g) \<le> 250 \<and> nv_fits l"
    "l = [] \<Longrightarrow> nv_groups l = []"
proof -
  show g: "g \<noteq> []"
    using assms nv_record_shape(3) by (cases rs) (fastforce simp: nv_fits_def)+
  show gs: "nv_groups rs = g # nv_groups l"
    using g assms(2) by (subst nv_groups.simps) simp
  show "l = [] \<Longrightarrow> nv_groups l = []"
    by (subst nv_groups.simps) simp
  assume l: "l \<noteq> []"
  have recs: "\<forall>r \<in> set l. nv_record r"
    using nv_group_append [of 0 rs] assms by (auto simp: nv_fits_def)
  then have "fst (nv_group 0 l) \<noteq> []"
    using l nv_record_shape(3) by (cases l) fastforce+
  then have "nv_groups l \<noteq> []"
    by (subst nv_groups.simps) simp
  then show "length (concat g) \<le> 250 \<and> nv_fits l"
    using assms(1) gs l recs by (auto simp: nv_fits_def)
qed

lemma cfg_run_6316:
  assumes "\<forall>c \<in> set cs. call_good a c" "state hw = HW_CFG_NV_SEND" "chip_version hw = SKW_CHIPID_6316"
    and "nv_fp hw = Some f" "\<not> cf_eof f" "drop (cf_pos f) (cf_content f) = concat rs" "nv_fits rs"
    and "length cs = length (nv_groups rs)"
  shows "\<exists>es hw'. cfg_run cs hw = Inr (es, hw') \<and> state hw' = HW_CFG_WRITE_BD_ADDR \<and> nv_fp hw' = None \<and>
    cfg_sent es = nv_commands (file_offset hw) (map (nv_payload a) (nv_groups rs)) \<and>
    cfg_results es = [] \<and> cfg_held es = 0 \<and> cfg_files es = - 1"
  using assms
proof (induction cs arbitrary: hw f rs)
  case Nil
  obtain g l where gl: "nv_group 0 rs = (g, l)" by fastforce
  show ?case using Nil.prems(8) nv_groups_step(2) [OF Nil.prems(7) gl] by simp
next
  case (Cons c cs)
  obtain env evt where c: "c = (env, evt)" by (cases c)
  obtain g l where gl: "nv_group 0 rs = (g, l)" by fastforce
  note step = nv_groups_step [OF Cons.prems(7) gl]
  have "call_good a (env, evt)" using Cons.prems(1) c by simp
  from call_good_callback [OF this Cons.prems(2)] obtain mem where mem: "env_good a env mem"
    "\<And>es hw'. cfg_nv_send env mem hw = Inr (es, hw') \<Longrightarrow>
       scomm_vendor_config_callback env evt hw = Inr (Cfg_alloc # es @ [Cfg_dealloc_evt], hw')" by blast
  have recs: "\<forall>r \<in> set rs. nv_record r" "l \<noteq> [] \<longrightarrow> length (concat g) \<le> 250"
    using Cons.prems(7) step(3) by (auto simp: nv_fits_def)
  note send = mem(2) [OF cfg_nv_send_6316 [OF mem(1) Cons.prems(4,5,3,6) recs(1) gl step(1) recs(2)]]
  show ?case
  proof (cases "l = []")
    case True
    with send Cons.prems(8) c step(2,4) show ?thesis by simp
  next
    case False
    let ?f = "f\<lparr>cf_pos := cf_pos f + length (concat g)\<rparr>"
    let ?hw = "hw\<lparr>file_offset := file_offset hw + 1, nv_fp := Some ?f\<rparr>"
    have "concat rs = concat g @ concat l"
      using nv_group_append [of 0 rs] gl by (metis concat_append fst_conv snd_conv)
    then have "drop (length (concat g)) (drop (cf_pos f) (cf_content f)) = concat l"
      unfolding Cons.prems(6) by simp
    then have "drop (cf_pos ?f) (cf_content ?f) = concat l"
      by (simp add: add.commute)
    then have "\<exists>es hw'. cfg_run cs ?hw = Inr (es, hw') \<and> state hw' = HW_CFG_WRITE_BD_ADDR \<and> nv_fp hw' = None \<and>
      cfg_sent es = nv_commands (file_offset ?hw) (map (nv_payload a) (nv_groups l)) \<and>
      cfg_results es = [] \<and> cfg_held es = 0 \<and> cfg_files es = - 1"
      using Cons.IH [of ?hw ?f l] Cons.prems step(2,3) False by simp
    with send False step(2) c show ?thesis by auto
  qed
qed

section \<open>The whole sequence\<close>

lemma call_goodE:
  assumes "call_good a c"
  obtains env mem e where "c = (env, Some e)" "alloc_mem env = Some mem" "cbacks env" "xmit_ok env"
    "6 \<le> length e" "e ! 5 = 0" "env_good a env mem"
proof -
  obtain env evt where c: "c = (env, evt)" by (cases c)
  from assms c obtain mem e where me: "alloc_mem env = Some mem" "evt = Some e"
    by (cases "alloc_mem env"; cases evt) auto
  show ?thesis
    by (rule that [of env e mem]) (use assms c me in \<open>auto simp: env_good_def\<close>)
qed

lemma read_version_stream: "u16_stream HCI_READ_LOCAL_VERSION_INFO = [1, 0x10]"
proof -
  have "(4097 :: byte) = 1" by (simp add: word_unat_eq_iff)
  then show ?thesis by (simp add: u16_stream_def)
qed

lemma callback_start:
  assumes "call_good a c" "state hw = HW_CFG_START"
  shows "cfg_run (c # cs) hw = map_sum id (\<lambda>(es', hw').
    ([Cfg_alloc, Cfg_xmit HCI_READ_LOCAL_VERSION_INFO [1, 0x10, 0], Cfg_dealloc_evt] @ es', hw'))
    (cfg_run cs (hw\<lparr>state := HW_CFG_READ_HCI_VERSION\<rparr>))"
  using assms(2) by (cases rule: call_goodE [OF assms(1)])
    (simp add: scomm_vendor_config_callback_def cfg_switch_def read_version_stream)

text \<open>The version callback opens the file and acts like the sending state on the state it prepares.\<close>

lemma callback_version:
  assumes "call_good a (env, Some e)" "state hw = HW_CFG_READ_HCI_VERSION"
    and "cfg_read_version env (Some e) hw = Inr (True, hw1)" "state hw1 = HW_CFG_NV_SEND"
    and "cfg_run ((env, Some e) # cs) hw1 = Inr (es, hw2)"
  obtains es' where "cfg_run ((env, Some e) # cs) hw = Inr (es', hw2)" "cfg_sent es' = cfg_sent es"
    "cfg_results es' = cfg_results es" "cfg_held es' = cfg_held es" "cfg_files es' = cfg_files es + 1"
proof (cases rule: call_goodE [OF assms(1)])
  case (1 env' mem e')
  then have env: "alloc_mem env = Some mem" "cbacks env" "6 \<le> length e" "e ! 5 = 0" by simp_all
  from assms(4,5) env obtain es1 hw3 where send: "cfg_nv_send env mem hw1 = Inr (es1, hw3)"
    by (cases "cfg_nv_send env mem hw1") (auto simp: scomm_vendor_config_callback_def cfg_switch_def Let_def)
  with assms(4,5) env obtain es2 where rest: "cfg_run cs hw3 = Inr (es2, hw2)"
    "es = (Cfg_alloc # es1 @ [Cfg_dealloc_evt]) @ es2"
    by (cases "cfg_run cs hw3") (auto simp: scomm_vendor_config_callback_def cfg_switch_def Let_def)
  show ?thesis
    by (rule that [of "(Cfg_alloc # Cfg_fopen # es1 @ [Cfg_dealloc_evt]) @ es2"])
      (use assms(2,3) env send rest in \<open>simp_all add: scomm_vendor_config_callback_def cfg_switch_def Let_def\<close>)
qed

lemma callback_complete:
  assumes "call_good a (env, evt)" "state hw = HW_CFG_WRITE_BD_ADDR" "\<not> fst (skw_addr_from_ap (vendor_storage env))"
  shows "cfg_run [(env, evt)] hw =
    Inr ([Cfg_alloc, Cfg_result True, Cfg_dealloc, Cfg_dealloc_evt], hw\<lparr>state := HW_CFG_INIT\<rparr>)"
  using assms(2,3) by (cases rule: call_goodE [OF assms(1)])
    (simp add: scomm_vendor_config_callback_def cfg_switch_def cfg_complete_def case_prod_unfold)

lemma cfg_run_append:
  "cfg_run (cs @ ds) hw =
     (case cfg_run cs hw of
        Inl e \<Rightarrow> Inl e
      | Inr (es, hw1) \<Rightarrow> map_sum id (\<lambda>(es', hw'). (es @ es', hw')) (cfg_run ds hw1))"
proof (induction cs arbitrary: hw)
  case Nil
  have "map_sum id (\<lambda>(es', hw'). (es', hw')) x = x" for x :: "c_fault + cfg_event list \<times> hw_cfg"
    by (cases x) auto
  then show ?case by simp
next
  case (Cons c cs)
  obtain env evt where c: "c = (env, evt)" by (cases c)
  show ?case
  proof (cases "scomm_vendor_config_callback env evt hw")
    case (Inr r)
    obtain es hw1 where "r = (es, hw1)" by (cases r)
    with Inr c show ?thesis
      by (cases "cfg_run cs hw1"; simp add: Cons.IH split: prod.split)
        (cases "cfg_run ds (snd (projr (cfg_run cs hw1)))"; auto)
  qed (simp add: c)
qed

lemma nv_commands_payload: "concat (map (drop 5) (nv_commands off ps)) = concat ps"
  by (induction ps arbitrary: off) (simp_all add: nv_command_def u16_stream_def)

lemma concat_nv_groups: "nv_fits rs \<Longrightarrow> concat (nv_groups rs) = rs"
proof (induction rs rule: nv_groups.induct)
  case (1 rs)
  obtain g l where gl: "nv_group 0 rs = (g, l)" by fastforce
  note step = nv_groups_step [OF 1(2) gl]
  have "g @ l = rs" using nv_group_append [of 0 rs] gl by simp
  then show ?case
    using 1(1) step gl by (cases "l = []") auto
qed

lemma concat_nv_payload: "concat (map (nv_payload a) gs) = concat (map (nv_patch a) (concat gs))"
  by (induction gs) (simp_all add: nv_payload_def)

text \<open>The calls of one configuration: reset and version complete, then the download, then the end.\<close>

definition cfg_session ::
    "addr_src \<Rightarrow> cfg_env \<times> byte list option \<Rightarrow> cfg_env \<Rightarrow> byte list \<Rightarrow> (cfg_env \<times> byte list option) list \<Rightarrow>
     cfg_env \<times> byte list option \<Rightarrow> bool" where
  "cfg_session a c0 env1 e1 cs cn \<longleftrightarrow>
     (\<forall>c \<in> set (c0 # (env1, Some e1) # cs @ [cn]). call_good a c) \<and> 9 \<le> length e1 \<and>
     \<not> fst (skw_addr_from_ap (vendor_storage (fst cn)))"

lemma cfg_session_run:
  assumes "cfg_session a c0 env1 e1 cs cn" "state hw = HW_CFG_START"
    and "cfg_read_version env1 (Some e1) (hw\<lparr>state := HW_CFG_READ_HCI_VERSION\<rparr>) = Inr (True, hw1)"
    and "state hw1 = HW_CFG_NV_SEND" "cfg_run ((env1, Some e1) # cs) hw1 = Inr (es, hw2)"
    and "state hw2 = HW_CFG_WRITE_BD_ADDR" "cfg_results es = []" "cfg_held es = 0" "cfg_files es = - 1"
  shows "\<exists>es'. cfg_run (c0 # (env1, Some e1) # cs @ [cn]) hw = Inr (es', hw2\<lparr>state := HW_CFG_INIT\<rparr>) \<and>
    cfg_sent es' = [1, 0x10, 0] # cfg_sent es \<and> cfg_results es' = [True] \<and> cfg_held es' = 0 \<and> cfg_files es' = 0"
proof -
  have good: "call_good a c0" "call_good a (env1, Some e1)" "call_good a cn"
    using assms(1) by (simp_all add: cfg_session_def)
  obtain envn evn where cn: "cn = (envn, evn)" by (cases cn)
  let ?hw = "hw\<lparr>state := HW_CFG_READ_HCI_VERSION\<rparr>"
  have st: "state ?hw = HW_CFG_READ_HCI_VERSION" by simp
  have "cfg_run (((env1, Some e1) # cs) @ [cn]) hw1 =
      Inr (es @ [Cfg_alloc, Cfg_result True, Cfg_dealloc, Cfg_dealloc_evt], hw2\<lparr>state := HW_CFG_INIT\<rparr>)"
    using callback_complete [of a envn evn hw2] good(3) assms(1,6) cn
    unfolding cfg_run_append assms(5) by (simp add: cfg_session_def)
  from callback_version [OF good(2) st assms(3,4) this [unfolded append_Cons]] obtain es' where
    "cfg_run ((env1, Some e1) # cs @ [cn]) ?hw = Inr (es', hw2\<lparr>state := HW_CFG_INIT\<rparr>)" "cfg_sent es' = cfg_sent es"
    "cfg_results es' = [True]" "cfg_held es' = 0" "cfg_files es' = 0"
    by (auto simp: assms(7-9))
  then show ?thesis
    using callback_start [OF good(1) assms(2), of "(env1, Some e1) # cs @ [cn]"] by simp
qed

lemma config_6316_run:
  assumes "cfg_session a c0 env1 e1 cs cn" and "le16 (e1 ! 7) (e1 ! 8) = SKW_CHIPID_6316"
    and "nv_6316 env1 = Some (hdr @ concat rs)" and "length hdr = 4" and "nv_fits rs"
    and "Suc (length cs) = length (nv_groups rs)" and "state hw = HW_CFG_START"
  shows "\<exists>es hw'. cfg_run (c0 # (env1, Some e1) # cs @ [cn]) hw = Inr (es, hw') \<and> state hw' = HW_CFG_INIT \<and>
    nv_fp hw' = None \<and> cfg_sent es = [1, 0x10, 0] # nv_commands 0 (map (nv_payload a) (nv_groups rs)) \<and>
    concat (map (drop 5) (tl (cfg_sent es))) = concat (map (nv_patch a) rs) \<and>
    cfg_results es = [True] \<and> cfg_held es = 0 \<and> cfg_files es = 0"
proof -
  let ?f = "\<lparr>cf_content = hdr @ concat rs, cf_pos = 4, cf_eof = False\<rparr>"
  let ?hw = "hw\<lparr>state := HW_CFG_READ_HCI_VERSION\<rparr>"
  let ?hw1 = "?hw\<lparr>chip_version := SKW_CHIPID_6316, file_offset := 0, state := HW_CFG_NV_SEND, nv_fp := Some ?f\<rparr>"
  have len: "9 \<le> length e1" using assms(1) by (simp add: cfg_session_def)
  have rd: "cfg_read_version env1 (Some e1) ?hw = Inr (True, ?hw1)"
    using len assms(2-4) by (simp add: cfg_read_version_def c_fopen_def c_fread_def Let_def subbuf_def)
  have "\<forall>c \<in> set ((env1, Some e1) # cs). call_good a c" "drop (cf_pos ?f) (cf_content ?f) = concat rs"
    "length ((env1, Some e1) # cs) = length (nv_groups rs)"
    using assms(1,4,6) by (auto simp: cfg_session_def)
  from cfg_run_6316 [OF this(1) _ _ _ _ this(2) assms(5) this(3), of ?hw1] obtain es hw2 where run:
    "cfg_run ((env1, Some e1) # cs) ?hw1 = Inr (es, hw2)" "state hw2 = HW_CFG_WRITE_BD_ADDR" "nv_fp hw2 = None"
    "cfg_sent es = nv_commands 0 (map (nv_payload a) (nv_groups rs))" "cfg_results es = []" "cfg_held es = 0" "cfg_files es = - 1"
    by auto
  from cfg_session_run [OF assms(1,7) rd _ run(1,2,5-7)] run(3,4) show ?thesis
    by (auto simp: nv_commands_payload concat_nv_payload concat_nv_groups [OF assms(5)])
qed

text \<open>
  C7: A 6316 controller is configured completely. For every NV file whose records fit, one call per
  command group and one more end the configuration: the version is asked for, the patched records
  of the file arrive whole and in order, in numbered commands of at most 257 bytes, success is
  reported exactly once, every command buffer is handed on or freed, and the file is closed as often as it
  is opened.
\<close>

theorem config_6316_complete:
  assumes "cfg_session a c0 env1 e1 cs cn" and "le16 (e1 ! 7) (e1 ! 8) = SKW_CHIPID_6316"
    and "nv_6316 env1 = Some (hdr @ concat rs)" and "length hdr = 4" and "nv_fits rs"
    and "Suc (length cs) = length (nv_groups rs)" and "state hw = HW_CFG_START"
  shows "\<exists>es hw'. cfg_run (c0 # (env1, Some e1) # cs @ [cn]) hw = Inr (es, hw') \<and> state hw' = HW_CFG_INIT \<and>
    nv_fp hw' = None \<and> cfg_sent es = [1, 0x10, 0] # nv_commands 0 (map (nv_payload a) (nv_groups rs)) \<and>
    concat (map (drop 5) (tl (cfg_sent es))) = concat (map (nv_patch a) rs) \<and>
    cfg_results es = [True] \<and> cfg_held es = 0 \<and> cfg_files es = 0"
  using assms by (rule config_6316_run)

text \<open>
  C14: A 6160 (or unknown) controller is configured completely, whatever is in its NV file: the file
  goes out in numbered blocks of 252 bytes, the last one shorter, with the made-up address in the
  first and the flag in the second block; success is reported exactly once, every command buffer
  is handed on or freed, and the file is closed as often as it is opened.
\<close>

theorem config_6160_complete:
  assumes "cfg_session a c0 env1 e1 cs cn" and "le16 (e1 ! 7) (e1 ! 8) \<noteq> SKW_CHIPID_6316"
    and "nv_6160 env1 = Some content"
    and "Suc (length cs) = length (nv_blocks content)" and "state hw = HW_CFG_START"
  shows "\<exists>es hw'. cfg_run (c0 # (env1, Some e1) # cs @ [cn]) hw = Inr (es, hw') \<and> state hw' = HW_CFG_INIT \<and>
    nv_fp hw' = None \<and> cfg_sent es = [1, 0x10, 0] # nv6160_commands a 0 (nv_blocks content) \<and>
    concat (nv_blocks content) = content \<and> cfg_results es = [True] \<and> cfg_held es = 0 \<and> cfg_files es = 0"
proof -
  let ?hw = "hw\<lparr>state := HW_CFG_READ_HCI_VERSION\<rparr>"
  let ?hw1 = "?hw\<lparr>chip_version := SKW_CHIPID_6160, file_offset := 0, state := HW_CFG_NV_SEND,
    nv_fp := Some (c_fopen content)\<rparr>"
  have len: "9 \<le> length e1" using assms(1) by (simp add: cfg_session_def)
  have rd: "cfg_read_version env1 (Some e1) ?hw = Inr (True, ?hw1)"
    using len assms(2,3) by (simp add: cfg_read_version_def Let_def)
  have "\<forall>c \<in> set ((env1, Some e1) # cs). call_good a c"
    using assms(1) by (auto simp: cfg_session_def)
  from cfg_run_6160 [OF this, of ?hw1 "c_fopen content"] assms(4) obtain es hw2 where run:
    "cfg_run ((env1, Some e1) # cs) ?hw1 = Inr (es, hw2)" "state hw2 = HW_CFG_WRITE_BD_ADDR" "nv_fp hw2 = None"
    "cfg_sent es = nv6160_commands a 0 (nv_blocks content)" "cfg_results es = []" "cfg_held es = 0" "cfg_files es = - 1"
    by (auto simp: c_fopen_def)
  from cfg_session_run [OF assms(1,5) rd _ run(1,2,5-7)] run(3,4) show ?thesis
    by (auto simp: concat_nv_blocks)
qed

section \<open>Files the download fails on\<close>

text \<open>A group of 251 or 252 bytes that is not the last: the next header does not fit into the buffer.\<close>

lemma nv_pack_overflow:
  assumes "length buf = 258" "length (bdaddr_lap a) = 3" "\<not> cf_eof f" "t \<le> 252"
    and "drop (cf_pos f) (cf_content f) = concat rs" "\<forall>r \<in> set rs. nv_record r"
    and "snd (nv_group t rs) \<noteq> []" "250 < t + length (concat (fst (nv_group t rs)))"
  shows "nv_pack a buf t f = Inl OutOfBounds"
  using assms
proof (induction rs arbitrary: buf t f)
  case (Cons r rs)
  have rec: "nv_record r" using Cons.prems(6) by simp
  note shape = nv_record_shape [OF rec]
  have front: "drop (cf_pos f) (cf_content f) = r @ concat rs"
    using Cons.prems(5) by simp
  show ?case
  proof (cases "252 < t + length r")
    case True
    then have t: "250 < t" using Cons.prems(8) by simp
    have "drop (cf_pos f) (cf_content f) = take 3 r @ (drop 3 r @ concat rs)"
      using front by simp
    from c_fread_front [OF this _ Cons.prems(3), of 3] shape(1)
    have "c_fread 3 f = (take 3 r, f\<lparr>cf_pos := cf_pos f + 3\<rparr>)" by simp
    moreover have "store buf (5 + t) (take 3 r) = Inl OutOfBounds"
      using Cons.prems(1) shape(1) t by (simp add: store_def)
    ultimately show ?thesis
      using Cons.prems(3) shape(1) by (subst nv_pack.simps) simp
  next
    case False
    then have fit: "t + length r \<le> 252" by simp
    let ?f = "f\<lparr>cf_pos := cf_pos f + length r\<rparr>"
    from nv_pack_record [OF Cons.prems(1-3) rec front fit] obtain buf' where buf':
      "nv_pack a buf t f = nv_pack a buf' (t + length r) ?f" "length buf' = 258" by metis
    have "drop (length r) (drop (cf_pos f) (cf_content f)) = concat rs"
      unfolding front by simp
    then have "drop (cf_pos ?f) (cf_content ?f) = concat rs"
      by (simp add: add.commute)
    from Cons.IH [OF buf'(2) Cons.prems(2) _ fit this] Cons.prems(3,6-8) False buf'(1) show ?thesis
      by (simp add: add.assoc)
  qed
qed simp

text \<open>
  C30: A 6316 NV file is not safe to download when a command group comes to 251 or 252 bytes and more
  records follow: the code copies the next record's header before it checks the length, and writes
  past the end of the 258-byte command buffer.
\<close>

theorem config_6316_overflow:
  assumes "env_good a env mem" and "nv_fp hw = Some f" and "\<not> cf_eof f" and "chip_version hw = SKW_CHIPID_6316"
    and "drop (cf_pos f) (cf_content f) = concat rs" and "\<forall>r \<in> set rs. nv_record r"
    and "nv_group 0 rs = (g, l)" and "l \<noteq> []" and "250 < length (concat g)"
  shows "cfg_nv_send env mem hw = Inl OutOfBounds"
proof -
  note env = assms(1) [unfolded env_good_def]
  let ?buf = "overwrite mem 0 (u16_stream HCI_CMD_SKW_BT_NVDS)"
  have "snd (nv_group 0 rs) = l" "fst (nv_group 0 rs) = g"
    using assms(7) by simp_all
  then have "nv_pack a ?buf 0 f = Inl OutOfBounds"
    using nv_pack_overflow [of ?buf a f 0 rs] env assms(3,5,6,8,9) by simp
  then show ?thesis
    using env assms(2,4) by (simp add: cfg_nv_send_def Let_def)
qed

text \<open>The packing loop over records that all fit goes on with what follows them.\<close>

lemma nv_pack_records:
  assumes "length buf = 258" "length (bdaddr_lap a) = 3" "\<not> cf_eof f"
    and "drop (cf_pos f) (cf_content f) = concat rs @ rest" "\<forall>r \<in> set rs. nv_record r"
    and "t + length (concat rs) \<le> 252"
  shows "\<exists>buf'. nv_pack a buf t f =
      nv_pack a buf' (t + length (concat rs)) (f\<lparr>cf_pos := cf_pos f + length (concat rs)\<rparr>) \<and> length buf' = 258"
  using assms
proof (induction rs arbitrary: buf t f)
  case (Cons r rs)
  have rec: "nv_record r" and front: "drop (cf_pos f) (cf_content f) = r @ (concat rs @ rest)"
    and fit: "t + length r \<le> 252"
    using Cons.prems(4-6) by simp_all
  let ?f = "f\<lparr>cf_pos := cf_pos f + length r\<rparr>"
  from nv_pack_record [OF Cons.prems(1-3) rec front fit] obtain buf' where buf':
    "nv_pack a buf t f = nv_pack a buf' (t + length r) ?f" "length buf' = 258" by metis
  have "drop (length r) (drop (cf_pos f) (cf_content f)) = concat rs @ rest"
    unfolding front by simp
  then have "drop (cf_pos ?f) (cf_content ?f) = concat rs @ rest"
    by (simp add: add.commute)
  from Cons.IH [OF buf'(2) Cons.prems(2) _ this, of "t + length r"] Cons.prems(3,5,6) buf'(1) show ?case
    by (simp add: add.assoc)
qed auto

text \<open>
  A 6316 NV file that ends in the middle of a record makes the code use freed memory: the error
  path frees the command buffer and leaves the loop, and the code behind the loop writes the command
  header into it and sends it.
\<close>

theorem config_6316_truncated:
  assumes "env_good a env mem" and "nv_fp hw = Some f" and "\<not> cf_eof f" and "chip_version hw = SKW_CHIPID_6316"
    and "drop (cf_pos f) (cf_content f) = concat rs @ part" and "\<forall>r \<in> set rs. nv_record r"
    and "nv_need part = Some n" and "length part < n" and "length (concat rs) + n \<le> 252"
  shows "cfg_nv_send env mem hw = Inl UseAfterFree"
proof -
  note env = assms(1) [unfolded env_good_def]
  let ?buf = "overwrite mem 0 (u16_stream HCI_CMD_SKW_BT_NVDS)" and ?t = "length (concat rs)"
  let ?f = "f\<lparr>cf_pos := cf_pos f + ?t\<rparr>"
  from nv_pack_records [of ?buf a f rs part 0] env assms(3,5,6,9) obtain b where b:
    "nv_pack a ?buf 0 f = nv_pack a b ?t ?f" "length b = 258" by auto
  have n: "n = 3 + unat (part ! 2)" "3 \<le> length part"
    using assms(7) by (auto simp: nv_need_def split: if_splits)
  have "drop ?t (drop (cf_pos f) (cf_content f)) = part"
    unfolding assms(5) by simp
  then have front: "drop (cf_pos ?f) (cf_content ?f) = take 3 part @ drop 3 part"
    by (simp add: add.commute)
  have rd: "c_fread 3 ?f = (take 3 part, ?f\<lparr>cf_pos := cf_pos ?f + 3\<rparr>)"
    using c_fread_front [OF front, of 3] assms(3) n(2) by simp
  have "drop 3 (drop (cf_pos ?f) (cf_content ?f)) = drop 3 part"
    unfolding front using n(2) by simp
  then have "drop (cf_pos ?f + 3) (cf_content ?f) = drop 3 part"
    by (simp add: add.commute)
  then have "fst (c_fread (unat (part ! 2)) (?f\<lparr>cf_pos := cf_pos ?f + 3\<rparr>)) = drop 3 part"
    using assms(8) n by (simp add: c_fread_def subbuf_def Let_def)
  then obtain f2 where rd2: "c_fread (unat (part ! 2)) (?f\<lparr>cf_pos := cf_pos ?f + 3\<rparr>) = (drop 3 part, f2)"
    by (metis prod.collapse)
  let ?b1 = "overwrite b (5 + ?t) (take 3 part)"
  have w: "store b (5 + ?t) (take 3 part) = Inr ?b1" "length ?b1 = 258"
    using b(2) n assms(9) by (simp_all add: store_def)
  have w2: "store ?b1 (5 + (?t + 3)) (drop 3 part) = Inr (overwrite ?b1 (5 + (?t + 3)) (drop 3 part))"
    using w(2) n assms(8,9) by (simp add: store_def)
  have "length part - 3 < unat (part ! 2)"
    using assms(8) n by linarith
  then have "nv_pack a b ?t ?f = Inl UseAfterFree"
    using rd rd2 w(1) w2 n assms(3,8,9)
    by (subst nv_pack.simps) (simp add: Let_def)
  then show ?thesis
    using b(1) env assms(2,4) by (simp add: cfg_nv_send_def Let_def)
qed

text \<open>
  The configuration of a 6316 stops without a word when the records run out before any is sent
  (an empty file), or when the next one is longer than a command can carry: nothing is sent, so the
  callback is never called again, no result is reported, and the command buffer is lost.
\<close>

theorem config_6316_stalls:
  assumes "call_good a (env, evt)" and "state hw = HW_CFG_NV_SEND" and "chip_version hw = SKW_CHIPID_6316"
    and "nv_fp hw = Some f" and "\<not> cf_eof f"
    and "length (drop (cf_pos f) (cf_content f)) < 3 \<or>
      (\<exists>n > 252. nv_need (drop (cf_pos f) (cf_content f)) = Some n)"
  shows "\<exists>es hw'. scomm_vendor_config_callback env evt hw = Inr (es, hw') \<and>
    cfg_sent es = [] \<and> cfg_results es = [] \<and> cfg_held es = 1"
proof -
  from call_good_callback [OF assms(1,2)] obtain mem where mem: "env_good a env mem"
    "\<And>es hw'. cfg_nv_send env mem hw = Inr (es, hw') \<Longrightarrow>
       scomm_vendor_config_callback env evt hw = Inr (Cfg_alloc # es @ [Cfg_dealloc_evt], hw')" by blast
  note env = mem(1) [unfolded env_good_def]
  let ?buf = "overwrite mem 0 (u16_stream HCI_CMD_SKW_BT_NVDS)" and ?rest = "drop (cf_pos f) (cf_content f)"
  have "\<exists>b f1 e. nv_pack a ?buf 0 f = Inr (b, 0, f1, e)"
  proof (cases "length ?rest < 3")
    case True
    then have "length (fst (c_fread 3 f)) < 3"
      by (simp add: c_fread_def Let_def subbuf_def)
    then show ?thesis
      by (subst nv_pack.simps) (auto simp: case_prod_unfold Let_def)
  next
    case False
    then have n: "249 < unat (?rest ! 2)" "3 \<le> length ?rest"
      using assms(6) by (auto simp: nv_need_def split: if_splits)
    have rd: "c_fread 3 f = (take 3 ?rest, f\<lparr>cf_pos := cf_pos f + 3\<rparr>)"
      using c_fread_front [OF append_take_drop_id [symmetric, of ?rest 3], of 3] assms(5) n(2) by simp
    have "store ?buf 5 (take 3 ?rest) = Inr (overwrite ?buf 5 (take 3 ?rest))"
      using env n(2) by (simp add: store_def)
    then show ?thesis
      using rd n assms(5) by (subst nv_pack.simps) (auto simp: Let_def)
  qed
  then have "\<exists>es hw'. cfg_nv_send env mem hw = Inr (es, hw') \<and> es \<in> {[], [Cfg_fclose]}"
    using env assms(3,4) by (auto simp: cfg_nv_send_def Let_def)
  with mem(2) show ?thesis by fastforce
qed

text \<open>
  When the NV file is missing, failure is reported and the configuration is over, but neither the
  command buffer nor the event buffer is freed.
\<close>

theorem config_missing_file:
  assumes "call_good a (env, Some e)" and "state hw = HW_CFG_READ_HCI_VERSION" and "9 \<le> length e"
    and "(if le16 (e ! 7) (e ! 8) = SKW_CHIPID_6316 then nv_6316 env else nv_6160 env) = None"
  shows "\<exists>hw'. scomm_vendor_config_callback env (Some e) hw = Inr ([Cfg_alloc, Cfg_result False], hw') \<and>
    state hw' = HW_CFG_INIT \<and> nv_fp hw' = None \<and> cfg_held [Cfg_alloc, Cfg_result False] = 1"
  using assms(2-4) by (cases rule: call_goodE [OF assms(1)])
    (auto simp: scomm_vendor_config_callback_def cfg_switch_def cfg_read_version_def Let_def split: if_splits)

section \<open>Witnesses\<close>

text \<open>The records of the NV file for the 6316 in the repository.\<close>

definition sv6316_records :: "byte list list" where
  "sv6316_records =
     [[1, 6, 6, 0x62, 0x74, 0x86, 0x98, 0x9A, 0xBC], [5, 6, 6, 0, 0, 0x60, 0xE3, 0x16, 0], [6, 6, 1, 0],
      [0x10, 6, 4, 0xC0, 0xC6, 0x2D, 0], [0x11, 6, 1, 1]]"

definition sample_env :: cfg_env where
  "sample_env =
     \<lparr>cbacks = True, alloc_mem = Some (replicate 258 0), xmit_ok = True,
      nv_6316 = Some ([0x4E, 0x56, 0x44, 0x53] @ concat sv6316_records), nv_6160 = Some [0x4E, 0x56, 0x44, 0x53, 1, 6, 6, 0, 0, 0, 0, 0, 0],
      vendor_storage = None, addr = addr_src_init\<rparr>"

definition sample_reset :: "byte list" where "sample_reset = [0x0E, 4, 1, 3, 0x0C, 0]"

definition sample_version :: "byte \<Rightarrow> byte \<Rightarrow> byte list" where
  "sample_version lo hi = [0x0E, 12, 1, 1, 0x10, 0, 9, lo, hi, 9, 0, 0, 0, 0]"

lemma sample_call_good: "6 \<le> length e \<Longrightarrow> e ! 5 = 0 \<Longrightarrow> call_good addr_src_init (sample_env, Some e)"
  by (simp add: sample_env_def addr_src_init_def)

lemma sample_session:
  "cfg_session addr_src_init (sample_env, Some sample_reset) sample_env (sample_version lo hi) []
     (sample_env, Some sample_reset)"
proof -
  have "\<not> fst (skw_addr_from_ap (vendor_storage sample_env))"
    by (simp add: sample_env_def skw_addr_from_ap_def m_get_mac_address_def)
  then show ?thesis
    using sample_call_good [of sample_reset] sample_call_good [of "sample_version lo hi"]
    by (simp add: cfg_session_def sample_reset_def sample_version_def)
qed

lemma sv6316_group: "nv_group 0 sv6316_records = (sv6316_records, [])"
  by (simp add: sv6316_records_def)

lemma sv6316_groups: "nv_groups sv6316_records = [sv6316_records]" "nv_fits sv6316_records"
proof -
  have "sv6316_records \<noteq> []" "nv_groups [] = []"
    by (simp_all add: sv6316_records_def nv_groups.simps)
  then show gs: "nv_groups sv6316_records = [sv6316_records]"
    by (subst nv_groups.simps) (simp add: sv6316_group)
  have "\<forall>r \<in> set sv6316_records. nv_record r"
    by (simp add: sv6316_records_def nv_record_def nv_need_def)
  with gs show "nv_fits sv6316_records"
    using \<open>sv6316_records \<noteq> []\<close> by (simp add: nv_fits_def)
qed

theorem config_6316_complete_witness:
  "\<exists>es hw'. cfg_run [(sample_env, Some sample_reset), (sample_env, Some (sample_version 0x01 0x53)), (sample_env, Some sample_reset)]
       ((hw_cfg_zero 0)\<lparr>state := HW_CFG_START\<rparr>) = Inr (es, hw') \<and>
     concat (map (drop 5) (tl (cfg_sent es))) =
       [1, 6, 6, 0x62, 0x74, 0x86, 0x12, 0x24, 0x56, 5, 6, 6, 0, 0, 0x60, 0xE3, 0x16, 0, 6, 6, 1, 0,
        0x10, 6, 4, 0xC0, 0xC6, 0x2D, 0, 0x11, 6, 1, 1] \<and>
     cfg_results es = [True] \<and> state hw' = HW_CFG_INIT"
proof -
  have "le16 (sample_version 0x01 0x53 ! 7) (sample_version 0x01 0x53 ! 8) = SKW_CHIPID_6316"
    by (simp add: sample_version_def word_unat_eq_iff)
  moreover have "nv_6316 sample_env = Some ([0x4E, 0x56, 0x44, 0x53] @ concat sv6316_records)"
    by (simp add: sample_env_def)
  moreover have "concat (map (nv_patch addr_src_init) sv6316_records) =
      [1, 6, 6, 0x62, 0x74, 0x86, 0x12, 0x24, 0x56, 5, 6, 6, 0, 0, 0x60, 0xE3, 0x16, 0, 6, 6, 1, 0,
        0x10, 6, 4, 0xC0, 0xC6, 0x2D, 0, 0x11, 6, 1, 1]"
    by (simp add: sv6316_records_def nv_patch_def addr_src_init_def)
  ultimately show ?thesis
    using config_6316_complete [OF sample_session [of "0x01" "0x53"], of "[0x4E, 0x56, 0x44, 0x53]" sv6316_records
        "(hw_cfg_zero 0)\<lparr>state := HW_CFG_START\<rparr>"] sv6316_groups
    by auto
qed

theorem config_6160_complete_witness:
  "\<exists>es hw'. cfg_run [(sample_env, Some sample_reset), (sample_env, Some (sample_version 0x17 0)), (sample_env, Some sample_reset)]
       ((hw_cfg_zero 0)\<lparr>state := HW_CFG_START\<rparr>) = Inr (es, hw') \<and>
     cfg_sent es = [[1, 0x10, 0], [0x80, 0xFC, 15, 0, 13, 0x4E, 0x56, 0x44, 0x53, 1, 6, 6, 0x12, 0x24, 0x56, 0, 0, 0]] \<and>
     cfg_results es = [True] \<and> state hw' = HW_CFG_INIT"
proof -
  have "le16 (sample_version 0x17 0 ! 7) (sample_version 0x17 0 ! 8) \<noteq> SKW_CHIPID_6316"
    by (simp add: sample_version_def word_unat_eq_iff)
  moreover have "nv_6160 sample_env = Some [0x4E, 0x56, 0x44, 0x53, 1, 6, 6, 0, 0, 0, 0, 0, 0]"
    by (simp add: sample_env_def)
  moreover have "nv_blocks [0x4E, 0x56, 0x44, 0x53, 1, 6, 6, 0, 0, 0, 0, 0, 0] =
      [[0x4E, 0x56, 0x44, 0x53, 1, 6, 6, 0, 0, 0, 0, 0, 0 :: byte]]"
    by (simp add: nv_blocks.simps)
  moreover have "u16_stream HCI_CMD_SKW_BT_NVDS = [0x80, 0xFC]"
    by (simp add: u16_stream_def word_unat_eq_iff unat_ucast_mod unat_drop_bit)
  then have "nv6160_commands addr_src_init 0 [[0x4E, 0x56, 0x44, 0x53, 1, 6, 6, 0, 0, 0, 0, 0, 0]] =
      [[0x80, 0xFC, 15, 0, 13, 0x4E, 0x56, 0x44, 0x53, 1, 6, 6, 0x12, 0x24, 0x56, 0, 0, 0]]"
    by (simp add: nv_command_def nv6160_block_def addr_src_init_def)
  ultimately show ?thesis
    using config_6160_complete [OF sample_session [of "0x17" 0], of
        "[0x4E, 0x56, 0x44, 0x53, 1, 6, 6, 0, 0, 0, 0, 0, 0]" "(hw_cfg_zero 0)\<lparr>state := HW_CFG_START\<rparr>"]
    by auto
qed

text \<open>A 6316 in the download with a given file.\<close>

definition sample_sending :: "byte list \<Rightarrow> hw_cfg" where
  "sample_sending content =
     \<lparr>state = HW_CFG_NV_SEND, file_offset = 0, nv_fp = Some (c_fopen content), chip_version = SKW_CHIPID_6316\<rparr>"

lemma sample_env_good: "env_good addr_src_init sample_env (replicate 258 0)"
  by (simp add: env_good_def sample_env_def addr_src_init_def)

theorem config_6316_overflow_witness:
  "cfg_nv_send sample_env (replicate 258 0)
     (sample_sending (concat [[2, 6, 248] @ replicate 248 0, [6, 6, 1, 0]])) = Inl OutOfBounds"
proof -
  let ?rs = "[[2, 6, 248] @ replicate 248 0, [6, 6, 1, 0]] :: byte list list"
  have "\<forall>r \<in> set ?rs. nv_record r"
    by (simp add: nv_record_def nv_need_def)
  moreover have "nv_group 0 ?rs = ([[2, 6, 248] @ replicate 248 0], [[6, 6, 1, 0]])"
    by simp
  ultimately show ?thesis
    using config_6316_overflow [OF sample_env_good, of "sample_sending (concat ?rs)" "c_fopen (concat ?rs)" ?rs]
    by (simp add: sample_sending_def c_fopen_def)
qed

theorem config_6316_truncated_witness:
  "cfg_nv_send sample_env (replicate 258 0) (sample_sending ([6, 6, 1, 0] @ [5, 6, 6, 0, 0])) = Inl UseAfterFree"
  using config_6316_truncated [OF sample_env_good, of "sample_sending ([6, 6, 1, 0] @ [5, 6, 6, 0, 0])"
      "c_fopen ([6, 6, 1, 0] @ [5, 6, 6, 0, 0])" "[[6, 6, 1, 0]]" "[5, 6, 6, 0, 0]" 9]
  by (simp add: sample_sending_def c_fopen_def nv_record_def nv_need_def)

theorem config_6316_stalls_witness:
  "\<exists>es hw'. scomm_vendor_config_callback sample_env (Some sample_reset) (sample_sending ([2, 6, 250] @ replicate 250 0)) =
     Inr (es, hw') \<and> cfg_sent es = [] \<and> cfg_results es = [] \<and> cfg_held es = 1"
proof -
  have "call_good addr_src_init (sample_env, Some sample_reset)"
    by (rule sample_call_good) (simp_all add: sample_reset_def)
  from config_6316_stalls [OF this, of "sample_sending ([2, 6, 250] @ replicate 250 0)" "c_fopen ([2, 6, 250] @ replicate 250 0)"]
  show ?thesis
    by (simp add: sample_sending_def c_fopen_def nv_need_def)
qed

theorem config_missing_file_witness:
  "\<exists>hw'. scomm_vendor_config_callback (sample_env\<lparr>nv_6316 := None\<rparr>) (Some (sample_version 0x01 0x53))
     ((hw_cfg_zero 0)\<lparr>state := HW_CFG_READ_HCI_VERSION\<rparr>) = Inr ([Cfg_alloc, Cfg_result False], hw')"
proof -
  have "call_good addr_src_init (sample_env\<lparr>nv_6316 := None\<rparr>, Some (sample_version 0x01 0x53))"
    by (simp add: sample_env_def addr_src_init_def sample_version_def)
  from config_missing_file [OF this, of "(hw_cfg_zero 0)\<lparr>state := HW_CFG_READ_HCI_VERSION\<rparr>"]
  show ?thesis
    by (simp add: sample_version_def sample_env_def word_unat_eq_iff hw_cfg_zero_def) blast
qed

end
