(* ===== verification/CfgState.thy ===== *)
theory CfgState
  imports HwCfg
begin

text \<open>
  The controller configuration as a state machine: its states in the order a configuration goes
  through them, the steps of the callback, and what holds in every state that can be reached.
\<close>

section \<open>The order of the states\<close>

text \<open>
  The place of a state in a configuration. It is the order of the enumeration, except that the address
  is written before the completion.
\<close>

primrec stage :: "hw_cfg_state \<Rightarrow> nat" where
  "stage HW_CFG_INIT = 0"
| "stage HW_CFG_START = 1"
| "stage HW_CFG_WRITE_OS_TYPE = 2"
| "stage HW_CFG_READ_HCI_VERSION = 3"
| "stage HW_CFG_NV_SEND = 4"
| "stage HW_CFG_WRITE_BD_ADDR = 5"
| "stage HW_CFG_NV_SEND_CMPL = 6"
| "stage HW_RESET_CONTROLLER = 7"
| "stage HARDWARE_INIT_COMPLETE = 8"

lemma stage_inj: "stage a = stage b \<Longrightarrow> a = b"
  by (cases a; cases b) simp_all

instantiation hw_cfg_state :: linorder
begin

definition less_eq_hw_cfg_state :: "hw_cfg_state \<Rightarrow> hw_cfg_state \<Rightarrow> bool" where
  "less_eq_hw_cfg_state a b \<longleftrightarrow> stage a \<le> stage b"

definition less_hw_cfg_state :: "hw_cfg_state \<Rightarrow> hw_cfg_state \<Rightarrow> bool" where
  "less_hw_cfg_state a b \<longleftrightarrow> stage a < stage b"

instance
  by intro_classes (auto simp: less_eq_hw_cfg_state_def less_hw_cfg_state_def intro: stage_inj)

end

section \<open>Steps\<close>


section \<open>The invariant\<close>









section \<open>Faults\<close>






end
