(* ===== verification/Conf.thy ===== *)
theory Conf
  imports Scomm CpLog
begin

text \<open>
  The configuration file \<open>skwbt.conf\<close> and its two readers in \<open>bt_vendor_skw.c\<close>:
  \<open>load_skwbt_conf\<close> takes the device nodes and the transport from it, \<open>load_skwbt_stack_conf\<close> the
  switches of the logs and of the UART power saving.
\<close>

section \<open>Strings and lines of C\<close>

abbreviation (input) NUL :: char where "NUL \<equiv> CHR 0x00"
abbreviation (input) newline :: char where "newline \<equiv> CHR 0x0A"

text \<open>\<open>isspace\<close> in the C locale, and the string in a buffer.\<close>

definition isspace :: "char \<Rightarrow> bool" where
  "isspace ch \<longleftrightarrow> ch = CHR '' '' \<or> ch = CHR 0x09 \<or> ch = newline \<or> ch = CHR 0x0B \<or> ch = CHR 0x0C \<or> ch = CHR 0x0D"

definition c_string :: "string \<Rightarrow> string" where
  "c_string buf = takeWhile (\<lambda>ch. ch \<noteq> NUL) buf"

text \<open>
  \<open>fgets\<close> with a buffer of \<open>n + 1\<close> bytes: up to \<open>n\<close> bytes, up to and including a newline, and
  the rest of the file; and the lines a \<open>while (fgets ..)\<close> loop with \<open>char line[1024]\<close> sees.
\<close>

fun fgets :: "nat \<Rightarrow> string \<Rightarrow> string \<times> string" where
  "fgets 0 s = ([], s)"
| "fgets (Suc n) [] = ([], [])"
| "fgets (Suc n) (ch # s) =
     (if ch = newline then ([ch], s) else let (l, r) = fgets n s in (ch # l, r))"

lemma fgets_append: "fgets n s = (l, r) \<Longrightarrow> s = l @ r \<and> length l \<le> n"
  by (induction n s arbitrary: l r rule: fgets.induct) (auto split: if_splits prod.splits)

lemma fgets_progress: "fgets (Suc n) s = (l, r) \<Longrightarrow> s \<noteq> [] \<Longrightarrow> length r < length s"
  using fgets_append [of n "tl s"] by (cases s) (auto split: if_splits prod.splits)

function conf_lines :: "string \<Rightarrow> string list" where
  "conf_lines s = (if s = [] then [] else let (l, r) = fgets 1023 s in l # conf_lines r)"
  by pat_completeness auto
termination
proof (relation "measure length")
  show "(r, s) \<in> measure length" if "s \<noteq> []" "x = fgets 1023 s" "(l, r) = x" for s x l r
    using that fgets_progress [of 1022 s l r] by simp
qed simp

declare conf_lines.simps [simp del]

text \<open>\<open>trim\<close>: the loop from the front, the early return, and the loop from the back.\<close>

primrec trim_end :: "string \<Rightarrow> nat \<Rightarrow> nat" where
  "trim_end str 0 = 0"
| "trim_end str (Suc e) = (if isspace (str ! Suc e) then trim_end str e else Suc e)"

definition trim :: "string \<Rightarrow> string" where
  "trim str =
     (let s = dropWhile isspace str in
      if s = [] then s else take (Suc (trim_end s (length s - 1))) s)"

text \<open>\<open>strchr (s, '=')\<close> and the two strings the separator is overwritten between.\<close>

definition split_pair :: "string \<Rightarrow> (string \<times> string) option" where
  "split_pair s =
     (if CHR ''='' \<in> set s
      then Some (takeWhile (\<lambda>ch. ch \<noteq> CHR ''='') s, tl (dropWhile (\<lambda>ch. ch \<noteq> CHR ''='') s))
      else None)"

text \<open>What both readers see in a line.\<close>

datatype conf_line = Blank | No_separator | Key_value string string

definition read_line :: "string \<Rightarrow> conf_line" where
  "read_line line =
     (let line_ptr = trim (c_string line) in
      if line_ptr = [] \<or> line_ptr ! 0 = CHR ''#'' \<or> line_ptr ! 0 = CHR ''['' then Blank
      else (case split_pair line_ptr of None \<Rightarrow> No_separator | Some (k, v) \<Rightarrow> Key_value k v))"

section \<open>The device nodes\<close>

record skwbt_conf =
  skwbt_device_node :: "string list"
  skwbt_transtype :: byte
  scomm_vnd :: "scomm_vnd_st list"

abbreviation (input) SKWBT_TRANS_TYPE_H4 :: byte where "SKWBT_TRANS_TYPE_H4 \<equiv> 0x01"
abbreviation (input) SKWBT_TRANS_TYPE_UART :: byte where "SKWBT_TRANS_TYPE_UART \<equiv> 0x10"
abbreviation (input) SKWBT_TRANS_TYPE_SDIO :: byte where "SKWBT_TRANS_TYPE_SDIO \<equiv> 0x20"
abbreviation (input) SKWBT_TRANS_TYPE_USB :: byte where "SKWBT_TRANS_TYPE_USB \<equiv> 0x40"

text \<open>\<open>strcpy\<close> into the row of a port, with the terminator.\<close>

definition node_strcpy :: "nat \<Rightarrow> string \<Rightarrow> string list \<Rightarrow> c_fault + string list" where
  "node_strcpy i name nodes =
     (if i < length nodes then
        (case store (nodes ! i) 0 (name @ [NUL]) of Inl e \<Rightarrow> Inl e | Inr row \<Rightarrow> Inr (nodes[i := row]))
      else Inl OutOfBounds)"

text \<open>The body of the loop for one device node.\<close>

definition add_node :: "nat \<Rightarrow> string \<Rightarrow> skwbt_conf \<Rightarrow> c_fault + skwbt_conf" where
  "add_node port_index v c =
     (case node_strcpy port_index (trim v) (skwbt_device_node c) of
        Inl e \<Rightarrow> Inl e
      | Inr nodes \<Rightarrow>
          (case scomm_vendor_set_port_name (scomm_vnd c) port_index (c_string (nodes ! port_index)) O_RDWR of
             Inl e \<Rightarrow> Inl e
           | Inr ports \<Rightarrow> Inr (c\<lparr>skwbt_device_node := nodes, scomm_vnd := ports\<rparr>)))"

text \<open>The loop; the flag says whether it was left by the early return.\<close>

fun node_loop :: "string list \<Rightarrow> nat \<Rightarrow> skwbt_conf \<Rightarrow> c_fault + (skwbt_conf \<times> bool)" where
  "node_loop [] port_index c = Inr (c, False)"
| "node_loop (l # ls) port_index c =
     (case read_line l of
        Blank \<Rightarrow> node_loop ls port_index c
      | No_separator \<Rightarrow> Inr (c, True)
      | Key_value k v \<Rightarrow>
          if trim k = ''BtDeviceNode'' then
            (case add_node port_index v c of Inl e \<Rightarrow> Inl e | Inr c' \<Rightarrow> node_loop ls (Suc port_index) c')
          else node_loop ls port_index c)"

text \<open>The loop that moves the name over the leading question mark.\<close>

fun shift_name :: "string \<Rightarrow> c_fault + string" where
  "shift_name [] = Inl OutOfBounds"
| "shift_name [ch] = (if ch = NUL then Inr [ch] else Inl OutOfBounds)"
| "shift_name (ch # d # r) =
     (if ch = NUL then Inr (ch # d # r) else map_sum id (\<lambda>r'. d # r') (shift_name (d # r)))"

definition load_skwbt_conf :: "string option \<Rightarrow> skwbt_conf \<Rightarrow> c_fault + skwbt_conf" where
  "load_skwbt_conf conf_file c0 =
     (let c = c0\<lparr>skwbt_device_node := replicate BT_COM_PORT_SIZE (replicate DEVICE_NODE_MAX_LEN NUL)\<rparr> in
      case conf_file of
        None \<Rightarrow> map_sum id (\<lambda>nodes. c\<lparr>skwbt_device_node := nodes\<rparr>)
                  (node_strcpy 0 ''/dev/ttyS0'' (skwbt_device_node c))
      | Some content \<Rightarrow>
          (case node_loop (conf_lines content) BT_COM_PORT_CMDEVT c of
             Inl e \<Rightarrow> Inl e
           | Inr (c1, True) \<Rightarrow> Inr c1
           | Inr (c1, False) \<Rightarrow>
               let c2 = c1\<lparr>skwbt_transtype := SKWBT_TRANS_TYPE_H4\<rparr> in
               if skwbt_device_node c2 ! 0 ! 0 = CHR ''?'' then
                 (case shift_name (skwbt_device_node c2 ! 0) of
                    Inl e \<Rightarrow> Inl e
                  | Inr row \<Rightarrow>
                      (case scomm_vendor_set_port_name (scomm_vnd c2) 0 (c_string row) O_RDWR of
                         Inl e \<Rightarrow> Inl e
                       | Inr ports \<Rightarrow>
                           Inr (c2\<lparr>skwbt_device_node := (skwbt_device_node c2)[0 := row], scomm_vnd := ports,
                                   skwbt_transtype := skwbt_transtype c2 OR SKWBT_TRANS_TYPE_UART\<rparr>)))
               else Inr c2))"

section \<open>The switches\<close>

record skwbt_flags =
  skwdriverlog_en :: bool
  skwbtuartonly :: bool
  skwbtNoSleep :: bool

definition SNOOP_PATH_SIZE :: nat where "SNOOP_PATH_SIZE = 1024"

text \<open>The chain of comparisons for one key and value; only the path can run out of its buffer.\<close>

definition set_switch :: "string \<Rightarrow> string \<Rightarrow> logs \<times> skwbt_flags \<Rightarrow> c_fault + (logs \<times> skwbt_flags)" where
  "set_switch k v = (\<lambda>(s, f).
     if trim k = ''SkwBtsnoopDump'' then Inr (s\<lparr>btsnoop_log_en := (trim v = ''true'')\<rparr>, f)
     else if trim k = ''BtSnoopFileName'' then
       (if length (trim v) + 1 \<le> SNOOP_PATH_SIZE then Inr (s\<lparr>skw_btsnoop_path := trim v\<rparr>, f) else Inl OutOfBounds)
     else if trim k = ''BtSnoopSaveLog'' then Inr (s\<lparr>btsnoop_save_log := (trim v = ''true'')\<rparr>, f)
     else if trim k = ''SkwBtcplog'' then Inr (s\<lparr>btcp_log_en := (trim v = ''true'')\<rparr>, f)
     else if trim k = ''SkwLogSlice'' then Inr (s\<lparr>skwlog_slice := (trim v = ''true'')\<rparr>, f)
     else if trim k = ''SkwBtDrvlog'' then
       Inr (s, if trim v = ''false'' then f\<lparr>skwdriverlog_en := False\<rparr> else f)
     else if trim k = ''SkwBtUartOnly'' then
       Inr (s, if trim v = ''false'' then f\<lparr>skwbtuartonly := False\<rparr> else f)
     else if trim k = ''SkwBtNoSleep'' then
       Inr (s, if trim v = ''true'' then f\<lparr>skwbtNoSleep := True\<rparr> else f)
     else Inr (s, f))"

fun switch_loop :: "string list \<Rightarrow> logs \<times> skwbt_flags \<Rightarrow> c_fault + (logs \<times> skwbt_flags)" where
  "switch_loop [] sf = Inr sf"
| "switch_loop (l # ls) sf =
     (case read_line l of
        Blank \<Rightarrow> switch_loop ls sf
      | No_separator \<Rightarrow> switch_loop ls sf
      | Key_value k v \<Rightarrow> (case set_switch k v sf of Inl e \<Rightarrow> Inl e | Inr sf' \<Rightarrow> switch_loop ls sf'))"

definition load_skwbt_stack_conf :: "string option \<Rightarrow> logs \<times> skwbt_flags \<Rightarrow> c_fault + (logs \<times> skwbt_flags)" where
  "load_skwbt_stack_conf conf_file sf =
     (case conf_file of None \<Rightarrow> Inr sf | Some content \<Rightarrow> switch_loop (conf_lines content) sf)"

section \<open>Lines\<close>

lemma conf_lines_concat: "concat (conf_lines s) = s"
proof (induction s rule: conf_lines.induct)
  case (1 s)
  obtain l r where lr: "fgets 1023 s = (l, r)" by fastforce
  then show ?case
    using 1 [OF _ refl, of l r] fgets_append [OF lr] by (subst conf_lines.simps) auto
qed

lemma conf_lines_short: "l \<in> set (conf_lines s) \<Longrightarrow> length l \<le> 1023"
proof (induction s rule: conf_lines.induct)
  case (1 s)
  obtain l' r where lr: "fgets 1023 s = (l', r)" by fastforce
  have "s \<noteq> []" "l = l' \<or> l \<in> set (conf_lines r)"
    using "1.prems" lr by (subst (asm) conf_lines.simps; auto split: if_splits)+
  then show ?case
    using "1.IH" [OF _ refl, of l' r] fgets_append [OF lr] lr by auto
qed

text \<open>A text file of lines shorter than the buffer is read line by line.\<close>

definition text_file :: "string list \<Rightarrow> string" where
  "text_file ls = concat (map (\<lambda>l. l @ [newline]) ls)"

lemma fgets_line: "newline \<notin> set l \<Longrightarrow> length l < n \<Longrightarrow> fgets n (l @ newline # r) = (l @ [newline], r)"
proof (induction l arbitrary: n)
  case Nil
  then show ?case by (cases n) auto
next
  case (Cons ch l)
  then show ?case by (cases n) auto
qed

lemma conf_lines_text_file:
  "\<forall>l \<in> set ls. newline \<notin> set l \<and> length l < 1023 \<Longrightarrow> conf_lines (text_file ls) = map (\<lambda>l. l @ [newline]) ls"
proof (induction ls)
  case Nil
  then show ?case by (simp add: text_file_def conf_lines.simps)
next
  case (Cons l ls)
  have "text_file (l # ls) = l @ newline # text_file ls"
    by (simp add: text_file_def)
  then show ?case
    using Cons fgets_line [of l 1023 "text_file ls"] by (subst conf_lines.simps) simp
qed

section \<open>Trimming\<close>

lemma trim_end_le: "trim_end str e \<le> e"
  by (induction e) auto

lemma trim_end_spaces: "trim_end str e < i \<Longrightarrow> i \<le> e \<Longrightarrow> isspace (str ! i)"
  by (induction e) (auto split: if_splits simp: le_Suc_eq)

lemma trim_end_stop: "\<not> isspace (str ! 0) \<Longrightarrow> \<not> isspace (str ! trim_end str e)"
  by (induction e) auto

text \<open>What \<open>trim\<close> is: the rest without the spaces around it.\<close>

definition trimmed :: "string \<Rightarrow> bool" where
  "trimmed s \<longleftrightarrow> s = [] \<or> \<not> isspace (hd s) \<and> \<not> isspace (List.last s)"

lemma trim_cases:
  obtains "trim s = []" "\<forall>ch \<in> set s. isspace ch"
  | a b where "s = a @ trim s @ b" "\<forall>ch \<in> set a \<union> set b. isspace ch" "trim s \<noteq> []" "trimmed (trim s)"
proof (cases "dropWhile isspace s = []")
  case True
  then show ?thesis using that(1) by (simp add: trim_def)
next
  case False
  define d e where "d = dropWhile isspace s" and "e = trim_end d (length d - 1)"
  have d: "d \<noteq> []" "\<not> isspace (d ! 0)"
    using False hd_dropWhile [of isspace s] by (auto simp: d_def hd_conv_nth)
  have e: "e < length d" using d(1) trim_end_le [of d "length d - 1"] by (cases d) (auto simp: e_def)
  have t: "trim s = take (Suc e) d" using False unfolding trim_def d_def e_def Let_def by (simp only: if_False)
  have "\<forall>ch \<in> set (drop (Suc e) d). isspace ch"
  proof
    fix ch assume "ch \<in> set (drop (Suc e) d)"
    then obtain i where i: "i < length d - Suc e" "ch = d ! (Suc e + i)" by (auto simp: in_set_conv_nth)
    then show "isspace ch"
      using trim_end_spaces [of d "length d - 1" "Suc e + i"] by (auto simp: e_def)
  qed
  moreover have "\<forall>ch \<in> set (takeWhile isspace s). isspace ch" by (auto dest: set_takeWhileD)
  moreover have "s = takeWhile isspace s @ trim s @ drop (Suc e) d" by (simp add: t) (simp add: d_def)
  moreover have "trimmed (trim s)"
    using e d trim_end_stop [OF d(2), of "length d - 1", folded e_def]
    by (simp add: trimmed_def t hd_take last_conv_nth hd_conv_nth)
  ultimately show ?thesis using that(2) [of "takeWhile isspace s" "drop (Suc e) d"] d e by (auto simp: t)
qed

lemma trim_end_unique:
  "i \<le> e \<Longrightarrow> \<not> isspace (str ! i) \<Longrightarrow> (\<And>j. i < j \<Longrightarrow> j \<le> e \<Longrightarrow> isspace (str ! j)) \<Longrightarrow> trim_end str e = i"
proof (induction e)
  case (Suc e)
  show ?case
  proof (cases "i = Suc e")
    case True
    then show ?thesis using Suc.prems by auto
  next
    case False
    then show ?thesis using Suc by auto
  qed
qed simp

lemma trim_spaces: "\<forall>ch \<in> set s. isspace ch \<Longrightarrow> trim s = []"
  by (simp add: trim_def)

lemma trim_append:
  assumes "\<forall>ch \<in> set a. isspace ch" "\<forall>ch \<in> set b. isspace ch" "trimmed m"
  shows "trim (a @ m @ b) = m"
proof (cases "m = []")
  case True
  then show ?thesis using assms by (intro trans [OF trim_spaces]) auto
next
  case False
  have m: "\<not> isspace (m ! 0)" "\<not> isspace (m ! (length m - 1))"
    using assms(3) False by (simp_all add: trimmed_def hd_conv_nth last_conv_nth)
  have d: "dropWhile isspace (a @ m @ b) = m @ b"
    using assms(1) m(1) False by (cases m) (simp_all add: dropWhile_append2)
  have "trim_end (m @ b) (length (m @ b) - 1) = length m - 1"
    using m(2) False assms(2) by (intro trim_end_unique) (auto simp: nth_append Suc_le_eq)
  then show ?thesis using False by (simp add: trim_def d)
qed

lemma trim_trimmed [simp]: "trimmed m \<Longrightarrow> trim m = m"
  using trim_append [of "[]" "[]" m] by simp

lemma trimmed_trim [simp]: "trimmed (trim s)"
  by (cases rule: trim_cases [of s]) (auto simp: trimmed_def)

lemma trim_split: "\<exists>a b. s = a @ trim s @ b \<and> (\<forall>ch \<in> set a \<union> set b. isspace ch)"
proof (cases rule: trim_cases [of s])
  case 1
  then show ?thesis by (intro exI [of _ s] exI [of _ "[]"]) simp
qed blast

lemma length_trim: "length (trim s) \<le> length s"
  using trim_split [of s] by (metis le_add2 le_trans length_append nat_le_iff_add)

lemma set_trim: "set (trim s) \<subseteq> set s"
  using trim_split [of s] by (metis set_append sup_ge1 sup_ge2 subset_trans)

text \<open>
  The trimming of keys and values is exact: it keeps a part of the string that neither starts
  nor ends with white space, and it drops nothing but white space; there is only one such part, and
  it is empty exactly for a blank string. Trimming twice, as the chain of comparisons does, changes nothing.
\<close>

theorem trim_exact:
  "trim (trim s) = trim s \<and> (trim s = [] \<longleftrightarrow> (\<forall>ch \<in> set s. isspace ch)) \<and>
   {m. trimmed m \<and> (\<exists>a b. s = a @ m @ b \<and> (\<forall>ch \<in> set a \<union> set b. isspace ch))} = {trim s}"
proof (intro conjI)
  have split: "\<exists>a b. s = a @ trim s @ b \<and> (\<forall>ch \<in> set a \<union> set b. isspace ch)"
    by (rule trim_split)
  then show "trim s = [] \<longleftrightarrow> (\<forall>ch \<in> set s. isspace ch)"
    by (auto simp: trim_spaces)
  show "{m. trimmed m \<and> (\<exists>a b. s = a @ m @ b \<and> (\<forall>ch \<in> set a \<union> set b. isspace ch))} = {trim s}"
    using split by (auto simp: trim_append)
qed simp

theorem trim_exact_witness: "trim ''  BtDeviceNode '' = ''BtDeviceNode''"
proof -
  have "''BtDeviceNode'' \<in> {m. trimmed m \<and> (\<exists>a b. ''  BtDeviceNode '' = a @ m @ b \<and> (\<forall>ch \<in> set a \<union> set b. isspace ch))}"
    by (rule CollectI, rule conjI, simp add: trimmed_def isspace_def, intro exI [of _ "''  ''"] exI [of _ "'' ''"])
      (simp add: isspace_def)
  then show ?thesis
    using trim_exact [of "''  BtDeviceNode ''"] by simp
qed

section \<open>The switches of a whole file\<close>

text \<open>The values the file gives a key, in order.\<close>

fun line_value :: "string \<Rightarrow> conf_line \<Rightarrow> string list" where
  "line_value key (Key_value k v) = (if trim k = key then [trim v] else [])"
| "line_value key _ = []"

definition conf_values :: "string \<Rightarrow> string list \<Rightarrow> string list" where
  "conf_values key ls = concat (map (\<lambda>l. line_value key (read_line l)) ls)"

lemma conf_values_simps [simp]:
  "conf_values key [] = []" "conf_values key (l # ls) = line_value key (read_line l) @ conf_values key ls"
  by (simp_all add: conf_values_def)

text \<open>The value a switch ends up with: that of the last line for it.\<close>

definition final :: "'a \<Rightarrow> 'a list \<Rightarrow> 'a" where
  "final x vs = (if vs = [] then x else List.last vs)"

lemma final_simps [simp]: "final x [] = x" "final x (v # vs) = final v vs" "final x (vs @ ws) = final (final x vs) ws"
  by (simp_all add: final_def)

lemma read_line_bounds: "read_line l = Key_value k v \<Longrightarrow> length v < length l"
proof -
  assume p: "read_line l = Key_value k v"
  have "length (trim (c_string l)) \<le> length l"
    using length_trim [of "c_string l"] length_takeWhile_le [of _ l] by (auto simp: c_string_def intro: le_trans)
  moreover have "CHR ''='' \<in> set (trim (c_string l))" "v = tl (dropWhile (\<lambda>ch. ch \<noteq> CHR ''='') (trim (c_string l)))"
    using p by (auto simp: read_line_def split_pair_def Let_def split: if_splits)
  then have "length v < length (trim (c_string l))"
    using length_dropWhile_le [of "\<lambda>ch. ch \<noteq> CHR ''=''" "trim (c_string l)"]
    by (cases "dropWhile (\<lambda>ch. ch \<noteq> CHR ''='') (trim (c_string l))") auto
  ultimately show ?thesis by linarith
qed

text \<open>What a whole file makes of the switches.\<close>

definition switched :: "string list \<Rightarrow> logs \<times> skwbt_flags \<Rightarrow> logs \<times> skwbt_flags" where
  "switched ls = (\<lambda>(s, f).
     (s\<lparr>btsnoop_log_en := final (btsnoop_log_en s) (map (\<lambda>v. v = ''true'') (conf_values ''SkwBtsnoopDump'' ls)),
        skw_btsnoop_path := final (skw_btsnoop_path s) (conf_values ''BtSnoopFileName'' ls),
        btsnoop_save_log := final (btsnoop_save_log s) (map (\<lambda>v. v = ''true'') (conf_values ''BtSnoopSaveLog'' ls)),
        btcp_log_en := final (btcp_log_en s) (map (\<lambda>v. v = ''true'') (conf_values ''SkwBtcplog'' ls)),
        skwlog_slice := final (skwlog_slice s) (map (\<lambda>v. v = ''true'') (conf_values ''SkwLogSlice'' ls))\<rparr>,
      \<lparr>skwdriverlog_en = (skwdriverlog_en f \<and> ''false'' \<notin> set (conf_values ''SkwBtDrvlog'' ls)),
       skwbtuartonly = (skwbtuartonly f \<and> ''false'' \<notin> set (conf_values ''SkwBtUartOnly'' ls)),
       skwbtNoSleep = (skwbtNoSleep f \<or> ''true'' \<in> set (conf_values ''SkwBtNoSleep'' ls))\<rparr>))"

lemma set_switch_switched:
  assumes "read_line l = Key_value k v" "length l \<le> 1023"
  shows "set_switch k v sf = Inr (switched [l] sf)"
proof -
  have "length (trim v) + 1 \<le> SNOOP_PATH_SIZE"
    using read_line_bounds [OF assms(1)] assms(2) length_trim [of v] by (simp add: SNOOP_PATH_SIZE_def)
  then show ?thesis
    using assms(1) by (cases sf) (simp add: set_switch_def switched_def)
qed

lemma switched_Cons: "switched (l # ls) sf = switched ls (switched [l] sf)"
  by (cases sf) (auto simp: switched_def)

lemma switched_no_pair: "(\<And>k v. read_line l \<noteq> Key_value k v) \<Longrightarrow> switched [l] sf = sf"
  by (cases sf; cases "read_line l") (auto simp: switched_def)

lemma switch_loop_switched:
  "\<forall>l \<in> set ls. length l \<le> 1023 \<Longrightarrow> switch_loop ls sf = Inr (switched ls sf)"
proof (induction ls sf rule: switch_loop.induct)
  case (1 sf)
  then show ?case by (cases sf) (simp add: switched_def)
next
  case (2 l ls sf)
  show ?case
  proof (cases "read_line l")
    case Blank
    then show ?thesis using 2 switched_no_pair [of l sf] by (simp add: switched_Cons [of l ls])
  next
    case No_separator
    then show ?thesis using 2 switched_no_pair [of l sf] by (simp add: switched_Cons [of l ls])
  next
    case (Key_value k v)
    with 2 set_switch_switched [OF Key_value, of sf] show ?thesis by (simp add: switched_Cons [of l ls])
  qed
qed

text \<open>
  C37: Reading the switches of any configuration file, well-formed or not, runs to the end without
  writing outside the path buffer, and every switch ends up as its last line says: the log switches
  are on exactly if the last line for them says \<open>true\<close> (and keep their value without a line), the
  path is the trimmed value of the last line. The driver log, UART-only and no-sleep switches are
  one-way: any line that says \<open>false\<close> (\<open>true\<close> for no-sleep) sets them, and no line sets them back.
\<close>

theorem load_skwbt_stack_conf_final:
  "load_skwbt_stack_conf (Some content) (s, f) =
     (let vs = (\<lambda>key. conf_values key (conf_lines content)); is_true = (\<lambda>v. v = ''true'') in
      Inr (s\<lparr>btsnoop_log_en := final (btsnoop_log_en s) (map is_true (vs ''SkwBtsnoopDump'')),
             skw_btsnoop_path := final (skw_btsnoop_path s) (vs ''BtSnoopFileName''),
             btsnoop_save_log := final (btsnoop_save_log s) (map is_true (vs ''BtSnoopSaveLog'')),
             btcp_log_en := final (btcp_log_en s) (map is_true (vs ''SkwBtcplog'')),
             skwlog_slice := final (skwlog_slice s) (map is_true (vs ''SkwLogSlice''))\<rparr>,
           \<lparr>skwdriverlog_en = (skwdriverlog_en f \<and> ''false'' \<notin> set (vs ''SkwBtDrvlog'')),
            skwbtuartonly = (skwbtuartonly f \<and> ''false'' \<notin> set (vs ''SkwBtUartOnly'')),
            skwbtNoSleep = (skwbtNoSleep f \<or> ''true'' \<in> set (vs ''SkwBtNoSleep''))\<rparr>))"
  using switch_loop_switched [of "conf_lines content" "(s, f)"] conf_lines_short [of _ content]
  by (simp add: load_skwbt_stack_conf_def switched_def Let_def)

section \<open>The device nodes of a whole file\<close>

text \<open>The lines up to the first one without a separator, and whether there is one.\<close>

definition well_formed_part :: "string list \<Rightarrow> string list" where
  "well_formed_part ls = takeWhile (\<lambda>l. read_line l \<noteq> No_separator) ls"

text \<open>The nodes the code stores.\<close>

definition conf_nodes :: "string list \<Rightarrow> string list" where
  "conf_nodes ls = conf_values ''BtDeviceNode'' (well_formed_part ls)"

lemma conf_nodes_simps [simp]:
  "conf_nodes [] = []"
  "read_line l = No_separator \<Longrightarrow> conf_nodes (l # ls) = []"
  "read_line l \<noteq> No_separator \<Longrightarrow> conf_nodes (l # ls) = line_value ''BtDeviceNode'' (read_line l) @ conf_nodes ls"
  by (simp_all add: conf_nodes_def well_formed_part_def)

text \<open>A name as the port table and the node table hold it: padded to the size of the array.\<close>

definition padded :: "string \<Rightarrow> string" where
  "padded name = name @ replicate (DEVICE_NODE_MAX_LEN - length name) NUL"

lemma c_string_padded: "NUL \<notin> set name \<Longrightarrow> c_string (padded name) = name"
  unfolding c_string_def padded_def by (subst takeWhile_append2) (auto intro: ccontr)

lemma length_padded: "length name \<le> DEVICE_NODE_MAX_LEN \<Longrightarrow> length (padded name) = DEVICE_NODE_MAX_LEN"
  by (simp add: padded_def)

text \<open>The configuration after the nodes \<open>ns\<close>, on the port table \<open>ports\<close>.\<close>

definition named_ports :: "string list \<Rightarrow> scomm_vnd_st list \<Rightarrow> scomm_vnd_st list" where
  "named_ports ns ports =
     map (\<lambda>i. if i < length ns then (ports ! i)\<lparr>port_name := padded (ns ! i), mode := O_RDWR\<rparr> else ports ! i)
       [0..<length ports]"

definition node_rows :: "string list \<Rightarrow> string list" where
  "node_rows ns = map padded ns @ replicate (BT_COM_PORT_SIZE - length ns) (padded [])"

definition node_conf :: "string list \<Rightarrow> skwbt_conf \<Rightarrow> skwbt_conf" where
  "node_conf ns c = c\<lparr>skwbt_device_node := node_rows ns, scomm_vnd := named_ports ns (scomm_vnd c)\<rparr>"

definition node_fits :: "string list \<Rightarrow> bool" where
  "node_fits ns \<longleftrightarrow> length ns \<le> BT_COM_PORT_SIZE \<and> (\<forall>n \<in> set ns. length n < DEVICE_NODE_MAX_LEN)"

lemma store_blank:
  "length bs \<le> DEVICE_NODE_MAX_LEN \<Longrightarrow> store (replicate DEVICE_NODE_MAX_LEN NUL) 0 bs = Inr (padded bs)"
  by (simp add: store_def overwrite_def padded_def)

lemma padded_blank: "padded [] = replicate DEVICE_NODE_MAX_LEN NUL"
  by (simp add: padded_def)

lemma padded_terminated: "length n < DEVICE_NODE_MAX_LEN \<Longrightarrow> padded (n @ [NUL]) = padded n"
  by (simp add: padded_def Suc_diff_Suc flip: replicate_Suc)

lemma node_rows_next: "length ns < BT_COM_PORT_SIZE \<Longrightarrow> (node_rows ns)[length ns := padded n] = node_rows (ns @ [n])"
proof -
  assume "length ns < BT_COM_PORT_SIZE"
  then have "replicate (BT_COM_PORT_SIZE - length ns) (padded []) = padded [] # replicate (BT_COM_PORT_SIZE - Suc (length ns)) (padded [])"
    by (simp flip: replicate_Suc add: Suc_diff_Suc)
  then show ?thesis by (simp add: node_rows_def list_update_append)
qed

lemma named_ports_next:
  "length ns < length ports \<Longrightarrow>
     (named_ports ns ports)[length ns := (named_ports ns ports ! length ns)\<lparr>port_name := padded n, mode := O_RDWR\<rparr>] =
     named_ports (ns @ [n]) ports"
  by (rule nth_equalityI) (auto simp: named_ports_def nth_list_update nth_append)

lemma add_node_fits:
  assumes "length (scomm_vnd c) = BT_COM_PORT_SIZE" "node_fits (ns @ [trim v])" "NUL \<notin> set (trim v)"
  shows "add_node (length ns) v (node_conf ns c) = Inr (node_conf (ns @ [trim v]) c)"
proof -
  have l: "length ns < BT_COM_PORT_SIZE" "length (trim v) < DEVICE_NODE_MAX_LEN"
    using assms(2) by (auto simp: node_fits_def)
  have "node_rows ns ! length ns = replicate DEVICE_NODE_MAX_LEN NUL" "length (node_rows ns) = BT_COM_PORT_SIZE"
    using l by (simp_all add: node_rows_def nth_append padded_blank)
  then have "node_strcpy (length ns) (trim v) (node_rows ns) = Inr (node_rows (ns @ [trim v]))"
    using l store_blank [of "trim v @ [NUL]"] padded_terminated [of "trim v"] node_rows_next [OF l(1), of "trim v"]
    by (simp add: node_strcpy_def)
  moreover have "c_string (node_rows (ns @ [trim v]) ! length ns) = trim v"
    using c_string_padded [OF assms(3)] by (simp add: node_rows_def nth_append)
  moreover have "length (named_ports ns (scomm_vnd c)) = BT_COM_PORT_SIZE"
    using assms(1) by (simp add: named_ports_def)
  then have "scomm_vendor_set_port_name (named_ports ns (scomm_vnd c)) (length ns) (trim v) O_RDWR =
      Inr (named_ports (ns @ [trim v]) (scomm_vnd c))"
    using l store_blank [of "trim v"] named_ports_next [of ns "scomm_vnd c" "trim v"] assms(1)
    by (simp add: scomm_vendor_set_port_name_def)
  ultimately show ?thesis
    by (simp add: add_node_def node_conf_def)
qed

lemma add_node_overflow:
  assumes "node_fits ns" "\<not> node_fits (ns @ [trim v])"
  shows "add_node (length ns) v (node_conf ns c) = Inl OutOfBounds"
proof (cases "length ns < BT_COM_PORT_SIZE")
  case True
  then have "DEVICE_NODE_MAX_LEN \<le> length (trim v)"
    using assms by (auto simp: node_fits_def)
  then show ?thesis
    using True by (simp add: add_node_def node_strcpy_def node_conf_def node_rows_def nth_append padded_blank store_def)
next
  case False
  then show ?thesis
    using assms(1) by (simp add: add_node_def node_strcpy_def node_conf_def node_rows_def node_fits_def)
qed

lemma read_line_no_NUL: "read_line l = Key_value k v \<Longrightarrow> NUL \<notin> set (trim v)"
proof -
  assume "read_line l = Key_value k v"
  then have "v = tl (dropWhile (\<lambda>ch. ch \<noteq> CHR ''='') (trim (c_string l)))"
    by (auto simp: read_line_def split_pair_def Let_def split: if_splits)
  then have "set v \<subseteq> set (trim (c_string l))"
    by (metis (no_types, lifting) list.set_sel(2) set_dropWhileD subsetI tl_Nil)
  with set_trim [of "c_string l"] set_trim [of v] show ?thesis
    unfolding c_string_def by (blast dest: set_takeWhileD)
qed

lemma node_fits_prefix: "\<not> node_fits ns \<Longrightarrow> \<not> node_fits (ns @ ms)"
  by (auto simp: node_fits_def)

lemma node_loop_nodes:
  assumes "length (scomm_vnd c) = BT_COM_PORT_SIZE" "node_fits ns"
  shows "node_loop ls (length ns) (node_conf ns c) =
    (if node_fits (ns @ conf_nodes ls) then Inr (node_conf (ns @ conf_nodes ls) c, \<exists>l \<in> set ls. read_line l = No_separator)
     else Inl OutOfBounds)"
  using assms(2)
proof (induction ls arbitrary: ns)
  case Nil
  then show ?case by simp
next
  case (Cons l ls)
  show ?case
  proof (cases "read_line l")
    case (Key_value k v)
    show ?thesis
    proof (cases "trim k = ''BtDeviceNode''")
      case True
      show ?thesis
      proof (cases "node_fits (ns @ [trim v])")
        case fits: True
        then show ?thesis
          using Cons.IH [OF fits] add_node_fits [OF assms(1) fits read_line_no_NUL [OF Key_value]] Key_value True by simp
      next
        case False
        then show ?thesis
          using add_node_overflow [OF Cons.prems False] node_fits_prefix [OF False] Key_value True by simp
      qed
    next
      case False
      then show ?thesis using Cons Key_value by simp
    qed
  qed (use Cons in simp_all)
qed

lemma shift_name_padded:
  "NUL \<notin> set n \<Longrightarrow> n \<noteq> [] \<Longrightarrow> shift_name (n @ replicate (Suc m) NUL) = Inr (tl n @ replicate (Suc (Suc m)) NUL)"
proof (induction n)
  case (Cons ch n)
  then show ?case by (cases n; cases m) auto
qed simp

text \<open>The device node of port 0 without the mark of a UART.\<close>

definition uart_marked :: "string list \<Rightarrow> bool" where
  "uart_marked ns \<longleftrightarrow> ns \<noteq> [] \<and> ns ! 0 \<noteq> [] \<and> ns ! 0 ! 0 = CHR ''?''"

definition unmarked :: "string list \<Rightarrow> string list" where
  "unmarked ns = (if uart_marked ns then ns[0 := tl (ns ! 0)] else ns)"

lemma named_ports_first:
  assumes "ns \<noteq> []" "ports \<noteq> []"
  shows "(named_ports ns ports)[0 := (named_ports ns ports ! 0)\<lparr>port_name := padded n, mode := O_RDWR\<rparr>] = named_ports (ns[0 := n]) ports"
  using assms by (intro nth_equalityI) (auto simp: named_ports_def nth_list_update)

lemma node_conf_unmark:
  assumes "length (scomm_vnd c) = BT_COM_PORT_SIZE" "node_fits ns" "uart_marked ns" "NUL \<notin> set (ns ! 0)"
  shows "shift_name (node_rows ns ! 0) = Inr (padded (tl (ns ! 0)))"
    and "scomm_vendor_set_port_name (named_ports ns (scomm_vnd c)) 0 (c_string (padded (tl (ns ! 0)))) O_RDWR =
         Inr (named_ports (unmarked ns) (scomm_vnd c))"
    and "(node_rows ns)[0 := padded (tl (ns ! 0))] = node_rows (unmarked ns)"
proof -
  obtain ch n ns' where ns: "ns = (ch # n) # ns'" "NUL \<notin> set n" "ch \<noteq> NUL" "length n + 1 < DEVICE_NODE_MAX_LEN"
    using assms(2-4) by (cases ns; cases "ns ! 0") (auto simp: uart_marked_def node_fits_def)
  then obtain m where "DEVICE_NODE_MAX_LEN = length n + Suc (Suc m)"
    by (metis add_Suc_right less_natE Suc_eq_plus1 add_Suc)
  then have "DEVICE_NODE_MAX_LEN - Suc (length n) = Suc m" "DEVICE_NODE_MAX_LEN - length n = Suc (Suc m)"
    by simp_all
  then show "shift_name (node_rows ns ! 0) = Inr (padded (tl (ns ! 0)))"
    using shift_name_padded [of "ch # n" m] ns by (simp add: node_rows_def padded_def)
  have "scomm_vnd c \<noteq> []"
    using assms(1) by (auto simp: BT_COM_PORT_SIZE_def)
  then show "scomm_vendor_set_port_name (named_ports ns (scomm_vnd c)) 0 (c_string (padded (tl (ns ! 0)))) O_RDWR =
         Inr (named_ports (unmarked ns) (scomm_vnd c))"
    using named_ports_first [of ns "scomm_vnd c" n] store_blank [of n] ns assms(3)
    by (simp add: scomm_vendor_set_port_name_def c_string_padded unmarked_def) (simp add: named_ports_def)
  show "(node_rows ns)[0 := padded (tl (ns ! 0))] = node_rows (unmarked ns)"
    using ns assms(3) by (simp add: node_rows_def unmarked_def)
qed

lemma conf_nodes_no_NUL: "n \<in> set (conf_nodes ls) \<Longrightarrow> NUL \<notin> set n"
proof (induction ls)
  case (Cons l ls)
  then show ?case
    by (cases "read_line l") (auto dest: read_line_no_NUL split: if_splits)
qed simp

lemma node_rows_mark: "node_rows ns ! 0 ! 0 = CHR ''?'' \<longleftrightarrow> uart_marked ns"
proof (cases ns)
  case Nil
  then show ?thesis by (simp add: node_rows_def uart_marked_def padded_blank BT_COM_PORT_SIZE_def DEVICE_NODE_MAX_LEN_def)
next
  case (Cons n ns')
  then show ?thesis
    by (cases n) (simp_all add: node_rows_def uart_marked_def padded_def DEVICE_NODE_MAX_LEN_def)
qed

text \<open>
  C36: Reading the device nodes of a configuration file, for every file. The nodes are the trimmed values
  of the \<open>BtDeviceNode\<close> lines before the first line that is neither blank, a comment nor a pair. If
  there are at most four and each is shorter than 64 characters, the ports get these names in
  order, the other ports keep theirs, and then the transport is set: UART if the first name starts
  with a question mark, which is taken off it. A line without a separator ends the reading before
  the transport is set. With more or longer nodes the reading writes outside the tables.
\<close>

theorem load_skwbt_conf_nodes:
  assumes "length (scomm_vnd c) = BT_COM_PORT_SIZE"
  shows "load_skwbt_conf (Some content) c =
    (let ls = conf_lines content; ns = conf_nodes ls in
     if \<not> node_fits ns then Inl OutOfBounds
     else if \<exists>l \<in> set ls. read_line l = No_separator then Inr (node_conf ns c)
     else if uart_marked ns then Inr ((node_conf (unmarked ns) c)\<lparr>skwbt_transtype := SKWBT_TRANS_TYPE_H4 OR SKWBT_TRANS_TYPE_UART\<rparr>)
     else Inr ((node_conf ns c)\<lparr>skwbt_transtype := SKWBT_TRANS_TYPE_H4\<rparr>))"
proof -
  let ?ls = "conf_lines content" and ?ns = "conf_nodes (conf_lines content)"
  have "node_fits []" "named_ports [] (scomm_vnd c) = scomm_vnd c"
    by (auto simp: node_fits_def named_ports_def map_nth)
  then have start: "c\<lparr>skwbt_device_node := replicate BT_COM_PORT_SIZE (replicate DEVICE_NODE_MAX_LEN NUL)\<rparr> = node_conf [] c"
    "node_loop ?ls 0 (node_conf [] c) =
      (if node_fits ?ns then Inr (node_conf ?ns c, \<exists>l \<in> set ?ls. read_line l = No_separator) else Inl OutOfBounds)"
    using node_loop_nodes [OF assms, of "[]" ?ls] by (simp_all add: node_conf_def node_rows_def padded_blank)
  have "uart_marked ?ns \<Longrightarrow> NUL \<notin> set (?ns ! 0)"
    using conf_nodes_no_NUL [of "?ns ! 0" ?ls] by (auto simp: uart_marked_def)
  with node_conf_unmark [OF assms, of ?ns] show ?thesis
    unfolding load_skwbt_conf_def Let_def start(1) option.case start(2)
    by (simp add: node_conf_def node_rows_mark)
qed

lemma read_text_line:
  "NUL \<notin> set l \<Longrightarrow> trimmed l \<Longrightarrow>
     read_line (l @ [newline]) =
       (if l = [] \<or> l ! 0 = CHR ''#'' \<or> l ! 0 = CHR ''['' then Blank
        else (case split_pair l of None \<Rightarrow> No_separator | Some (k, v) \<Rightarrow> Key_value k v))"
proof -
  assume l: "NUL \<notin> set l" "trimmed l"
  then have "c_string (l @ [newline]) = l @ [newline]"
    by (auto simp: c_string_def takeWhile_eq_all_conv)
  moreover have "trim (l @ [newline]) = l"
    using trim_append [of "[]" "[newline]" l] l(2) by (simp add: isspace_def)
  ultimately show ?thesis by (simp add: read_line_def)
qed

lemma read_text_lines:
  "\<forall>l \<in> set ls. NUL \<notin> set l \<and> trimmed l \<Longrightarrow>
     map read_line (map (\<lambda>l. l @ [newline]) ls) =
     map (\<lambda>l. if l = [] \<or> l ! 0 = CHR ''#'' \<or> l ! 0 = CHR ''['' then Blank
        else (case split_pair l of None \<Rightarrow> No_separator | Some (k, v) \<Rightarrow> Key_value k v)) ls"
  by (simp add: read_text_line)

text \<open>The shipped \<open>skwbt.conf\<close>, line by line.\<close>

definition shipped_conf :: "string list" where
  "shipped_conf =
    [''# RELEASE NAME: 20210721_BT_ANDROID_10.0'', ''# Bluetooth Device Name'', ''#Name=SeekWave Bluetooth'', [],
     ''#Indicate USB/SDIO or UART driver bluetooth'', ''BtDeviceNode=/dev/BTCMD'', ''BtDeviceNode=/dev/BTDATA'',
     ''BtDeviceNode=/dev/BTAUDIO'', ''BtDeviceNode=/dev/BTISOC'', ''#BtDeviceNode=?/dev/ttyS0'', [],
     ''# Enable BtSnoop logging function'', ''# valid value : true, false'', ''SkwBtUartOnly=false'',
     ''#SkwBtNoSleep:just for uart mode'', ''SkwBtNoSleep=false'', ''SkwBtsnoopDump=true'', ''SkwBtcplog=true'',
     ''SkwBtDrvlog=true'', ''# BtSnoop log output file'', ''BtSnoopFileName=/data/misc/bluedroid/btsnoop_hci.cfa'',
     [], [], ''# Preserve existing BtSnoop log before overwriting'', ''BtSnoopSaveLog=true'', ''SkwLogSlice=true'']"

lemma shipped_lines:
  "conf_lines (text_file shipped_conf) = map (\<lambda>l. l @ [newline]) shipped_conf"
  by (rule conf_lines_text_file) (simp add: shipped_conf_def)

lemma shipped_read:
  "map read_line (conf_lines (text_file shipped_conf)) =
    [Blank, Blank, Blank, Blank, Blank, Key_value ''BtDeviceNode'' ''/dev/BTCMD'', Key_value ''BtDeviceNode'' ''/dev/BTDATA'',
     Key_value ''BtDeviceNode'' ''/dev/BTAUDIO'', Key_value ''BtDeviceNode'' ''/dev/BTISOC'', Blank, Blank, Blank, Blank,
     Key_value ''SkwBtUartOnly'' ''false'', Blank, Key_value ''SkwBtNoSleep'' ''false'', Key_value ''SkwBtsnoopDump'' ''true'',
     Key_value ''SkwBtcplog'' ''true'', Key_value ''SkwBtDrvlog'' ''true'', Blank,
     Key_value ''BtSnoopFileName'' ''/data/misc/bluedroid/btsnoop_hci.cfa'', Blank, Blank, Blank,
     Key_value ''BtSnoopSaveLog'' ''true'', Key_value ''SkwLogSlice'' ''true'']"
  unfolding shipped_lines
  by (subst read_text_lines) (simp_all add: shipped_conf_def trimmed_def isspace_def split_pair_def)

lemma conf_values_read: "conf_values key ls = concat (map (line_value key) (map read_line ls))"
  by (simp add: conf_values_def comp_def)

lemma shipped_values:
  "conf_values key (conf_lines (text_file shipped_conf)) =
    concat (map (\<lambda>(k, v). if k = key then [v] else [])
      [(''BtDeviceNode'', ''/dev/BTCMD''), (''BtDeviceNode'', ''/dev/BTDATA''), (''BtDeviceNode'', ''/dev/BTAUDIO''),
       (''BtDeviceNode'', ''/dev/BTISOC''), (''SkwBtUartOnly'', ''false''), (''SkwBtNoSleep'', ''false''),
       (''SkwBtsnoopDump'', ''true''), (''SkwBtcplog'', ''true''), (''SkwBtDrvlog'', ''true''),
       (''BtSnoopFileName'', ''/data/misc/bluedroid/btsnoop_hci.cfa''), (''BtSnoopSaveLog'', ''true''), (''SkwLogSlice'', ''true'')])"
proof -
  have t: "trim s = s" if "s \<noteq> []" "\<not> isspace (hd s)" "\<not> isspace (List.last s)" for s
    using that by (simp add: trimmed_def)
  show ?thesis
    unfolding conf_values_read shipped_read by (simp add: t isspace_def)
qed

lemma shipped_nodes:
  "conf_nodes (conf_lines (text_file shipped_conf)) = [''/dev/BTCMD'', ''/dev/BTDATA'', ''/dev/BTAUDIO'', ''/dev/BTISOC'']"
  "\<forall>l \<in> set (conf_lines (text_file shipped_conf)). read_line l \<noteq> No_separator"
proof -
  have "No_separator \<notin> set (map read_line (conf_lines (text_file shipped_conf)))"
    unfolding shipped_read by simp
  then show ok: "\<forall>l \<in> set (conf_lines (text_file shipped_conf)). read_line l \<noteq> No_separator"
    by (metis image_eqI set_map)
  then have "well_formed_part (conf_lines (text_file shipped_conf)) = conf_lines (text_file shipped_conf)"
    by (simp add: well_formed_part_def takeWhile_eq_all_conv)
  then show "conf_nodes (conf_lines (text_file shipped_conf)) = [''/dev/BTCMD'', ''/dev/BTDATA'', ''/dev/BTAUDIO'', ''/dev/BTISOC'']"
    unfolding conf_nodes_def by (simp add: shipped_values)
qed

theorem load_skwbt_conf_nodes_witness:
  "map (\<lambda>p. c_string (port_name p)) (case load_skwbt_conf (Some (text_file shipped_conf))
       \<lparr>skwbt_device_node = [], skwbt_transtype = 0, scomm_vnd = scomm_vendor_init\<rparr> of Inr c \<Rightarrow> scomm_vnd c | Inl e \<Rightarrow> []) =
     [''/dev/BTCMD'', ''/dev/BTDATA'', ''/dev/BTAUDIO'', ''/dev/BTISOC'']"
proof -
  let ?c = "\<lparr>skwbt_device_node = [], skwbt_transtype = 0, scomm_vnd = scomm_vendor_init\<rparr>"
  have "length (scomm_vnd ?c) = BT_COM_PORT_SIZE"
    by (simp add: scomm_vendor_init_def)
  note load = load_skwbt_conf_nodes [OF this, of "text_file shipped_conf"]
  have "\<not> uart_marked [''/dev/BTCMD'', ''/dev/BTDATA'', ''/dev/BTAUDIO'', ''/dev/BTISOC'']"
    "node_fits [''/dev/BTCMD'', ''/dev/BTDATA'', ''/dev/BTAUDIO'', ''/dev/BTISOC'']"
    by (simp_all add: uart_marked_def node_fits_def BT_COM_PORT_SIZE_def DEVICE_NODE_MAX_LEN_def)
  then have "load_skwbt_conf (Some (text_file shipped_conf)) ?c =
      Inr ((node_conf [''/dev/BTCMD'', ''/dev/BTDATA'', ''/dev/BTAUDIO'', ''/dev/BTISOC''] ?c)\<lparr>skwbt_transtype := SKWBT_TRANS_TYPE_H4\<rparr>)"
    using shipped_nodes(2) by (auto simp: load shipped_nodes(1) Let_def)
  then show ?thesis
    by (simp add: node_conf_def named_ports_def scomm_vendor_init_def BT_COM_PORT_SIZE_def upt_rec c_string_padded)
qed

end
