(* ===== verification/Tx.thy ===== *)
theory Tx
  imports Rx Conf
begin

text \<open>
  The host-to-controller direction of \<open>scom_vendor.c\<close>: \<open>scomm_vendor_recv_rawdata\<close>, which reads one
  packet from the host's socket and writes it to the port of its type, the socket thread
  \<open>scomm_vendor_recv_socket_thread\<close> that calls it, and \<open>scomm_vendor_send_to_host\<close>, the write loop
  of the other direction. What the kernel answers to each \<open>read\<close> and \<open>write\<close> is an argument.
\<close>

section \<open>Writing\<close>

text \<open>
  What a \<open>write\<close> returns: the number of bytes taken, or -1. For \<open>scomm_vendor_send_to_host\<close> it is what
  \<open>RW_NO_INTR\<close> ends up with, after the writes that a signal interrupted.
\<close>

datatype write_res = Write_error | Wrote nat

text \<open>
  The two write loops. An observation is the value of the flag the loop tests and the answer to
  the write behind it; the result is the bytes the kernel took, in order, and whether the loop is over.
\<close>

fun send_loop :: "(bool \<times> write_res) list \<Rightarrow> byte list \<Rightarrow> u16 \<Rightarrow> u32 \<Rightarrow> byte list \<times> bool" where
  "send_loop [] buffer transmitted_length len = ([], len = 0)"
| "send_loop ((running, ret) # os) buffer transmitted_length len =
     (if len > 0 \<and> running then
        (case ret of
           Write_error \<Rightarrow> send_loop os buffer transmitted_length len
         | Wrote n \<Rightarrow>
             if n = 0 then send_loop os buffer transmitted_length len
             else
               let (out, over) = send_loop os buffer (transmitted_length + of_nat n) (len - of_nat n)
               in (subbuf (unat transmitted_length) n buffer @ out, over))
      else ([], True))"

definition scomm_vendor_send_to_host :: "(bool \<times> write_res) list \<Rightarrow> byte list \<Rightarrow> u32 \<Rightarrow> byte list \<times> bool" where
  "scomm_vendor_send_to_host os buffer total_length = send_loop os buffer 0 total_length"

text \<open>The loop at the end of \<open>scomm_vendor_recv_rawdata\<close>: a failing write ends it.\<close>

fun port_loop :: "(bool \<times> write_res) list \<Rightarrow> byte list \<Rightarrow> u16 \<Rightarrow> u16 \<Rightarrow> byte list \<times> bool" where
  "port_loop [] buffer transmitted_length len = ([], len = 0)"
| "port_loop ((driver, ret) # os) buffer transmitted_length len =
     (if len > 0 \<and> driver then
        (case ret of
           Write_error \<Rightarrow> ([], True)
         | Wrote n \<Rightarrow>
             if n = 0 then port_loop os buffer transmitted_length len
             else
               let (out, over) = port_loop os buffer (transmitted_length + of_nat n) (len - of_nat n)
               in (subbuf (unat transmitted_length) n buffer @ out, over))
      else ([], True))"

text \<open>
  The bytes taken by all the writes; and the answers of a kernel that takes no more than it is given.
\<close>

fun taken :: "(bool \<times> write_res) list \<Rightarrow> nat" where
  "taken [] = 0"
| "taken ((_, Wrote n) # os) = n + taken os"
| "taken ((_, Write_error) # os) = taken os"


fun answers_fit :: "nat \<Rightarrow> (bool \<times> write_res) list \<Rightarrow> bool" where
  "answers_fit len [] = True"
| "answers_fit len ((_, Wrote n) # os) \<longleftrightarrow> n \<le> len \<and> answers_fit (len - n) os"
| "answers_fit len ((_, Write_error) # os) \<longleftrightarrow> answers_fit len os"

text \<open>
  What the two loops have in common: a write that takes some bytes moves on by as many, one that
  takes none is repeated, a cleared flag ends the loop.
\<close>

locale write_loop =
  fixes loop :: "(bool \<times> write_res) list \<Rightarrow> byte list \<Rightarrow> nat \<Rightarrow> nat \<Rightarrow> byte list \<times> bool"
  assumes loop_nil: "sent + len < 65536 \<Longrightarrow> loop [] buf sent len = ([], len = 0)"
    and loop_done: "sent < 65536 \<Longrightarrow> loop ((b, r) # os) buf sent 0 = ([], True)"
    and loop_stop: "sent + len < 65536 \<Longrightarrow> loop ((False, r) # os) buf sent len = ([], True)"
    and loop_zero: "sent + len < 65536 \<Longrightarrow> 0 < len \<Longrightarrow> loop ((True, Wrote 0) # os) buf sent len = loop os buf sent len"
    and loop_wrote: "sent + len < 65536 \<Longrightarrow> 0 < n \<Longrightarrow> n \<le> len \<Longrightarrow>
          loop ((True, Wrote n) # os) buf sent len =
            (subbuf sent n buf @ fst (loop os buf (sent + n) (len - n)), snd (loop os buf (sent + n) (len - n)))"
    and loop_error: "sent + len < 65536 \<Longrightarrow> 0 < len \<Longrightarrow>
          loop ((True, Write_error) # os) buf sent len \<in> {loop os buf sent len, ([], True)}"
begin

text \<open>Whatever the answers, what was taken is the front of what was to be sent.\<close>

lemma loop_prefix:
  "sent + len < 65536 \<Longrightarrow> sent + len \<le> length buf \<Longrightarrow> answers_fit len os \<Longrightarrow>
     \<exists>n \<le> len. fst (loop os buf sent len) = subbuf sent n buf"
proof (induction len os arbitrary: sent rule: answers_fit.induct)
  case (1 len)
  then show ?case by (intro exI [of _ 0]) (simp add: loop_nil subbuf_def)
next
  case (2 len b n os)
  show ?case
  proof (cases "b \<and> 0 < len \<and> 0 < n")
    case True
    from "2.IH" [of "sent + n"] "2.prems" obtain m where
      m: "m \<le> len - n" "fst (loop os buf (sent + n) (len - n)) = subbuf (sent + n) m buf" by auto
    then have "fst (loop ((b, Wrote n) # os) buf sent len) = subbuf sent (n + m) buf"
      using True "2.prems" loop_wrote [of sent len n os buf] by (simp add: subbuf_append)
    then show ?thesis using m(1) True "2.prems"(3) by (intro exI [of _ "n + m"]) auto
  next
    case False
    then consider "\<not> b" | "len = 0" | "b" "0 < len" "n = 0" by blast
    then show ?thesis
    proof cases
      case 3
      then show ?thesis using 2 loop_zero [of sent len os buf] by auto
    qed (use "2.prems" loop_stop [of sent len "Wrote n" os buf] loop_done [of sent _ _ os buf] in
      \<open>auto intro!: exI [of _ 0] simp: subbuf_def\<close>)
  qed
next
  case (3 len b os)
  consider "\<not> b" | "len = 0" | "b" "0 < len" by blast
  then show ?case
  proof cases
    case 3
    with "3.prems" loop_error [of sent len os buf] "3.IH" [of sent] show ?thesis
      by (auto intro: exI [of _ 0] simp: subbuf_def)
  qed (use "3.prems" loop_stop [of sent len Write_error os buf] loop_done [of sent _ _ os buf] in
    \<open>auto intro!: exI [of _ 0] simp: subbuf_def\<close>)
qed

text \<open>If no write fails and the answers add up to the length, everything is sent, exactly once.\<close>

lemma loop_complete:
  "sent + len < 65536 \<Longrightarrow> sent + len \<le> length buf \<Longrightarrow> answers_fit len os \<Longrightarrow>
     \<forall>o' \<in> set os. \<exists>n. o' = (True, Wrote n) \<Longrightarrow> taken os = len \<Longrightarrow> loop os buf sent len = (subbuf sent len buf, True)"
proof (induction len os arbitrary: sent rule: answers_fit.induct)
  case (1 len)
  then show ?case by (simp add: loop_nil subbuf_def)
next
  case (2 len b n os)
  then have b: "b" "n \<le> len" by auto
  show ?case
  proof (cases "len = 0")
    case True
    then show ?thesis using 2 loop_done by (simp add: subbuf_def)
  next
    case len: False
    show ?thesis
    proof (cases "n = 0")
      case True
      then show ?thesis using 2 b len loop_zero by simp
    next
      case False
      have "loop os buf (sent + n) (len - n) = (subbuf (sent + n) (len - n) buf, True)"
        using "2.IH" [of "sent + n"] "2.prems" b by auto
      then show ?thesis
        using b False "2.prems" loop_wrote [of sent len n os buf] by (simp add: subbuf_append)
    qed
  qed
qed simp

end

lemma of_nat_pos_u16: "n < 65536 \<Longrightarrow> 0 < (of_nat n :: u16) \<longleftrightarrow> 0 < n"
  by (simp add: word_less_nat_alt unat_of_nat_u16)

lemma of_nat_pos_u32: "n < 65536 \<Longrightarrow> 0 < (of_nat n :: u32) \<longleftrightarrow> 0 < n"
  by (simp add: word_less_nat_alt unat_of_nat_u32)

lemma of_nat_0_u16: "n < 65536 \<Longrightarrow> (of_nat n :: u16) = 0 \<longleftrightarrow> n = 0"
  using of_nat_pos_u16 [of n] by (auto simp: word_neq_0_conv [symmetric])

lemma of_nat_0_u32: "n < 65536 \<Longrightarrow> (of_nat n :: u32) = 0 \<longleftrightarrow> n = 0"
  using of_nat_pos_u32 [of n] by (auto simp: word_neq_0_conv [symmetric])

interpretation host: write_loop "\<lambda>os buf sent len. send_loop os buf (of_nat sent) (of_nat len)"
proof
  fix sent len n :: nat and os buf
  assume "sent + len < 65536" "0 < n" "n \<le> len"
  then show "send_loop ((True, Wrote n) # os) buf (of_nat sent) (of_nat len) =
    (subbuf sent n buf @ fst (send_loop os buf (of_nat (sent + n)) (of_nat (len - n))), snd (send_loop os buf (of_nat (sent + n)) (of_nat (len - n))))"
    by (simp add: of_nat_pos_u32 of_nat_diff unat_of_nat_u16 case_prod_unfold Let_def)
qed (simp_all add: of_nat_0_u32 of_nat_pos_u32)

interpretation port: write_loop "\<lambda>os buf sent len. port_loop os buf (of_nat sent) (of_nat len)"
proof
  fix sent len n :: nat and os buf
  assume "sent + len < 65536" "0 < n" "n \<le> len"
  then show "port_loop ((True, Wrote n) # os) buf (of_nat sent) (of_nat len) =
    (subbuf sent n buf @ fst (port_loop os buf (of_nat (sent + n)) (of_nat (len - n))), snd (port_loop os buf (of_nat (sent + n)) (of_nat (len - n))))"
    by (simp add: of_nat_pos_u16 of_nat_diff unat_of_nat_u16 case_prod_unfold Let_def)
qed (simp_all add: of_nat_0_u16 of_nat_pos_u16)

section \<open>Reading a packet from the host\<close>

text \<open>
  What the kernel answers to a \<open>read\<close> on the socket of the port: an error, the end of a closed
  socket, or some of the pending bytes, at most as many as were asked for. With nothing pending
  and the socket open a read does not return.
\<close>

datatype read_answer = Rd_error | Rd_closed | Rd_upto nat

fun sock_read :: "read_answer \<Rightarrow> nat \<Rightarrow> byte list \<Rightarrow> (read_result \<times> byte list) option" where
  "sock_read Rd_error n q = Some (Read_error, q)"
| "sock_read Rd_closed n q = (if q = [] then Some (Read_zero, q) else None)"
| "sock_read (Rd_upto k) n q =
     (if q = [] then None else let m = min (Suc k) n in Some (Read_data (take m q), drop m q))"

text \<open>
  The header loop and the payload loop: a failing read leaves the function, a read of nothing is
  repeated, and each read asks for the whole \<open>need_read_lens\<close> again, whatever is already there.
\<close>

datatype fill = Filled | Fill_failed | Fill_blocked

fun recv_fill ::
    "nat \<Rightarrow> nat \<Rightarrow> nat \<Rightarrow> read_answer list \<Rightarrow> byte list \<Rightarrow> byte list \<Rightarrow>
     c_fault + (fill \<times> read_answer list \<times> byte list \<times> byte list)" where
  "recv_fill off need bytes_read [] q buf = Inr (Fill_blocked, [], q, buf)"
| "recv_fill off need bytes_read (a # as) q buf =
     (case sock_read a need q of
        None \<Rightarrow> Inr (Fill_blocked, as, q, buf)
      | Some (Read_error, q') \<Rightarrow> Inr (Fill_failed, as, q', buf)
      | Some (Read_zero, q') \<Rightarrow> recv_fill off need bytes_read as q' buf
      | Some (Read_data bs, q') \<Rightarrow>
          (case store buf (off + bytes_read) bs of
             Inl e \<Rightarrow> Inl e
           | Inr buf' \<Rightarrow>
               if bytes_read + length bs < need then recv_fill off need (bytes_read + length bs) as q' buf'
               else Inr (Filled, as, q', buf')))"

definition RECV_BUF_SIZE :: nat where "RECV_BUF_SIZE = 4096"

definition is_tx_type :: "byte \<Rightarrow> bool" where
  "is_tx_type t \<longleftrightarrow> t = HCI_COMMAND_PKT \<or> t = HCI_ACLDATA_PKT \<or> t = HCI_SCODATA_PKT \<or> t = HCI_ISO_PKT"

definition tx_payload_len :: "byte list \<Rightarrow> u16" where
  "tx_payload_len buf =
     (if buf ! 0 = HCI_ACLDATA_PKT \<or> buf ! 0 = HCI_ISO_PKT then le16 (buf ! 3) (buf ! 4)
      else if buf ! 0 = HCI_EVENT_PKT \<or> buf ! 0 = HCI_EVENT_SKWLOG then ucast (buf ! 2)
      else ucast (buf ! 3))"

text \<open>
  The reading part of \<open>scomm_vendor_recv_rawdata\<close>: type, header, payload. It ends with a packet of
  \<open>total_len\<close> bytes in the buffer, with an early return, or in a read that does not return.
\<close>

datatype packet_read = Packet u16 | Gave_up | Blocked

fun not_filled :: "fill \<Rightarrow> packet_read" where
  "not_filled Fill_blocked = Blocked"
| "not_filled _ = Gave_up"

definition recv_packet ::
    "read_answer list \<Rightarrow> byte list \<Rightarrow> byte list \<Rightarrow>
     c_fault + (packet_read \<times> read_answer list \<times> byte list \<times> byte list)" where
  "recv_packet as q buf =
     (case as of
        [] \<Rightarrow> Inr (Blocked, [], q, buf)
      | a # as0 \<Rightarrow>
          (case sock_read a 1 q of
             Some (Read_data bs, q0) \<Rightarrow>
               let buf0 = overwrite buf 0 bs; pkt_type = buf0 ! 0 in
               if \<not> is_tx_type pkt_type then Inl AssertFailed
               else
                 let need = preamble_size pkt_type in
                 (case recv_fill 1 (unat need) 0 as0 q0 buf0 of
                    Inl e \<Rightarrow> Inl e
                  | Inr (Filled, as1, q1, buf1) \<Rightarrow>
                      let len = tx_payload_len buf1 in
                      if len > 0 then
                        (case recv_fill (1 + unat need) (unat len) 0 as1 q1 buf1 of
                           Inl e \<Rightarrow> Inl e
                         | Inr (Filled, as2, q2, buf2) \<Rightarrow> Inr (Packet (1 + need + len), as2, q2, buf2)
                         | Inr (f, as2, q2, buf2) \<Rightarrow> Inr (not_filled f, as2, q2, buf2))
                      else Inr (Packet (1 + need), as1, q1, buf1)
                  | Inr (f, as1, q1, buf1) \<Rightarrow> Inr (not_filled f, as1, q1, buf1))
           | Some (_, q0) \<Rightarrow> Inr (Gave_up, as0, q0, buf)
           | None \<Rightarrow> Inr (Blocked, as0, q, buf)))"

section \<open>Forwarding a packet to the controller\<close>

datatype tx_event =
    Wake_controller byte        \<comment> \<open>the byte written to the wake-up device\<close>
  | Tx_capture "byte list"      \<comment> \<open>\<open>skw_btsnoop_capture (recvSocketBuf, FALSE)\<close>\<close>
  | Port_write nat "byte list"  \<comment> \<open>what the device of a port took\<close>

record tx_state =
  recvSocketBuf :: "byte list"
  pkt_cnts :: byte

text \<open>The configuration the function reads.\<close>

record tx_conf =
  tx_transtype :: byte
  tx_flags :: skwbt_flags
  btpw_fp :: int

text \<open>The port of a packet type: with SDIO every type has its own, otherwise all share the first.\<close>

definition send_port :: "byte \<Rightarrow> byte \<Rightarrow> nat" where
  "send_port transtype pkt_type =
     (if transtype AND SKWBT_TRANS_TYPE_SDIO \<noteq> 0 then
        (if pkt_type = HCI_ACLDATA_PKT then BT_COM_PORT_ACL
         else if pkt_type = HCI_SCODATA_PKT then BT_COM_PORT_AUDIO
         else if pkt_type = HCI_ISO_PKT then BT_COM_PORT_ISO
         else BT_COM_PORT_CMDEVT)
      else BT_COM_PORT_CMDEVT)"

definition wakes_controller :: "tx_conf \<Rightarrow> bool" where
  "wakes_controller c \<longleftrightarrow>
     tx_transtype c AND SKWBT_TRANS_TYPE_UART \<noteq> 0 \<and> \<not> skwbtuartonly (tx_flags c) \<and>
     \<not> skwbtNoSleep (tx_flags c) \<and> btpw_fp c > 0"

definition forward_packet :: "tx_conf \<Rightarrow> (bool \<times> write_res) list \<Rightarrow> u16 \<Rightarrow> tx_state \<Rightarrow> tx_event list \<times> tx_state \<times> bool" where
  "forward_packet c ws total_len st =
     (let wake = (if wakes_controller c then [Wake_controller (pkt_cnts st)] else []);
          st' = (if wakes_controller c then st\<lparr>pkt_cnts := pkt_cnts st + 1\<rparr> else st);
          buf = recvSocketBuf st;
          (out, over) = port_loop ws buf 0 total_len
      in (wake @ [Tx_capture buf, Port_write (send_port (tx_transtype c) (buf ! 0)) out], st', over))"

text \<open>
  \<open>scomm_vendor_recv_rawdata\<close>: the events, what is left of the read answers and of the socket, the
  state, and whether the function returned. The hexadecimal dump of the packet goes to the system
  log only.
\<close>

definition scomm_vendor_recv_rawdata ::
    "tx_conf \<Rightarrow> read_answer list \<Rightarrow> (bool \<times> write_res) list \<Rightarrow> byte list \<Rightarrow> tx_state \<Rightarrow>
     c_fault + (tx_event list \<times> read_answer list \<times> byte list \<times> tx_state \<times> bool)" where
  "scomm_vendor_recv_rawdata c as ws q st =
     (case recv_packet as q (recvSocketBuf st) of
        Inl e \<Rightarrow> Inl e
      | Inr (Packet total_len, as', q', buf) \<Rightarrow>
          let (out, st', over) = forward_packet c ws total_len (st\<lparr>recvSocketBuf := buf\<rparr>)
          in Inr (out, as', q', st', over)
      | Inr (r, as', q', buf) \<Rightarrow> Inr ([], as', q', st\<lparr>recvSocketBuf := buf\<rparr>, r = Gave_up))"

text \<open>
  \<open>scomm_vendor_recv_socket_thread\<close>. Each pass of the loop tests \<open>thread_running\<close> and takes what
  \<open>epoll_wait\<close> ends up with, \<open>None\<close> for an error: for every event its pointer (\<open>NULL\<close> for the signal
  descriptor), whether it is readable, and the answers to the reads and writes the handler then makes.
  There is no handler for writable events. The flag says whether the thread has left its loop; \<open>None\<close>
  is a handler that does not return.
\<close>

datatype epoll_event = Null_event | Object_event bool "read_answer list" "(bool \<times> write_res) list"

fun socket_events ::
    "tx_conf \<Rightarrow> epoll_event list \<Rightarrow> byte list \<Rightarrow> tx_state \<Rightarrow> c_fault + (tx_event list \<times> (byte list \<times> tx_state) option)" where
  "socket_events c [] q st = Inr ([], Some (q, st))"
| "socket_events c (Null_event # es) q st = socket_events c es q st"
| "socket_events c (Object_event readable as ws # es) q st =
     (if readable then
        (case scomm_vendor_recv_rawdata c as ws q st of
           Inl e \<Rightarrow> Inl e
         | Inr (out, as', q', st', returned) \<Rightarrow>
             if returned then map_sum id (\<lambda>(out', r). (out @ out', r)) (socket_events c es q' st')
             else Inr (out, None))
      else socket_events c es q st)"

fun scomm_vendor_recv_socket_thread ::
    "tx_conf \<Rightarrow> (bool \<times> epoll_event list option) list \<Rightarrow> byte list \<Rightarrow> tx_state \<Rightarrow>
     c_fault + (tx_event list \<times> (byte list \<times> tx_state \<times> bool) option)" where
  "scomm_vendor_recv_socket_thread c [] q st = Inr ([], Some (q, st, False))"
| "scomm_vendor_recv_socket_thread c ((running, ret) # os) q st =
     (if \<not> running then Inr ([], Some (q, st, True))
      else
        (case socket_events c (case ret of None \<Rightarrow> [] | Some es \<Rightarrow> es) q st of
           Inl e \<Rightarrow> Inl e
         | Inr (out, None) \<Rightarrow> Inr (out, None)
         | Inr (out, Some (q', st')) \<Rightarrow>
             map_sum id (\<lambda>(out', r). (out @ out', r)) (scomm_vendor_recv_socket_thread c os q' st')))"

section \<open>Reading whole packets\<close>

text \<open>A packet the host may send.\<close>

definition tx_packet :: "byte list \<Rightarrow> bool" where
  "tx_packet p \<longleftrightarrow> p \<noteq> [] \<and> is_tx_type (p ! 0) \<and> Suc (unat (preamble_size (p ! 0))) \<le> length p \<and>
     length p = Suc (unat (preamble_size (p ! 0))) + unat (tx_payload_len p) \<and> length p \<le> RECV_BUF_SIZE"

lemma preamble_tx: "is_tx_type t \<Longrightarrow> unat (preamble_size t) = (if t = HCI_ACLDATA_PKT \<or> t = HCI_ISO_PKT then 4 else 3)"
  by (auto simp: is_tx_type_def)

lemma tx_payload_len_prefix:
  assumes "is_tx_type (p ! 0)" "Suc (unat (preamble_size (p ! 0))) \<le> n" "n \<le> length p" "n \<le> length buf" "take n buf = take n p"
  shows "tx_payload_len buf = tx_payload_len p"
proof -
  have nth: "buf ! i = p ! i" if "i < n" for i
    using assms(3-5) that by (metis nth_take)
  show ?thesis
    using assms(1,2) nth [of 0] nth [of 3] nth [of 4]
    by (auto simp: tx_payload_len_def preamble_tx is_tx_type_def)
qed

text \<open>One read that gets all it asks for.\<close>

lemma recv_fill_whole:
  assumes "length x = need" "0 < need" "need \<le> Suc k" "off + need \<le> length buf"
  shows "recv_fill off need 0 (Rd_upto k # as) (x @ rest) buf = Inr (Filled, as, rest, overwrite buf off x)"
proof -
  have "x @ rest \<noteq> []" "min (Suc k) need = need"
    using assms by auto
  then show ?thesis
    using assms by (simp add: store_def)
qed

text \<open>Reads of any sizes, when nothing is behind the bytes they ask for.\<close>

lemma recv_fill_parts:
  "n + length x = need \<Longrightarrow> x \<noteq> [] \<Longrightarrow> off + need \<le> length buf \<Longrightarrow> \<forall>a \<in> set as. \<exists>k. a = Rd_upto k \<Longrightarrow>
     length x \<le> length as \<Longrightarrow> \<exists>as'. recv_fill off need n as x buf = Inr (Filled, as', [], overwrite buf (off + n) x)"
proof (induction as arbitrary: n x buf)
  case (Cons a as)
  then obtain k where a: "a = Rd_upto k" by auto
  define m where "m = min (Suc k) need"
  have m: "0 < m" using Cons.prems by (cases x) (auto simp: m_def)
  have st: "store buf (off + n) (take m x) = Inr (overwrite buf (off + n) (take m x))"
    using Cons.prems by (auto simp: store_Inr)
  show ?case
  proof (cases "length x \<le> m")
    case True
    then show ?thesis
      using Cons.prems a st by (auto simp: m_def [symmetric])
  next
    case False
    let ?buf = "overwrite buf (off + n) (take m x)"
    have len: "length (take m x) = m" "length ?buf = length buf"
      using False Cons.prems by auto
    have "\<exists>as'. recv_fill off need (n + m) as (drop m x) ?buf = Inr (Filled, as', [], overwrite ?buf (off + (n + m)) (drop m x))"
      using Cons.prems False m len by (intro Cons.IH) auto
    moreover have "overwrite ?buf (off + (n + m)) (drop m x) = overwrite buf (off + n) x"
      using overwrite_overwrite [of "off + n" "take m x" buf "drop m x"] len Cons.prems False by (simp add: add.assoc)
    ultimately show ?thesis
      using Cons.prems a st False len by (simp add: m_def [symmetric])
  qed
qed simp

text \<open>
  Answers that do not split a header: the payload may come in parts only if nothing is behind it.
\<close>

fun payload_reads :: "nat \<Rightarrow> byte list \<Rightarrow> read_answer list \<Rightarrow> bool" where
  "payload_reads n rest [] \<longleftrightarrow> n = 0"
| "payload_reads n rest (a # as) \<longleftrightarrow> n = 0 \<or> (\<exists>k. a = Rd_upto k \<and> n \<le> Suc k) \<or>
     rest = [] \<and> (\<forall>a' \<in> set (a # as). \<exists>k. a' = Rd_upto k) \<and> n \<le> length (a # as)"

definition good_reads :: "byte list \<Rightarrow> byte list \<Rightarrow> read_answer list \<Rightarrow> bool" where
  "good_reads p rest as \<longleftrightarrow>
     (\<exists>k0 k1 as'. as = Rd_upto k0 # Rd_upto k1 # as' \<and> unat (preamble_size (p ! 0)) \<le> Suc k1 \<and>
        payload_reads (unat (tx_payload_len p)) rest as')"

lemma recv_fill_payload:
  assumes "payload_reads (length x) rest as" "x \<noteq> []" "off + length x \<le> length buf"
  shows "\<exists>as'. recv_fill off (length x) 0 as (x @ rest) buf = Inr (Filled, as', rest, overwrite buf off x)"
proof (cases as)
  case Nil
  then show ?thesis using assms by simp
next
  case (Cons a as0)
  then consider k where "a = Rd_upto k" "length x \<le> Suc k"
    | "rest = []" "\<forall>a' \<in> set as. \<exists>k. a' = Rd_upto k" "length x \<le> length as"
    using assms(1,2) by auto
  then show ?thesis
  proof cases
    case 1
    then show ?thesis
      using recv_fill_whole [of x "length x" k off buf as0 rest] assms(2,3) Cons by blast
  next
    case 2
    then show ?thesis
      using recv_fill_parts [of 0 x "length x" off buf as] assms(2,3) by simp
  qed
qed

lemma recv_packet_type:
  assumes "buf \<noteq> []"
  shows "recv_packet (Rd_upto k # as0) (t # q) buf =
    (let buf0 = overwrite buf 0 [t] in
     if \<not> is_tx_type t then Inl AssertFailed
     else
       (case recv_fill 1 (unat (preamble_size t)) 0 as0 q buf0 of
          Inl e \<Rightarrow> Inl e
        | Inr (Filled, as1, q1, buf1) \<Rightarrow>
            if tx_payload_len buf1 > 0 then
              (case recv_fill (1 + unat (preamble_size t)) (unat (tx_payload_len buf1)) 0 as1 q1 buf1 of
                 Inl e \<Rightarrow> Inl e
               | Inr (Filled, as2, q2, buf2) \<Rightarrow> Inr (Packet (1 + preamble_size t + tx_payload_len buf1), as2, q2, buf2)
               | Inr (f, as2, q2, buf2) \<Rightarrow> Inr (not_filled f, as2, q2, buf2))
            else Inr (Packet (1 + preamble_size t), as1, q1, buf1)
        | Inr (f, as1, q1, buf1) \<Rightarrow> Inr (not_filled f, as1, q1, buf1)))"
proof -
  have e: "sock_read (Rd_upto k) 1 (t # q) = Some (Read_data [t], q)" "overwrite buf 0 [t] ! 0 = t"
    by (simp_all add: overwrite_def)
  show ?thesis
    unfolding recv_packet_def Let_def list.case e(1) option.case prod.case read_result.case e(2) by (rule refl)
qed

lemma recv_packet_tx:
  assumes "tx_packet p" "length buf = RECV_BUF_SIZE" "good_reads p rest as"
  shows "\<exists>as' buf'. recv_packet as (p @ rest) buf = Inr (Packet (of_nat (length p)), as', rest, buf') \<and>
    take (length p) buf' = p \<and> length buf' = RECV_BUF_SIZE"
proof -
  obtain k0 k1 as1 where as: "as = Rd_upto k0 # Rd_upto k1 # as1" "unat (preamble_size (p ! 0)) \<le> Suc k1"
    "payload_reads (unat (tx_payload_len p)) rest as1"
    using assms(3) by (auto simp: good_reads_def)
  define need where "need = unat (preamble_size (p ! 0))"
  obtain t r where tr: "p = t # r" using assms(1) by (cases p) (auto simp: tx_packet_def)
  define h pl where "h = take need r" and "pl = drop need r"
  have p: "p = t # h @ pl" "length h = need" "is_tx_type t" "length pl = unat (tx_payload_len p)"
    "length p \<le> RECV_BUF_SIZE" "length p = Suc need + length pl" "p ! 0 = t" "need = unat (preamble_size t)"
    using assms(1) tr by (auto simp: tx_packet_def h_def pl_def need_def)
  have need: "0 < need" using preamble_tx [OF p(3)] by (simp add: p(8))
  let ?b0 = "overwrite buf 0 [t]"
  let ?b1 = "overwrite ?b0 1 h"
  have b0: "length ?b0 = RECV_BUF_SIZE" "buf \<noteq> []" "p @ rest = t # h @ pl @ rest"
    using assms(2) p(1) by (auto simp: RECV_BUF_SIZE_def)
  have fill: "recv_fill 1 need 0 (Rd_upto k1 # as1) (h @ pl @ rest) ?b0 = Inr (Filled, as1, pl @ rest, ?b1)"
    using recv_fill_whole [of h need k1 1 ?b0 as1 "pl @ rest"] p need as(2) b0(1) by (simp add: need_def)
  have b1: "take (Suc need) ?b1 = t # h" "length ?b1 = RECV_BUF_SIZE"
    using p(2,5,6) b0(1) take_overwrite_append [of 1 h ?b0] assms(2) by (auto simp: overwrite_def RECV_BUF_SIZE_def)
  have "take (Suc need) p = t # h"
    using p(1,2) by simp
  then have pl: "tx_payload_len ?b1 = tx_payload_len p"
    using b1 p(3,5,6) by (intro tx_payload_len_prefix [of p "Suc need"]) (simp_all add: p(7,8))
  have total: "1 + preamble_size (t) + tx_payload_len p = of_nat (length p)"
    using p(4,6,8) by simp
  show ?thesis
  proof (cases "tx_payload_len p = 0")
    case True
    then have "recv_packet as (p @ rest) buf = Inr (Packet (of_nat (length p)), as1, rest, ?b1)"
      using p(3,4) fill pl total
      by (simp add: as(1) b0(3) recv_packet_type [OF b0(2)] p(8) [symmetric] del: recv_fill.simps)
    moreover have "take (length p) ?b1 = p"
      using True p b1(1) by simp
    ultimately show ?thesis using b1(2) by blast
  next
    case False
    then have ne: "pl \<noteq> []" "0 < tx_payload_len p"
      using p(4) by (auto simp: word_neq_0_conv [symmetric] unat_eq_zero)
    obtain as2 where f2: "recv_fill (1 + need) (unat (tx_payload_len p)) 0 as1 (pl @ rest) ?b1 =
        Inr (Filled, as2, rest, overwrite ?b1 (1 + need) pl)"
      using recv_fill_payload [of pl rest as1 "1 + need" ?b1] as(3) p(4,5,6) ne b1(2) by auto
    then have "recv_packet as (p @ rest) buf = Inr (Packet (of_nat (length p)), as2, rest, overwrite ?b1 (1 + need) pl)"
      using p(3) fill pl total ne(2)
      by (simp add: as(1) b0(3) recv_packet_type [OF b0(2)] p(8) [symmetric] del: recv_fill.simps)
    moreover have "take (length p) (overwrite ?b1 (1 + need) pl) = p"
      using take_overwrite_append [of "1 + need" pl ?b1] b1 p by simp
    ultimately show ?thesis using b1(2) p(5,6) by fastforce
  qed
qed

section \<open>Forwarding\<close>

text \<open>The answers to the writes of a device that takes the packet, in whatever pieces.\<close>

definition good_writes :: "byte list \<Rightarrow> (bool \<times> write_res) list \<Rightarrow> bool" where
  "good_writes p ws \<longleftrightarrow> answers_fit (length p) ws \<and> (\<forall>o' \<in> set ws. \<exists>n. o' = (True, Wrote n)) \<and> taken ws = length p"

text \<open>What the events of a run send to the ports, and what they capture.\<close>

fun tx_sent :: "tx_event list \<Rightarrow> (nat \<times> byte list) list" where
  "tx_sent [] = []"
| "tx_sent (Port_write i p # es) = (i, p) # tx_sent es"
| "tx_sent (_ # es) = tx_sent es"

fun tx_captured :: "tx_event list \<Rightarrow> byte list list" where
  "tx_captured [] = []"
| "tx_captured (Tx_capture b # es) = b # tx_captured es"
| "tx_captured (_ # es) = tx_captured es"

fun tx_wakes :: "tx_event list \<Rightarrow> byte list" where
  "tx_wakes [] = []"
| "tx_wakes (Wake_controller n # es) = n # tx_wakes es"
| "tx_wakes (_ # es) = tx_wakes es"

lemma tx_append [simp]:
  "tx_sent (a @ b) = tx_sent a @ tx_sent b" "tx_captured (a @ b) = tx_captured a @ tx_captured b"
  "tx_wakes (a @ b) = tx_wakes a @ tx_wakes b"
  by (induction a rule: tx_sent.induct) auto

text \<open>
  The order of the events of each packet: the controller is woken, if that is configured, the packet is
  captured, from a buffer that starts with it, and only then written to the port.
\<close>

fun tx_in_order :: "bool \<Rightarrow> tx_event list \<Rightarrow> bool" where
  "tx_in_order wakes [] = True"
| "tx_in_order wakes (Tx_capture b # Port_write i p # es) = (\<not> wakes \<and> take (length p) b = p \<and> tx_in_order wakes es)"
| "tx_in_order wakes (Wake_controller n # Tx_capture b # Port_write i p # es) =
     (wakes \<and> take (length p) b = p \<and> tx_in_order wakes es)"
| "tx_in_order wakes _ = False"

lemma tx_in_order_append: "tx_in_order w a \<Longrightarrow> tx_in_order w b \<Longrightarrow> tx_in_order w (a @ b)"
  by (induction w a rule: tx_in_order.induct) auto

text \<open>
  The events forward the packets \<open>ps\<close>: each is written, whole, to the port of its type, each was captured
  from a buffer that starts with it, and the controller is woken once for each if it needs to be.
\<close>

definition tx_delivers :: "tx_conf \<Rightarrow> tx_event list \<Rightarrow> byte list list \<Rightarrow> bool" where
  "tx_delivers c out ps \<longleftrightarrow>
     tx_sent out = map (\<lambda>p. (send_port (tx_transtype c) (p ! 0), p)) ps \<and>
     list_all2 (\<lambda>b p. take (length p) b = p) (tx_captured out) ps \<and>
     length (tx_wakes out) = (if wakes_controller c then length ps else 0) \<and> tx_in_order (wakes_controller c) out"

lemma tx_delivers_Nil [simp]: "tx_delivers c [] []"
  by (simp add: tx_delivers_def)

lemma tx_delivers_append: "tx_delivers c a ps \<Longrightarrow> tx_delivers c b qs \<Longrightarrow> tx_delivers c (a @ b) (ps @ qs)"
  by (auto simp: tx_delivers_def intro: list_all2_appendI tx_in_order_append)

lemma forward_packet_all:
  assumes "take (length p) (recvSocketBuf st) = p" "p \<noteq> []" "length p \<le> RECV_BUF_SIZE"
    "length (recvSocketBuf st) = RECV_BUF_SIZE" "good_writes p ws"
  shows "\<exists>out st'. forward_packet c ws (of_nat (length p)) st = (out, st', True) \<and> tx_delivers c out [p] \<and>
    recvSocketBuf st' = recvSocketBuf st"
proof -
  have "port_loop ws (recvSocketBuf st) (of_nat 0) (of_nat (length p)) = (subbuf 0 (length p) (recvSocketBuf st), True)"
    using assms by (intro port.loop_complete) (auto simp: good_writes_def RECV_BUF_SIZE_def)
  moreover have "recvSocketBuf st ! 0 = p ! 0"
    using assms(1,2) by (metis length_greater_0_conv nth_take)
  ultimately show ?thesis
    using assms(1) by (auto simp: forward_packet_def Let_def tx_delivers_def)
qed

lemma recv_rawdata_packet:
  assumes "tx_packet p" "length (recvSocketBuf st) = RECV_BUF_SIZE" "good_reads p rest as" "good_writes p ws"
  shows "\<exists>out as' st'. scomm_vendor_recv_rawdata c as ws (p @ rest) st = Inr (out, as', rest, st', True) \<and>
    tx_delivers c out [p] \<and> length (recvSocketBuf st') = RECV_BUF_SIZE"
proof -
  from recv_packet_tx [OF assms(1-3)] obtain as' buf' where
    r: "recv_packet as (p @ rest) (recvSocketBuf st) = Inr (Packet (of_nat (length p)), as', rest, buf')"
    "take (length p) buf' = p" "length buf' = RECV_BUF_SIZE" by blast
  have p: "p \<noteq> []" "length p \<le> RECV_BUF_SIZE"
    using assms(1) by (auto simp: tx_packet_def)
  from forward_packet_all [of p "st\<lparr>recvSocketBuf := buf'\<rparr>" ws c] p r(2,3) assms(4) obtain out st' where
    "forward_packet c ws (of_nat (length p)) (st\<lparr>recvSocketBuf := buf'\<rparr>) = (out, st', True)" "tx_delivers c out [p]"
    "recvSocketBuf st' = buf'" by auto
  with r show ?thesis by (simp add: scomm_vendor_recv_rawdata_def)
qed

text \<open>The events of one packet each, and passes of the socket thread made of them.\<close>

fun good_events :: "byte list list \<Rightarrow> byte list \<Rightarrow> epoll_event list \<Rightarrow> bool" where
  "good_events ps rest [] \<longleftrightarrow> ps = []"
| "good_events ps rest (Null_event # es) \<longleftrightarrow> good_events ps rest es"
| "good_events ps rest (Object_event r as ws # es) \<longleftrightarrow>
     (if r then
        (case ps of
           [] \<Rightarrow> False
         | p # ps' \<Rightarrow> good_reads p (concat ps' @ rest) as \<and> good_writes p ws \<and> good_events ps' rest es)
      else good_events ps rest es)"

lemma socket_events_packets:
  "good_events ps rest es \<Longrightarrow> \<forall>p \<in> set ps. tx_packet p \<Longrightarrow> length (recvSocketBuf st) = RECV_BUF_SIZE \<Longrightarrow>
     \<exists>out st'. socket_events c es (concat ps @ rest) st = Inr (out, Some (rest, st')) \<and> tx_delivers c out ps \<and>
       length (recvSocketBuf st') = RECV_BUF_SIZE"
proof (induction ps rest es arbitrary: st rule: good_events.induct)
  case (3 ps rest r as ws es)
  show ?case
  proof (cases r)
    case False
    then show ?thesis using 3 by auto
  next
    case True
    with "3.prems" obtain p ps' where ps: "ps = p # ps'" "good_reads p (concat ps' @ rest) as" "good_writes p ws"
      "good_events ps' rest es" by (cases ps) auto
    have "tx_packet p" using "3.prems"(2) ps(1) by simp
    from recv_rawdata_packet [OF this "3.prems"(3) ps(2,3), of c] obtain out as' st1 where
      r1: "scomm_vendor_recv_rawdata c as ws (p @ concat ps' @ rest) st = Inr (out, as', concat ps' @ rest, st1, True)"
      "tx_delivers c out [p]" "length (recvSocketBuf st1) = RECV_BUF_SIZE" by blast
    from "3.IH"(1) [OF True ps(1) ps(4) _ r1(3)] "3.prems"(2) ps(1) obtain out' st' where
      "socket_events c es (concat ps' @ rest) st1 = Inr (out', Some (rest, st'))" "tx_delivers c out' ps'"
      "length (recvSocketBuf st') = RECV_BUF_SIZE" by auto
    then show ?thesis
      using True ps(1) r1 tx_delivers_append [OF r1(2), of out' ps'] by auto
  qed
qed auto

lemma good_events_append:
  "good_events ps rest (es @ es') \<Longrightarrow>
     \<exists>ps1 ps2. ps = ps1 @ ps2 \<and> good_events ps1 (concat ps2 @ rest) es \<and> good_events ps2 rest es'"
proof (induction es arbitrary: ps)
  case (Cons e es)
  show ?case
  proof (cases "\<exists>as ws. e = Object_event True as ws")
    case True
    then obtain as ws where e: "e = Object_event True as ws" by blast
    with Cons.prems obtain p ps' where p: "ps = p # ps'" "good_reads p (concat ps' @ rest) as" "good_writes p ws"
      "good_events ps' rest (es @ es')" by (cases ps) auto
    from Cons.IH [OF p(4)] obtain ps1 ps2 where
      "ps' = ps1 @ ps2" "good_events ps1 (concat ps2 @ rest) es" "good_events ps2 rest es'" by blast
    with e p(1,2,3) show ?thesis
      by (intro exI [of _ "p # ps1"] exI [of _ ps2]) simp
  next
    case False
    then have "good_events qs r (e # l) = good_events qs r l" for qs r l by (cases e) auto
    with Cons show ?thesis by simp
  qed
qed simp

lemma recv_socket_packets:
  "good_events ps rest (concat (map (\<lambda>ret. case ret of None \<Rightarrow> [] | Some es \<Rightarrow> es) rets)) \<Longrightarrow> \<forall>p \<in> set ps. tx_packet p \<Longrightarrow>
     length (recvSocketBuf st) = RECV_BUF_SIZE \<Longrightarrow>
     \<exists>out st'. scomm_vendor_recv_socket_thread c (map (Pair True) rets) (concat ps @ rest) st =
       Inr (out, Some (rest, st', False)) \<and> tx_delivers c out ps"
proof (induction rets arbitrary: ps st)
  case (Cons ret rets)
  from good_events_append [OF Cons.prems(1) [unfolded list.map concat.simps]] obtain ps1 ps2 where
    ps: "ps = ps1 @ ps2" "good_events ps1 (concat ps2 @ rest) (case ret of None \<Rightarrow> [] | Some es \<Rightarrow> es)"
    "good_events ps2 rest (concat (map (\<lambda>ret. case ret of None \<Rightarrow> [] | Some es \<Rightarrow> es) rets))" by blast
  from socket_events_packets [OF ps(2) _ Cons.prems(3), of c] Cons.prems(2) ps(1) obtain out st1 where
    s1: "socket_events c (case ret of None \<Rightarrow> [] | Some es \<Rightarrow> es) (concat ps1 @ concat ps2 @ rest) st = Inr (out, Some (concat ps2 @ rest, st1))"
    "tx_delivers c out ps1" "length (recvSocketBuf st1) = RECV_BUF_SIZE" by auto
  from Cons.IH [OF ps(3) _ s1(3)] Cons.prems(2) ps(1) obtain out' st' where
    "scomm_vendor_recv_socket_thread c (map (Pair True) rets) (concat ps2 @ rest) st1 = Inr (out', Some (rest, st', False))"
    "tx_delivers c out' ps2" by auto
  with s1 ps(1) tx_delivers_append [OF s1(2), of out' ps2] show ?case by auto
qed simp

text \<open>
  The packets of the interface the host may send: neither events nor log packets, and small enough for
  the buffer. Each is a packet of the thread, and its port is its own channel, or the first one
  for all of them when the controller is not on SDIO.
\<close>

definition tx_message :: "hci_packet \<Rightarrow> bool" where
  "tx_message m \<longleftrightarrow> hci_fits m \<and> \<not> is_event m \<and> \<not> is_log m \<and> length (hci_encode m) \<le> RECV_BUF_SIZE"

lemma tx_message_packet: "tx_message m \<Longrightarrow> tx_packet (hci_encode m)"
  by (cases m) (simp_all add: tx_message_def tx_packet_def is_tx_type_def preamble_tx tx_payload_len_def
      le16_of_nat unat_ucast_of_nat del: unat_le16 unat_ucast_byte_u16)

lemma send_port_encode:
  "tx_message m \<Longrightarrow>
   send_port t (hci_encode m ! 0) = (if t AND SKWBT_TRANS_TYPE_SDIO \<noteq> 0 then hci_channel m else 0)"
  by (cases m) (simp_all add: tx_message_def send_port_def)

lemma tx_delivers_encode:
  "\<forall>m \<in> set ms. tx_message m \<Longrightarrow>
   tx_delivers c out (map hci_encode ms) \<longleftrightarrow>
     tx_sent out = map (\<lambda>m. (if tx_transtype c AND SKWBT_TRANS_TYPE_SDIO \<noteq> 0 then hci_channel m else 0, hci_encode m)) ms \<and>
     list_all2 (\<lambda>b m. take (length (hci_encode m)) b = hci_encode m) (tx_captured out) ms \<and>
     length (tx_wakes out) = (if wakes_controller c then length ms else 0) \<and> tx_in_order (wakes_controller c) out"
  by (simp add: tx_delivers_def send_port_encode list_all2_map2 cong: map_cong)

text \<open>
  C8: The way of the host's packets to the controller. The socket thread is run over any sequence of
  polls, errors of the poll and signals included, whose readable events meet the packets one by one; no
  read may split a packet's header (\<open>recv_rawdata_split_header\<close> shows what happens otherwise) or reach past the
  packet, and the writes get through. Then it forwards every packet of the host
  controller interface whole, in order, to its own channel if the controller is on SDIO and to the
  first one otherwise, in whatever pieces the device takes it; for each packet it wakes the controller once if that
  is configured, then captures the packet for the snoop log, then writes it to the port; and it leaves the rest of the
  socket untouched.
\<close>

theorem recv_socket_forwards_packets:
  assumes "\<forall>m \<in> set ms. tx_message m" and "length (recvSocketBuf st) = RECV_BUF_SIZE"
    and "good_events (map hci_encode ms) rest (concat (map (\<lambda>ret. case ret of None \<Rightarrow> [] | Some es \<Rightarrow> es) rets))"
  shows "\<exists>out st'. scomm_vendor_recv_socket_thread c (map (Pair True) rets) (concat (map hci_encode ms) @ rest) st =
      Inr (out, Some (rest, st', False)) \<and>
    tx_sent out = map (\<lambda>m. (if tx_transtype c AND SKWBT_TRANS_TYPE_SDIO \<noteq> 0 then hci_channel m else 0, hci_encode m)) ms \<and>
    list_all2 (\<lambda>b m. take (length (hci_encode m)) b = hci_encode m) (tx_captured out) ms \<and>
    length (tx_wakes out) = (if wakes_controller c then length ms else 0) \<and> tx_in_order (wakes_controller c) out"
proof -
  have "\<forall>p \<in> set (map hci_encode ms). tx_packet p"
    using assms(1) tx_message_packet by auto
  from recv_socket_packets [OF assms(3) this assms(2)] show ?thesis
    unfolding tx_delivers_encode [OF assms(1)] .
qed

definition sample_tx_state :: tx_state where
  "sample_tx_state = \<lparr>recvSocketBuf = replicate RECV_BUF_SIZE 0, pkt_cnts = 0\<rparr>"

definition sample_tx_conf :: tx_conf where
  "sample_tx_conf = \<lparr>tx_transtype = 0x21, tx_flags = \<lparr>skwdriverlog_en = True, skwbtuartonly = False, skwbtNoSleep = False\<rparr>,
     btpw_fp = -1\<rparr>"

theorem recv_socket_forwards_packets_witness:
  "\<exists>out st'. scomm_vendor_recv_socket_thread sample_tx_conf
      [(True, Some [Object_event True [Rd_upto 0, Rd_upto 2] [(True, Wrote 1), (True, Wrote 3)], Null_event]), (True, None),
       (True, Some [Object_event True [Rd_upto 0, Rd_upto 9, Rd_upto 9] [(True, Wrote 7)]])]
      ([1, 3, 0x0C, 0] @ [2, 1, 0, 2, 0, 8, 9] @ [1]) sample_tx_state = Inr (out, Some ([1], st', False)) \<and>
    tx_sent out = [(0, [1, 3, 0x0C, 0]), (1, [2, 1, 0, 2, 0, 8, 9])]"
proof -
  let ?ms = "[Hci_command 3 0x0C [], Hci_acl 1 0 [8, 9]]"
  let ?rets = "[Some [Object_event True [Rd_upto 0, Rd_upto 2] [(True, Wrote 1), (True, Wrote 3)], Null_event], None,
     Some [Object_event True [Rd_upto 0, Rd_upto 9, Rd_upto 9] [(True, Wrote 7)]]]"
  have m: "\<forall>m \<in> set ?ms. tx_message m"
    by (simp add: tx_message_def RECV_BUF_SIZE_def)
  have l: "length (recvSocketBuf sample_tx_state) = RECV_BUF_SIZE"
    by (simp add: sample_tx_state_def)
  have "good_events (map hci_encode ?ms) [1] (concat (map (\<lambda>ret. case ret of None \<Rightarrow> [] | Some es \<Rightarrow> es) ?rets))"
    by (simp add: good_reads_def good_writes_def tx_payload_len_def le16_def)
  from recv_socket_forwards_packets [OF m l this, of sample_tx_conf] show ?thesis
    by (auto simp: sample_tx_conf_def simp del: scomm_vendor_recv_socket_thread.simps)
qed

lemma recv_fill_split_header:
  assumes "length h = need" "2 \<le> need" "need \<le> Suc k" "off + need < length buf"
  shows "recv_fill off need 0 (Rd_upto 0 # Rd_upto k # as) (h @ x # q) buf =
    Inr (Filled, as, q, overwrite buf off (h @ [x]))"
proof -
  obtain a h' where h: "h = a # h'" using assms(1,2) by (cases h) auto
  have m: "min (Suc k) need = need" using assms(3) by simp
  have "take need (h' @ x # q) = h' @ [x]" "drop need (h' @ x # q) = q"
    using assms(1) h by auto
  moreover have "store buf off [a] = Inr (overwrite buf off [a])"
    "store (overwrite buf off [a]) (Suc off) (h' @ [x]) = Inr (overwrite buf off (h @ [x]))"
    using assms h overwrite_overwrite [of off "[a]" buf "h' @ [x]"] by (simp_all add: store_Inr)
  ultimately show ?thesis
    using assms h m by simp
qed

text \<open>The reading of such a packet: what is in the buffer, and how much of it.\<close>

lemma split_header_packet:
  assumes "tx_packet (t # h @ x # pl)" and "length h = unat (preamble_size t)" and "length buf = RECV_BUF_SIZE"
  shows "\<exists>b. recv_packet [Rd_upto 0, Rd_upto 0, Rd_upto 65535, Rd_upto 65535] ((t # h @ x # pl) @ y # rest) buf =
      Inr (Packet (of_nat (length (t # h @ pl @ [y]))), [], rest, b) \<and>
    take (length (t # h @ pl @ [y])) b = t # h @ pl @ [y] \<and> length b = RECV_BUF_SIZE"
proof -
  let ?p = "t # h @ x # pl" and ?p' = "t # h @ pl @ [y]"
  define need where "need = unat (preamble_size t)"
  have p: "is_tx_type t" "length ?p \<le> RECV_BUF_SIZE" "length ?p = Suc need + unat (tx_payload_len ?p)"
    using assms(1) by (auto simp: tx_packet_def need_def)
  have need: "2 \<le> need" "need \<le> 4" "length h = need"
    using preamble_tx [OF p(1)] assms(2) by (auto simp: need_def)
  let ?b0 = "overwrite buf 0 [t]"
  let ?b1 = "overwrite ?b0 1 (h @ [x])"
  let ?b2 = "overwrite ?b1 (1 + need) (pl @ [y])"
  have b0: "length ?b0 = RECV_BUF_SIZE" "buf \<noteq> []"
    using assms(3) by (auto simp: RECV_BUF_SIZE_def)
  have fill: "recv_fill 1 need 0 [Rd_upto 0, Rd_upto 65535, Rd_upto 65535] (h @ x # pl @ y # rest) ?b0 =
      Inr (Filled, [Rd_upto 65535], pl @ y # rest, ?b1)"
    using need p(2) b0(1) by (intro recv_fill_split_header) auto
  have b1: "take (2 + need) ?b1 = t # h @ [x]" "length ?b1 = RECV_BUF_SIZE"
    using take_overwrite_append [of 1 "h @ [x]" ?b0] need p(2) b0(1) by (auto simp: overwrite_def)
  have "take (1 + need) ?b1 = take (1 + need) (take (2 + need) ?b1)" by (simp only: take_take min_def) simp
  then have t1: "take (1 + need) ?b1 = t # h" unfolding b1(1) using need(3) by simp
  have "tx_payload_len ?b1 = tx_payload_len ?p"
    by (rule tx_payload_len_prefix [of _ "Suc need"]) (use p(1,2) t1 need b1(2) in \<open>simp_all add: need_def [symmetric]\<close>)
  moreover have "unat (tx_payload_len ?p) = length (pl @ [y])"
    using p(3) need(3) by simp
  ultimately have len: "tx_payload_len ?b1 = tx_payload_len ?p" "unat (tx_payload_len ?p) = length (pl @ [y])" .
  have fill2: "recv_fill (1 + need) (unat (tx_payload_len ?p)) 0 [Rd_upto 65535] ((pl @ [y]) @ rest) ?b1 =
      Inr (Filled, [], rest, ?b2)"
    using len need p(2) b1(2) by (intro recv_fill_whole) (auto simp: RECV_BUF_SIZE_def)
  have "1 + preamble_size t + tx_payload_len ?p = of_nat (length ?p')"
    using p(3) by (simp add: need_def)
  moreover have "0 < tx_payload_len ?p"
    using len(2) by (simp only: word_less_nat_alt) simp
  ultimately have "recv_packet [Rd_upto 0, Rd_upto 0, Rd_upto 65535, Rd_upto 65535] (?p @ y # rest) buf =
      Inr (Packet (of_nat (length ?p')), [], rest, ?b2)"
    using p(1) fill fill2 len(1)
    by (simp add: recv_packet_type [OF b0(2)] need_def [symmetric] del: recv_fill.simps)
  moreover have "take (length ?p') ?b2 = ?p'" "length ?b2 = RECV_BUF_SIZE"
    using take_overwrite_append [of "1 + need" "pl @ [y]" ?b1] t1 b1(2) need(3) p(2) by auto
  ultimately show ?thesis by blast
qed

text \<open>
  C39: A header that arrives in two parts is not put together. If the read of the header gets only its
  first byte, the code asks for the whole header again and so takes the first payload byte with it,
  which the payload then overwrites: with more data behind the packet, the device gets the packet
  without its first payload byte and with the first byte of the next packet at its end, and the
  rest of the socket starts in the middle of that packet.
\<close>

theorem recv_rawdata_split_header:
  assumes "tx_packet (t # h @ x # pl)" and "length h = unat (preamble_size t)"
    and "length (recvSocketBuf st) = RECV_BUF_SIZE" and "good_writes (t # h @ x # pl) ws"
  shows "\<exists>out st'. scomm_vendor_recv_rawdata c [Rd_upto 0, Rd_upto 0, Rd_upto 65535, Rd_upto 65535] ws
       ((t # h @ x # pl) @ y # rest) st = Inr (out, [], rest, st', True) \<and>
     tx_sent out = [(send_port (tx_transtype c) t, t # h @ pl @ [y])]"
proof -
  let ?p = "t # h @ x # pl" and ?p' = "t # h @ pl @ [y]"
  from split_header_packet [OF assms(1-3)] obtain b where
    b: "recv_packet [Rd_upto 0, Rd_upto 0, Rd_upto 65535, Rd_upto 65535] (?p @ y # rest) (recvSocketBuf st) =
      Inr (Packet (of_nat (length ?p')), [], rest, b)" "take (length ?p') b = ?p'" "length b = RECV_BUF_SIZE"
    by blast
  have "good_writes ?p' ws" "length ?p' \<le> RECV_BUF_SIZE"
    using assms(1,4) by (simp_all add: good_writes_def tx_packet_def)
  with b(2,3) obtain out st' where
    "forward_packet c ws (of_nat (length ?p')) (st\<lparr>recvSocketBuf := b\<rparr>) = (out, st', True)" "tx_delivers c out [?p']"
    using forward_packet_all [of ?p' "st\<lparr>recvSocketBuf := b\<rparr>" ws c] by auto
  with b(1) show ?thesis
    by (auto simp: scomm_vendor_recv_rawdata_def tx_delivers_def)
qed

theorem recv_rawdata_split_header_witness:
  "\<exists>out st'. scomm_vendor_recv_rawdata sample_tx_conf [Rd_upto 0, Rd_upto 0, Rd_upto 65535, Rd_upto 65535] [(True, Wrote 6)]
       [1, 0x1A, 0x0C, 2, 7, 8, 1, 3, 0x0C, 0] sample_tx_state = Inr (out, [], [3, 0x0C, 0], st', True) \<and>
     tx_sent out = [(0, [1, 0x1A, 0x0C, 2, 8, 1])]"
proof -
  have "tx_packet (1 # [0x1A, 0x0C, 2] @ 7 # [8])"
    by (simp add: tx_packet_def is_tx_type_def tx_payload_len_def RECV_BUF_SIZE_def)
  moreover have "length (recvSocketBuf sample_tx_state) = RECV_BUF_SIZE"
    by (simp add: sample_tx_state_def)
  moreover have "good_writes (1 # [0x1A, 0x0C, 2] @ 7 # [8]) [(True, Wrote 6)]"
    by (simp add: good_writes_def)
  ultimately have "\<exists>out st'. scomm_vendor_recv_rawdata sample_tx_conf [Rd_upto 0, Rd_upto 0, Rd_upto 65535, Rd_upto 65535] [(True, Wrote 6)]
       ((1 # [0x1A, 0x0C, 2] @ 7 # [8]) @ 1 # [3, 0x0C, 0]) sample_tx_state = Inr (out, [], [3, 0x0C, 0], st', True) \<and>
     tx_sent out = [(send_port (tx_transtype sample_tx_conf) 1, 1 # [0x1A, 0x0C, 2] @ [8] @ [1])]"
    by (intro recv_rawdata_split_header) simp_all
  then show ?thesis
    by (simp add: sample_tx_conf_def send_port_def)
qed

section \<open>Writing to the host\<close>

lemma send_loop_errors:
  "\<forall>o' \<in> set os. fst o' \<Longrightarrow> send_loop os buf sent len = send_loop (filter (\<lambda>o'. snd o' \<noteq> Write_error) os) buf sent len"
proof (induction os buf sent len rule: send_loop.induct)
  case (1 buf sent len)
  then show ?case by simp
next
  case (2 running ret os buf sent len)
  have done': "send_loop l buf sent 0 = ([], True)" for l
    by (cases l) auto
  show ?case
  proof (cases "0 < len")
    case True
    with 2 show ?thesis by (cases ret) auto
  next
    case False
    then have "len = 0" using word_neq_0_conv by blast
    then show ?thesis using done' by simp
  qed
qed

lemma answers_fit_errors: "answers_fit n (filter (\<lambda>o'. snd o' \<noteq> Write_error) os) = answers_fit n os"
  by (induction n os rule: answers_fit.induct) auto

lemma taken_errors: "taken (filter (\<lambda>o'. snd o' \<noteq> Write_error) os) = taken os"
  by (induction os rule: taken.induct) auto

lemma send_to_host_whole:
  assumes "length p < 65536" "answers_fit (length p) os" "\<forall>o' \<in> set os. fst o'" "taken os = length p"
  shows "scomm_vendor_send_to_host os p (of_nat (length p)) = (p, True)"
proof -
  let ?os = "filter (\<lambda>o'. snd o' \<noteq> Write_error) os"
  have "\<forall>o' \<in> set ?os. \<exists>n. o' = (True, Wrote n)"
  proof
    fix o' assume "o' \<in> set ?os"
    then have "fst o'" "snd o' \<noteq> Write_error" using assms(3) by auto
    then show "\<exists>n. o' = (True, Wrote n)" by (metis prod.collapse write_res.exhaust)
  qed
  then have "send_loop ?os p (of_nat 0) (of_nat (length p)) = (subbuf 0 (length p) p, True)"
    using assms by (intro host.loop_complete) (auto simp: answers_fit_errors taken_errors)
  then show ?thesis
    using send_loop_errors [OF assms(3)] by (simp add: scomm_vendor_send_to_host_def)
qed

text \<open>
  C38: Packets reach the host's socket exactly once. Whatever the kernel answers to the writes, failing and
  empty ones included, what it takes is a prefix of the packet, with nothing repeated or skipped;
  and while the port is running and the writes that succeed add up to the packet, it is sent whole
  and the function returns, however many writes fail in between.
\<close>

theorem send_to_host_exactly_once:
  assumes "length p < 65536" and "answers_fit (length p) os"
  shows "\<exists>n \<le> length p. fst (scomm_vendor_send_to_host os p (of_nat (length p))) = take n p \<and>
    ((\<forall>o' \<in> set os. fst o') \<and> taken os = length p \<longrightarrow> scomm_vendor_send_to_host os p (of_nat (length p)) = (p, True))"
proof -
  obtain n where "n \<le> length p" "fst (send_loop os p (of_nat 0) (of_nat (length p))) = subbuf 0 n p"
    using host.loop_prefix [of 0 "length p" p os] assms by auto
  with send_to_host_whole [OF assms] show ?thesis
    by (auto simp: scomm_vendor_send_to_host_def)
qed

theorem send_to_host_exactly_once_witness:
  "scomm_vendor_send_to_host [(True, Wrote 1), (True, Write_error), (True, Wrote 0), (True, Wrote 3)] [4, 0x0E, 1, 0x55] 4 =
     ([4, 0x0E, 1, 0x55], True)"
proof -
  let ?os = "[(True, Wrote 1), (True, Write_error), (True, Wrote 0), (True, Wrote 3)]" and ?p = "[4, 0x0E, 1, 0x55] :: byte list"
  have "length ?p < 65536" "answers_fit (length ?p) ?os" "\<forall>o' \<in> set ?os. fst o'" "taken ?os = length ?p"
    by simp_all
  then have "scomm_vendor_send_to_host ?os ?p (of_nat (length ?p)) = (?p, True)"
    using send_to_host_exactly_once [of ?p ?os] by blast
  then show ?thesis by simp
qed

text \<open>
  The host's end of the socket: the bytes the sends of a run of events put into it, one list of answers
  for each send, and whether all of them are over.
\<close>

fun host_stream :: "(bool \<times> write_res) list list \<Rightarrow> rx_event list \<Rightarrow> byte list \<times> bool" where
  "host_stream oss [] = ([], True)"
| "host_stream [] (Send_to_host i p # es) = ([], False)"
| "host_stream (os # oss) (Send_to_host i p # es) =
     (case scomm_vendor_send_to_host os p (of_nat (length p)) of
        (out, False) \<Rightarrow> (out, False)
      | (out, True) \<Rightarrow> (let (out', over) = host_stream oss es in (out @ out', over)))"
| "host_stream oss (_ # es) = host_stream oss es"

text \<open>The answers to a send that gets through: no failure is final, and the port stays up.\<close>

definition gets_through :: "byte list \<Rightarrow> (bool \<times> write_res) list \<Rightarrow> bool" where
  "gets_through p os \<longleftrightarrow> answers_fit (length p) os \<and> (\<forall>o' \<in> set os. fst o') \<and> taken os = length p"

lemma host_stream_all:
  "list_all2 gets_through (rx_host es @ qs) oss \<Longrightarrow> \<forall>p \<in> set (rx_host es). length p < 65536 \<Longrightarrow>
   host_stream oss es = (concat (rx_host es), True)"
  by (induction oss es rule: host_stream.induct) (auto simp: gets_through_def send_to_host_whole)

end
