(* ===== verification/Threads.thy ===== *)
theory Threads
  imports Tx Snoop
begin

text \<open>
  The logs under the threads of the library. Every receive thread and the socket thread log what
  they pass on: \<open>skw_btsnoop_capture\<close> is taken apart into the steps other threads can see, its test before the
  lock \<open>btsnoop_log_lock\<close>, the lock, one write at a time and the rotation, and any number of threads
  take steps in any order.
\<close>

section \<open>The steps of a capture\<close>

type_synonym capture = "clock \<times> byte list \<times> bool"

datatype log_op = Op_capture capture | Op_skwlog clock "byte list"

text \<open>
  Where a thread is: outside of \<open>skw_btsnoop_capture\<close> and \<open>skwlog_write\<close>; behind the test of the first, in front of
  its lock; inside with the writes it has left; between the close and the open of a rotation; behind the test of
  the second, in front of its lock.
\<close>

datatype pc = Idle | Checked capture | Writing clock "byte list list" | Reopening clock | Logging clock "byte list"

record thread =
  pc :: pc
  todo :: "log_op list"

record machine =
  shared :: logs
  owner :: "nat option"
  threads :: "thread list"

definition thread_to :: "nat \<Rightarrow> pc \<Rightarrow> log_op list \<Rightarrow> machine \<Rightarrow> machine" where
  "thread_to i q ops m = m\<lparr>threads := (threads m)[i := \<lparr>pc = q, todo = ops\<rparr>]\<rparr>"

text \<open>
  One step of thread \<open>i\<close>; a thread in front of a lock that is held, and one with nothing to do, stay where
  they are. What \<open>skwlog_write\<close> does under its lock is one step, so no thread holds that lock between two steps;
  its test is a step of its own. A write to a log file writes all its bytes.
\<close>

definition thread_step :: "nat \<Rightarrow> machine \<Rightarrow> c_fault + machine" where
  "thread_step i m =
     (if length (threads m) \<le> i then Inr m
      else
        let ops = todo (threads m ! i); s = shared m in
        case pc (threads m ! i) of
          Idle \<Rightarrow>
            (case ops of
               [] \<Rightarrow> Inr m
             | Op_skwlog clk p # ops' \<Rightarrow> Inr (thread_to i (if skwlog_fp s > 0 then Logging clk p else Idle) ops' m)
             | Op_capture c # ops' \<Rightarrow>
                 Inr (thread_to i (if \<not> btsnoop_log_en s \<or> hci_btsnoop_fd s = -1 then Idle else Checked c) ops' m))
        | Checked (clk, packet, is_received) \<Rightarrow>
            if owner m \<noteq> None then Inr m
            else
              (case snoop_extent packet is_received of
                 Inl e \<Rightarrow> Inl e
               | Inr None \<Rightarrow> Inr (thread_to i Idle ops m)
               | Inr (Some (length_he, flags)) \<Rightarrow>
                   if length packet < length_he then Inl OutOfBounds
                   else Inr (thread_to i (Writing clk (snoop_chunks (skw_btsnoop_timestamp clk) flags (take length_he packet))) ops
                     (m\<lparr>shared := s\<lparr>btsnoop_rev_length := btsnoop_rev_length s + of_nat length_he\<rparr>, owner := Some i\<rparr>)))
        | Writing clk (b # bss) \<Rightarrow> Inr (thread_to i (Writing clk bss) ops (m\<lparr>shared := skw_btsnoop_write b s\<rparr>))
        | Writing clk [] \<Rightarrow>
            if btsnoop_rev_length s \<ge> SNOOP_LIMIT
            then Inr (thread_to i (Reopening clk) ops
              (m\<lparr>shared := s\<lparr>fs := px_close (hci_btsnoop_fd s) (fs s), hci_btsnoop_fd := -1\<rparr>\<rparr>))
            else Inr (thread_to i Idle ops (m\<lparr>owner := None\<rparr>))
        | Reopening clk \<Rightarrow>
            Inr (thread_to i Idle ops (m\<lparr>shared := skw_btsnoop_open clk s, owner := None\<rparr>))
        | Logging clk p \<Rightarrow> Inr (thread_to i Idle ops (m\<lparr>shared := skwlog_locked clk p s\<rparr>)))"

text \<open>A schedule names the thread of each step.\<close>

fun run_threads :: "nat list \<Rightarrow> machine \<Rightarrow> c_fault + machine" where
  "run_threads [] m = Inr m"
| "run_threads (i # sched) m = (case thread_step i m of Inl e \<Rightarrow> Inl e | Inr m' \<Rightarrow> run_threads sched m')"

definition machine_start :: "logs \<Rightarrow> log_op list list \<Rightarrow> machine" where
  "machine_start s opss = \<lparr>shared = s, owner = None, threads = map (\<lambda>ops. \<lparr>pc = Idle, todo = ops\<rparr>) opss\<rparr>"

definition machine_done :: "machine \<Rightarrow> bool" where
  "machine_done m \<longleftrightarrow> (\<forall>t \<in> set (threads m). pc t = Idle \<and> todo t = [])"

lemma run_threads_append:
  "run_threads (a @ b) m = (case run_threads a m of Inl e \<Rightarrow> Inl e | Inr m' \<Rightarrow> run_threads b m')"
  by (induction a m rule: run_threads.induct) (auto split: sum.splits)

lemma thread_to_simps [simp]:
  "shared (thread_to i q ops m) = shared m" "owner (thread_to i q ops m) = owner m"
  "threads (thread_to i q ops m) = (threads m)[i := \<lparr>pc = q, todo = ops\<rparr>]"
  by (simp_all add: thread_to_def)

section \<open>Alone, a thread makes whole captures\<close>

text \<open>The writes of one record, one after the other.\<close>

lemma run_writes:
  assumes "i < length (threads m)" "pc (threads m ! i) = Writing clk bss"
  shows "run_threads (replicate (length bss) i) m =
    Inr (thread_to i (Writing clk []) (todo (threads m ! i)) (m\<lparr>shared := fold skw_btsnoop_write bss (shared m)\<rparr>))"
  using assms
proof (induction bss arbitrary: m)
  case Nil
  then have "threads m ! i = \<lparr>pc = Writing clk [], todo = todo (threads m ! i)\<rparr>"
    by (cases "threads m ! i") simp
  then show ?case
    by (simp add: thread_to_def list_update_id)
next
  case (Cons b bss)
  have "thread_step i m = Inr (thread_to i (Writing clk bss) (todo (threads m ! i)) (m\<lparr>shared := skw_btsnoop_write b (shared m)\<rparr>))"
    using Cons.prems by (simp add: thread_step_def Let_def)
  then show ?case
    using Cons.prems Cons.IH [of "thread_to i (Writing clk bss) (todo (threads m ! i)) (m\<lparr>shared := skw_btsnoop_write b (shared m)\<rparr>)"]
    by (simp add: thread_to_def)
qed

lemma thread_to_twice [simp]:
  "thread_to i q ops (thread_to i q' ops' m) = thread_to i q ops m"
  "thread_to i q ops (m\<lparr>shared := s\<rparr>) = (thread_to i q ops m)\<lparr>shared := s\<rparr>"
  "thread_to i q ops (m\<lparr>owner := w\<rparr>) = (thread_to i q ops m)\<lparr>owner := w\<rparr>"
  by (simp_all add: thread_to_def)

lemma run_threads_add:
  "run_threads (replicate (j + k) i) m =
    (case run_threads (replicate j i) m of Inl e \<Rightarrow> Inl e | Inr m' \<Rightarrow> run_threads (replicate k i) m')"
  by (simp add: replicate_add run_threads_append)

text \<open>A capture that has something to write, from its test to the last of its writes, and its end.\<close>

lemma capture_writes_alone:
  assumes "i < length (threads m)" and "threads m ! i = \<lparr>pc = Idle, todo = Op_capture (clk, packet, rx) # ops\<rparr>"
    and "owner m = None" and "btsnoop_log_en (shared m)" "hci_btsnoop_fd (shared m) \<noteq> -1"
    and "snoop_extent packet rx = Inr (Some (n, flags))" "n \<le> length packet"
    and bss: "bss = snoop_chunks (skw_btsnoop_timestamp clk) flags (take n packet)"
    and s2: "s2 = fold skw_btsnoop_write bss ((shared m)\<lparr>btsnoop_rev_length := btsnoop_rev_length (shared m) + of_nat n\<rparr>)"
  shows "run_threads (replicate (2 + length bss) i) m = Inr (thread_to i (Writing clk []) ops (m\<lparr>shared := s2, owner := Some i\<rparr>))"
    "skw_btsnoop_capture clk packet rx (shared m) =
      Inr (if SNOOP_LIMIT \<le> btsnoop_rev_length s2
        then skw_btsnoop_open clk (s2\<lparr>fs := px_close (hci_btsnoop_fd s2) (fs s2), hci_btsnoop_fd := -1\<rparr>) else s2)"
proof -
  let ?m1 = "thread_to i (Checked (clk, packet, rx)) ops m"
  let ?m2 = "thread_to i (Writing clk bss) ops
    (m\<lparr>shared := (shared m)\<lparr>btsnoop_rev_length := btsnoop_rev_length (shared m) + of_nat n\<rparr>, owner := Some i\<rparr>)"
  have "thread_step i m = Inr ?m1" using assms(1-5) by (simp add: thread_step_def Let_def)
  moreover have "thread_step i ?m1 = Inr ?m2" using assms by (simp add: thread_step_def Let_def thread_to_def)
  ultimately have two: "run_threads (replicate 2 i) m = Inr ?m2" by (simp add: numeral_2_eq_2)
  have "run_threads (replicate (length bss) i) ?m2 = Inr (thread_to i (Writing clk []) ops (m\<lparr>shared := s2, owner := Some i\<rparr>))"
    using assms(1) run_writes [of i ?m2 clk bss] by (simp add: s2)
  with two show "run_threads (replicate (2 + length bss) i) m = Inr (thread_to i (Writing clk []) ops (m\<lparr>shared := s2, owner := Some i\<rparr>))"
    by (simp only: run_threads_add sum.case)
  show "skw_btsnoop_capture clk packet rx (shared m) =
      Inr (if SNOOP_LIMIT \<le> btsnoop_rev_length s2
        then skw_btsnoop_open clk (s2\<lparr>fs := px_close (hci_btsnoop_fd s2) (fs s2), hci_btsnoop_fd := -1\<rparr>) else s2)"
    using assms(4-7) by (simp add: skw_btsnoop_capture_def Let_def s2 bss)
qed

lemma capture_ends_alone:
  assumes "i < length (threads m)" and "owner m = None"
    and "run_threads (replicate n i) m = Inr (thread_to i (Writing clk []) ops (m\<lparr>shared := s2, owner := Some i\<rparr>))"
  shows "\<exists>k. run_threads (replicate k i) m = Inr (thread_to i Idle ops (m\<lparr>shared :=
    (if SNOOP_LIMIT \<le> btsnoop_rev_length s2
     then skw_btsnoop_open clk (s2\<lparr>fs := px_close (hci_btsnoop_fd s2) (fs s2), hci_btsnoop_fd := -1\<rparr>) else s2)\<rparr>))"
proof -
  let ?m3 = "thread_to i (Writing clk []) ops (m\<lparr>shared := s2, owner := Some i\<rparr>)"
  let ?s3 = "s2\<lparr>fs := px_close (hci_btsnoop_fd s2) (fs s2), hci_btsnoop_fd := -1\<rparr>"
  have own: "m\<lparr>shared := s, owner := None, threads := ts\<rparr> = m\<lparr>shared := s, threads := ts\<rparr>" for s ts
    using assms(2) by (cases m) simp
  show ?thesis
  proof (cases "SNOOP_LIMIT \<le> btsnoop_rev_length s2")
    case False
    then have "thread_step i ?m3 = Inr (thread_to i Idle ops (m\<lparr>shared := s2\<rparr>))"
      using assms(1) by (simp add: thread_step_def Let_def thread_to_def own)
    with assms(3) have "run_threads (replicate (n + 1) i) m = Inr (thread_to i Idle ops (m\<lparr>shared := s2\<rparr>))"
      by (simp only: run_threads_add sum.case) simp
    then show ?thesis using False by (intro exI [of _ "n + 1"]) simp
  next
    case True
    let ?m4 = "thread_to i (Reopening clk) ops (m\<lparr>shared := ?s3, owner := Some i\<rparr>)"
    have "thread_step i ?m3 = Inr ?m4"
      using assms(1) True by (simp add: thread_step_def Let_def thread_to_def)
    moreover have "thread_step i ?m4 = Inr (thread_to i Idle ops (m\<lparr>shared := skw_btsnoop_open clk ?s3\<rparr>))"
      using assms(1) by (simp add: thread_step_def Let_def thread_to_def own)
    ultimately have "run_threads (replicate (n + 2) i) m = Inr (thread_to i Idle ops (m\<lparr>shared := skw_btsnoop_open clk ?s3\<rparr>))"
      using assms(3) by (simp only: run_threads_add sum.case) (simp add: numeral_2_eq_2)
    then show ?thesis using True by (intro exI [of _ "n + 2"]) simp
  qed
qed

text \<open>
  C26: Run by one thread alone, the steps make up \<open>skw_btsnoop_capture\<close>: started with the lock free,
  enough steps of the thread bring it through its next capture, with the same logs or the same fault, and
  the lock is free again.
\<close>

theorem capture_alone:
  assumes "i < length (threads m)" and "threads m ! i = \<lparr>pc = Idle, todo = Op_capture (clk, packet, rx) # ops\<rparr>"
    and "owner m = None"
  shows "\<exists>k. run_threads (replicate k i) m =
    (case skw_btsnoop_capture clk packet rx (shared m) of
       Inl e \<Rightarrow> Inl e
     | Inr s' \<Rightarrow> Inr (thread_to i Idle ops (m\<lparr>shared := s'\<rparr>)))"
proof (cases "\<not> btsnoop_log_en (shared m) \<or> hci_btsnoop_fd (shared m) = -1")
  case True
  then have "run_threads (replicate 1 i) m = Inr (thread_to i Idle ops m)"
    using assms by (simp add: thread_step_def Let_def)
  moreover have "skw_btsnoop_capture clk packet rx (shared m) = Inr (shared m)"
    using True by (auto simp: skw_btsnoop_capture_def)
  ultimately show ?thesis by (intro exI [of _ 1]) simp
next
  case False
  then have first: "thread_step i m = Inr (thread_to i (Checked (clk, packet, rx)) ops m)"
    using assms by (simp add: thread_step_def Let_def)
  consider e where "snoop_extent packet rx = Inl e" | "snoop_extent packet rx = Inr None"
    | n flags where "snoop_extent packet rx = Inr (Some (n, flags))" "length packet < n"
    | n flags where "snoop_extent packet rx = Inr (Some (n, flags))" "n \<le> length packet"
    by (metis not_le option.exhaust old.sum.exhaust surj_pair)
  then show ?thesis
  proof cases
    case (4 n flags)
    from False have "btsnoop_log_en (shared m)" "hci_btsnoop_fd (shared m) \<noteq> -1" by simp_all
    note w = capture_writes_alone [OF assms this 4 refl refl]
    from capture_ends_alone [OF assms(1,3) w(1)] w(2) show ?thesis by simp
  qed (use assms False first in
    \<open>auto intro!: exI [of _ 2] simp: numeral_2_eq_2 thread_step_def Let_def thread_to_def skw_btsnoop_capture_def\<close>)
qed

section \<open>Many threads\<close>

text \<open>Both logs open, with contents \<open>trace\<close> and \<open>c\<close>, and \<open>n\<close> and \<open>m\<close> more bytes below their limits.\<close>

definition logs_open :: "logs \<Rightarrow> byte list \<Rightarrow> byte list \<Rightarrow> nat \<Rightarrow> nat \<Rightarrow> bool" where
  "logs_open s trace c n m \<longleftrightarrow> snoop_inv s \<and> hci_btsnoop_fd s \<noteq> -1 \<and> 0 < skwlog_fp s \<and> btcp_log_en s \<and>
     px_content (fs s) (skw_btsnoop_path s) = Some trace \<and> px_content (fs s) (skwlog_path s) = Some c \<and>
     unat (btsnoop_rev_length s) + n < unat SNOOP_LIMIT \<and> unat (skwlog_rev_length s) + m < unat SKWLOG_LIMIT"

lemma logs_open_differ: "logs_open s trace c n m \<Longrightarrow> skwlog_path s \<noteq> skw_btsnoop_path s"
  using snoop_path_not_skwlog [OF _ snoop_names(1), of s] skwlog_names_files(1) [of s]
  by (metis logs_open_def snoop_inv_def)

lemma logs_open_mono: "logs_open s trace c n m \<Longrightarrow> n' \<le> n \<Longrightarrow> m' \<le> m \<Longrightarrow> logs_open s trace c n' m'"
  by (auto simp: logs_open_def)

lemma logs_openD:
  assumes "logs_open s trace c n m"
  shows "snoop_inv s" "snoop_ready s" "cplog_inv s" "px_ok (fs s)" "px_stdio (fs s)"
    "px_linked (fs s) (hci_btsnoop_fd s) (skw_btsnoop_path s)" "hci_btsnoop_fd s \<noteq> -1" "btsnoop_log_en s"
    "unat (btsnoop_rev_length s) + n < unat SNOOP_LIMIT"
  using assms by (auto simp: logs_open_def snoop_inv_def snoop_ready_def cplog_inv_def cplog_ok_def)

lemma logs_open_reserve:
  assumes "logs_open s trace c (k + n) m"
  shows "logs_open (s\<lparr>btsnoop_rev_length := btsnoop_rev_length s + of_nat k\<rparr>) trace c n m"
proof -
  note o = logs_openD [OF assms]
  have "unat (btsnoop_rev_length s + of_nat k) = unat (btsnoop_rev_length s) + k"
    using o(9) by (simp add: unat_add_u32 unat_of_nat_u32 SNOOP_LIMIT_def)
  moreover have "snoop_inv (s\<lparr>btsnoop_rev_length := btsnoop_rev_length s + of_nat k\<rparr>)"
    using o(1) snoop_ready_keeps(3) [OF o(2) fs_keeps_refl [OF o(4,5)]] by (simp add: snoop_inv_def)
  ultimately show ?thesis
    using assms by (simp add: logs_open_def)
qed

lemma logs_open_chunk:
  assumes "logs_open s trace c n m"
  shows "logs_open (skw_btsnoop_write b s) (trace @ b) c n m"
    "skw_btsnoop_path (skw_btsnoop_write b s) = skw_btsnoop_path s" "skwlog_path (skw_btsnoop_write b s) = skwlog_path s"
proof -
  note o = logs_openD [OF assms]
  have eq: "skw_btsnoop_write b s = s\<lparr>fs := px_write (hci_btsnoop_fd s) b (fs s)\<rparr>"
    using o(7) by (simp add: skw_btsnoop_write_def)
  have content: "px_content (px_write (hci_btsnoop_fd s) b (fs s)) = (px_content (fs s))(skw_btsnoop_path s \<mapsto> trace @ b)"
    using assms by (intro px_write_content [OF o(4,6)]) (simp add: logs_open_def)
  note k = fs_keeps_write [OF o(4-6) snoop_names(1), of b]
  have "snoop_inv (s\<lparr>fs := px_write (hci_btsnoop_fd s) b (fs s)\<rparr>)"
    using o(1,6) snoop_ready_keeps(1) [OF o(2) k] by (auto simp: snoop_inv_def px.wr_linked)
  then show "logs_open (skw_btsnoop_write b s) (trace @ b) c n m"
    using assms content logs_open_differ [OF assms] unfolding eq by (simp add: logs_open_def)
  show "skw_btsnoop_path (skw_btsnoop_write b s) = skw_btsnoop_path s" "skwlog_path (skw_btsnoop_write b s) = skwlog_path s"
    by (simp_all add: eq)
qed

lemma logs_open_write:
  assumes "logs_open s trace c n (length p + m)"
  shows "logs_open (skwlog_write clk p s) trace (c @ p) n m"
    "skw_btsnoop_path (skwlog_write clk p s) = skw_btsnoop_path s" "skwlog_path (skwlog_write clk p s) = skwlog_path s"
proof -
  note o = assms [unfolded logs_open_def]
  have inv: "cplog_inv s" "snoop_ready s"
    using o by (simp_all add: snoop_inv_def snoop_ready_def)
  note step = cplog_stepD [OF skwlog_write_step [OF inv(1), of clk p]]
  show paths: "skw_btsnoop_path (skwlog_write clk p s) = skw_btsnoop_path s" "skwlog_path (skwlog_write clk p s) = skwlog_path s"
    by (rule step)+
  have ok: "cplog_ok s" using inv(1) by (simp add: cplog_inv_def)
  have lim: "unat (skwlog_rev_length s) + length (concat [p]) < unat SKWLOG_LIMIT"
    using o by simp
  have eq: "skwlog_write clk p s = s\<lparr>fs := px_write (skwlog_fp s) p (fs s),
      skwlog_rev_length := skwlog_rev_length s + of_nat (length p)\<rparr>"
    using skwlog_write_all [OF ok _ _ _ lim, of c clk] o by simp
  have content: "px_content (px_write (skwlog_fp s) p (fs s)) = (px_content (fs s))(skwlog_path s \<mapsto> c @ p)"
    using ok o by (intro px_write_content) (auto simp: cplog_ok_def)
  have "skw_btsnoop_path s \<notin> skwlog_files s"
    by (rule snoop_path_not_skwlog [OF inv(2) snoop_names(1)])
  then have "px_linked (fs (skwlog_write clk p s)) (hci_btsnoop_fd s) (skw_btsnoop_path s)"
    using fs_keepsD(5) [OF step(10)] o by (auto simp: snoop_inv_def)
  then have "snoop_inv (skwlog_write clk p s)"
    using snoop_ready_step [OF inv(2) skwlog_write_step [OF inv(1)]] o step(1,3,6) by (auto simp: snoop_inv_def)
  moreover have "unat (skwlog_rev_length s + of_nat (length p)) = unat (skwlog_rev_length s) + length p"
    using o by (simp add: unat_add_u32 unat_of_nat_u32 SKWLOG_LIMIT_def)
  ultimately show "logs_open (skwlog_write clk p s) trace (c @ p) n m"
    using o content logs_open_differ [OF assms] paths unfolding logs_open_def eq by simp
qed

text \<open>What a thread has still to log, and how many bytes that is.\<close>

fun captures :: "log_op list \<Rightarrow> capture list" where
  "captures [] = []"
| "captures (Op_capture c # ops) = c # captures ops"
| "captures (Op_skwlog clk p # ops) = captures ops"

fun cp_writes :: "log_op list \<Rightarrow> byte list list" where
  "cp_writes [] = []"
| "cp_writes (Op_capture c # ops) = cp_writes ops"
| "cp_writes (Op_skwlog clk p # ops) = p # cp_writes ops"

definition pending :: "thread \<Rightarrow> capture list" where
  "pending t = (case pc t of Checked c \<Rightarrow> [c] | _ \<Rightarrow> []) @ captures (todo t)"

definition snoop_bytes :: "thread \<Rightarrow> nat" where
  "snoop_bytes t = length (concat (map snoop_sent (pending t)))"

definition cp_pending :: "thread \<Rightarrow> byte list list" where
  "cp_pending t = (case pc t of Logging clk p \<Rightarrow> [p] | _ \<Rightarrow> []) @ cp_writes (todo t)"

definition log_bytes :: "thread \<Rightarrow> nat" where
  "log_bytes t = length (concat (cp_pending t))"

definition left :: "(thread \<Rightarrow> nat) \<Rightarrow> machine \<Rightarrow> nat" where
  "left f m = sum_list (map f (threads m))"

lemma left_thread_to:
  assumes "i < length (threads m)"
  shows "left f (thread_to i q ops m) + f (threads m ! i) = left f m + f \<lparr>pc = q, todo = ops\<rparr>"
proof -
  have "f (threads m ! i) \<le> sum_list (map f (threads m))"
    using assms by (intro member_le_sum_list) auto
  then show ?thesis
    using assms by (simp add: left_def map_update sum_list_update)
qed

lemma left_shared [simp]: "left f (m\<lparr>shared := s\<rparr>) = left f m" "left f (m\<lparr>owner := w\<rparr>) = left f m"
  by (simp_all add: left_def)

text \<open>The record of a capture, and the part of a history that belongs to one thread.\<close>

fun snoop_rec :: "capture \<Rightarrow> byte list" where
  "snoop_rec (clk, packet, rx) =
     (case snoop_extent packet rx of
        Inr (Some (n, flags)) \<Rightarrow> snoop_record (skw_btsnoop_timestamp clk) flags (take n packet)
      | _ \<Rightarrow> [])"

definition of_thread :: "nat \<Rightarrow> (nat \<times> 'a) list \<Rightarrow> 'a list" where
  "of_thread i h = map snd (filter (\<lambda>x. fst x = i) h)"

lemma of_thread_simps [simp]:
  "of_thread i [] = []" "of_thread i (h @ h') = of_thread i h @ of_thread i h'"
  "of_thread i ((j, x) # h) = (if j = i then x # of_thread i h else of_thread i h)"
  by (simp_all add: of_thread_def)

definition unwritten :: "machine \<Rightarrow> byte list" where
  "unwritten m =
     (case owner m of
        None \<Rightarrow> []
      | Some i \<Rightarrow> (case pc (threads m ! i) of Writing clk bss \<Rightarrow> concat bss | _ \<Rightarrow> []))"

text \<open>
  What holds in every state, over the contents \<open>trace\<close> and \<open>c\<close> of the two files at the start: the snoop file, with
  the writes the owner of the lock has left, is the old file and the records of the captures that got
  the lock, in that order; the CP log is the old file and what was written; each thread has its own operations
  behind it or before it.
\<close>

definition machine_inv ::
    "logs \<Rightarrow> byte list \<Rightarrow> byte list \<Rightarrow> log_op list list \<Rightarrow> (nat \<times> capture) list \<Rightarrow> (nat \<times> byte list) list \<Rightarrow> machine \<Rightarrow> bool" where
  "machine_inv s trace c opss h w m \<longleftrightarrow>
     length (threads m) = length opss \<and> (\<forall>x \<in> set h. fst x < length opss) \<and> (\<forall>x \<in> set w. fst x < length opss) \<and>
     (\<forall>i < length opss. of_thread i h @ pending (threads m ! i) = captures (opss ! i)) \<and>
     (\<forall>i < length opss. of_thread i w @ cp_pending (threads m ! i) = cp_writes (opss ! i)) \<and>
     (\<forall>i. owner m = Some i \<longleftrightarrow> i < length opss \<and> (\<exists>clk bss. pc (threads m ! i) = Writing clk bss)) \<and>
     (\<forall>i < length opss. \<forall>clk. pc (threads m ! i) \<noteq> Reopening clk) \<and>
     (\<exists>file. logs_open (shared m) file (c @ concat (map snd w)) (left snoop_bytes m) (left log_bytes m) \<and>
        file @ unwritten m = trace @ concat (map (snoop_rec \<circ> snd) h)) \<and>
     skw_btsnoop_path (shared m) = skw_btsnoop_path s \<and> skwlog_path (shared m) = skwlog_path s"

lemma machine_inv_owner:
  "machine_inv s trace c opss h w m \<Longrightarrow>
   owner m = Some i \<longleftrightarrow> i < length opss \<and> (\<exists>clk bss. pc (threads m ! i) = Writing clk bss)"
  unfolding machine_inv_def by blast

lemma machine_inv_start:
  assumes "logs_open s trace c (length (concat (map snoop_sent (concat (map captures opss)))))
      (length (concat (concat (map cp_writes opss))))"
  shows "machine_inv s trace c opss [] [] (machine_start s opss)"
proof -
  have "left snoop_bytes (machine_start s opss) = length (concat (map snoop_sent (concat (map captures opss))))"
    "left log_bytes (machine_start s opss) = length (concat (concat (map cp_writes opss)))"
    by (induction opss) (simp_all add: left_def machine_start_def snoop_bytes_def log_bytes_def pending_def cp_pending_def)
  then show ?thesis
    using assms by (simp add: machine_inv_def pending_def cp_pending_def unwritten_def) (simp add: machine_start_def)
qed

lemma pending_complete:
  assumes "machine_inv s trace c opss h w m" "\<forall>ops \<in> set opss. \<forall>c \<in> set (captures ops). snoop_complete c" "i < length opss"
  shows "\<forall>c \<in> set (pending (threads m ! i)). snoop_complete c"
proof
  fix x assume "x \<in> set (pending (threads m ! i))"
  moreover have "of_thread i h @ pending (threads m ! i) = captures (opss ! i)"
    using assms(1,3) by (simp add: machine_inv_def)
  ultimately have "x \<in> set (captures (opss ! i))"
    by (metis Un_iff set_append)
  then show "snoop_complete x"
    using assms(2,3) by (meson nth_mem)
qed

text \<open>A step of one thread has to keep only what concerns that thread.\<close>

lemma machine_inv_local:
  assumes inv: "machine_inv s trace c opss h w m" and i: "i < length opss"
    and ths: "threads m' = (threads m)[i := t']"
    and h': "h' = h @ map (Pair i) ch" "ch @ pending t' = pending (threads m ! i)"
    and w': "w' = w @ map (Pair i) cw" "cw @ cp_pending t' = cp_pending (threads m ! i)"
    and own: "owner m' = Some i \<longleftrightarrow> (\<exists>clk bss. pc t' = Writing clk bss)"
      "\<And>j. j \<noteq> i \<Longrightarrow> owner m' = Some j \<longleftrightarrow> owner m = Some j" "\<And>clk. pc t' \<noteq> Reopening clk"
    and logs: "logs_open (shared m') now (c @ concat (map snd w')) (left snoop_bytes m') (left log_bytes m')"
      "now @ unwritten m' = trace @ concat (map (snoop_rec \<circ> snd) h')"
      "skw_btsnoop_path (shared m') = skw_btsnoop_path (shared m)" "skwlog_path (shared m') = skwlog_path (shared m)"
  shows "machine_inv s trace c opss h' w' m'"
proof -
  have len: "length (threads m) = length opss"
    using inv by (simp add: machine_inv_def)
  have of: "of_thread j (map (Pair i) xs) = (if j = i then xs else [])" for j and xs :: "'z list"
    by (induction xs) auto
  have "\<forall>j < length opss. of_thread j h' @ pending (threads m' ! j) = captures (opss ! j)"
    using inv h' len unfolding machine_inv_def ths by (auto simp: nth_list_update of)
  moreover have "\<forall>j < length opss. of_thread j w' @ cp_pending (threads m' ! j) = cp_writes (opss ! j)"
    using inv w' len unfolding machine_inv_def ths by (auto simp: nth_list_update of)
  moreover have "\<forall>j. owner m' = Some j \<longleftrightarrow> j < length opss \<and> (\<exists>clk bss. pc (threads m' ! j) = Writing clk bss)"
  proof
    fix j
    show "owner m' = Some j \<longleftrightarrow> j < length opss \<and> (\<exists>clk bss. pc (threads m' ! j) = Writing clk bss)"
      using inv i len own(1) own(2) [of j] unfolding machine_inv_def ths by (cases "j = i") auto
  qed
  moreover have "\<forall>j < length opss. \<forall>clk. pc (threads m' ! j) \<noteq> Reopening clk"
  proof (intro allI impI)
    fix j clk assume "j < length opss"
    then show "pc (threads m' ! j) \<noteq> Reopening clk"
      using inv len own(3) unfolding machine_inv_def ths by (cases "j = i") simp_all
  qed
  ultimately show ?thesis
    using inv i logs unfolding machine_inv_def h'(1) w'(1) ths by auto
qed

lemma unwritten_shared [simp]: "unwritten (m\<lparr>shared := s\<rparr>) = unwritten m"
  by (simp add: unwritten_def cong: option.case_cong pc.case_cong)

lemma unwritten_other:
  "owner m \<noteq> Some i \<Longrightarrow> unwritten (thread_to i q ops m) = unwritten m"
  by (auto simp: unwritten_def thread_to_def split: option.splits)

lemma thread_step_inv:
  assumes inv: "machine_inv s trace c opss h w m"
    and complete: "\<forall>ops \<in> set opss. \<forall>c \<in> set (captures ops). snoop_complete c"
  shows "\<exists>m' h' w'. thread_step i m = Inr m' \<and> machine_inv s trace c opss h' w' m'"
proof (cases "i < length opss")
  case False
  then show ?thesis
    using inv by (intro exI [of _ m] exI [of _ h] exI [of _ w]) (simp add: machine_inv_def thread_step_def)
next
  case i: True
  then have len: "i < length (threads m)" "length (threads m) = length opss"
    using inv by (simp_all add: machine_inv_def)
  define t where "t = threads m ! i"
  note left = left_thread_to [OF len(1), folded t_def]
  note keep = machine_inv_local [OF inv i]
  have own: "owner m = Some i \<longleftrightarrow> (\<exists>clk bss. pc t = Writing clk bss)" "\<And>clk. pc t \<noteq> Reopening clk"
    using inv i by (simp_all add: machine_inv_def t_def)
  obtain now where now: "logs_open (shared m) now (c @ concat (map snd w)) (left snoop_bytes m) (left log_bytes m)"
    "now @ unwritten m = trace @ concat (map (snoop_rec \<circ> snd) h)"
    using inv by (auto simp: machine_inv_def)
  note comp = pending_complete [OF inv complete i, folded t_def]
  note bytes = snoop_bytes_def log_bytes_def pending_def cp_pending_def
  show ?thesis
  proof (cases "pc t")
    case (Reopening clk)
    then show ?thesis using own(2) by simp
  next
    case (Logging clk p)
    have o: "owner m \<noteq> Some i" using own(1) Logging by simp
    let ?m = "thread_to i Idle (todo t) (m\<lparr>shared := skwlog_write clk p (shared m)\<rparr>)"
    have "thread_step i m = Inr ?m"
      using len(1) Logging now(1) by (simp add: thread_step_def t_def Let_def logs_open_def skwlog_write_def)
    moreover have "machine_inv s trace c opss h (w @ map (Pair i) [p]) ?m"
    proof (rule keep [of ?m "\<lparr>pc = Idle, todo = todo t\<rparr>" h "[]" _ "[p]" now])
      have l: "left snoop_bytes m = left snoop_bytes ?m" "left log_bytes m = length p + left log_bytes ?m"
        using left [of snoop_bytes Idle "todo t"] left [of log_bytes Idle "todo t"] Logging by (simp_all add: bytes)
      show "logs_open (shared ?m) now (c @ concat (map snd (w @ map (Pair i) [p]))) (left snoop_bytes ?m) (left log_bytes ?m)"
        using logs_open_write(1) [OF now(1) [unfolded l], of clk] by simp
      show "skw_btsnoop_path (shared ?m) = skw_btsnoop_path (shared m)" "skwlog_path (shared ?m) = skwlog_path (shared m)"
        using logs_open_write(2,3) [OF now(1) [unfolded l], of clk] by simp_all
    qed (use Logging now o in \<open>simp_all add: pending_def cp_pending_def t_def unwritten_other\<close>)
    ultimately show ?thesis by blast
  next
    case (Writing clk bss)
    then have o: "owner m = Some i" and un: "unwritten m = concat bss"
      using own(1) by (auto simp: unwritten_def t_def)
    show ?thesis
    proof (cases bss)
      case Nil
      let ?m = "thread_to i Idle (todo t) (m\<lparr>owner := None\<rparr>)"
      have "\<not> SNOOP_LIMIT \<le> btsnoop_rev_length (shared m)"
        using logs_openD(9) [OF now(1)] by (simp add: word_le_nat_alt)
      then have "thread_step i m = Inr ?m"
        using len(1) Writing Nil by (simp add: thread_step_def t_def Let_def)
      moreover have "machine_inv s trace c opss h w ?m"
        using Writing Nil o un now left [of snoop_bytes Idle "todo t"] left [of log_bytes Idle "todo t"]
        by (intro keep [of ?m "\<lparr>pc = Idle, todo = todo t\<rparr>" h "[]" w "[]" now])
          (simp_all add: bytes t_def unwritten_def)
      ultimately show ?thesis by blast
    next
      case (Cons b bss')
      let ?m = "thread_to i (Writing clk bss') (todo t) (m\<lparr>shared := skw_btsnoop_write b (shared m)\<rparr>)"
      have "thread_step i m = Inr ?m"
        using len(1) Writing Cons by (simp add: thread_step_def t_def Let_def)
      moreover have "machine_inv s trace c opss h w ?m"
        using Writing Cons o un now len(1) logs_open_chunk [OF now(1), of b]
          left [of snoop_bytes "Writing clk bss'" "todo t"] left [of log_bytes "Writing clk bss'" "todo t"]
        by (intro keep [of ?m "\<lparr>pc = Writing clk bss', todo = todo t\<rparr>" h "[]" w "[]" "now @ b"])
          (simp_all add: bytes t_def unwritten_def)
      ultimately show ?thesis by blast
    qed
  next
    case (Checked cap)
    obtain clk packet rx where cap: "cap = (clk, packet, rx)" by (cases cap)
    have o: "owner m \<noteq> Some i" using own(1) Checked by simp
    have "snoop_complete cap" using comp Checked by (simp add: pending_def)
    then obtain n flags where ext: "snoop_extent packet rx = Inr (Some (n, flags))" "n \<le> length packet"
      by (auto simp: cap split: sum.splits option.splits)
    show ?thesis
    proof (cases "owner m")
      case (Some j)
      then have "thread_step i m = Inr m"
        using len(1) Checked cap by (simp add: thread_step_def t_def Let_def)
      then show ?thesis using inv by blast
    next
      case None
      let ?bss = "snoop_chunks (skw_btsnoop_timestamp clk) flags (take n packet)"
      let ?m = "thread_to i (Writing clk ?bss) (todo t) (m\<lparr>shared := (shared m)\<lparr>btsnoop_rev_length :=
        btsnoop_rev_length (shared m) + of_nat n\<rparr>, owner := Some i\<rparr>)"
      have "thread_step i m = Inr ?m"
        using len(1) Checked cap ext None by (simp add: thread_step_def t_def Let_def)
      moreover have "machine_inv s trace c opss (h @ map (Pair i) [cap]) w ?m"
      proof (rule keep [of ?m "\<lparr>pc = Writing clk ?bss, todo = todo t\<rparr>" _ "[cap]" w "[]" now])
        have l: "left snoop_bytes m = n + left snoop_bytes ?m" "left log_bytes m = left log_bytes ?m"
          using left [of snoop_bytes "Writing clk ?bss" "todo t"] left [of log_bytes "Writing clk ?bss" "todo t"] Checked cap ext
          by (simp_all add: bytes)
        show "logs_open (shared ?m) now (c @ concat (map snd w)) (left snoop_bytes ?m) (left log_bytes ?m)"
          using now(1) unfolding l by (simp add: logs_open_reserve)
      qed (use Checked cap ext None now len(1) in \<open>simp_all add: pending_def cp_pending_def t_def unwritten_def snoop_record_def\<close>)
      ultimately show ?thesis by blast
    qed
  next
    case Idle
    have o: "owner m \<noteq> Some i" using own(1) Idle by simp
    show ?thesis
    proof (cases "todo t")
      case Nil
      then have "thread_step i m = Inr m"
        using len(1) Idle by (simp add: thread_step_def t_def Let_def)
      then show ?thesis using inv by blast
    next
      case (Cons op ops)
      show ?thesis
      proof (cases op)
        case (Op_skwlog clk p)
        let ?m = "thread_to i (Logging clk p) ops m"
        have "thread_step i m = Inr ?m"
          using len(1) Idle Cons Op_skwlog now(1) by (simp add: thread_step_def t_def Let_def logs_open_def)
        moreover have "machine_inv s trace c opss h w ?m"
          using Idle Cons Op_skwlog now o left [of snoop_bytes "Logging clk p" ops] left [of log_bytes "Logging clk p" ops]
          by (intro keep [of ?m "\<lparr>pc = Logging clk p, todo = ops\<rparr>" h "[]" w "[]" now])
            (simp_all add: bytes t_def unwritten_other)
        ultimately show ?thesis by blast
      next
        case (Op_capture cap)
        let ?m = "thread_to i (Checked cap) ops m"
        have "thread_step i m = Inr ?m"
          using len(1) Idle Cons Op_capture logs_openD(7,8) [OF now(1)] by (simp add: thread_step_def t_def Let_def)
        moreover have "machine_inv s trace c opss h w ?m"
          using Idle Cons Op_capture now o left [of snoop_bytes "Checked cap" ops] left [of log_bytes "Checked cap" ops]
          by (intro keep [of ?m "\<lparr>pc = Checked cap, todo = ops\<rparr>" h "[]" w "[]" now])
            (simp_all add: bytes t_def unwritten_other)
        ultimately show ?thesis by blast
      qed
    qed
  qed
qed

lemma run_threads_inv:
  assumes "machine_inv s trace c opss h w m" "\<forall>ops \<in> set opss. \<forall>c \<in> set (captures ops). snoop_complete c"
  shows "\<exists>m' h' w'. run_threads sched m = Inr m' \<and> machine_inv s trace c opss h' w' m'"
  using assms(1)
proof (induction sched arbitrary: h w m)
  case (Cons i sched)
  from thread_step_inv [OF Cons.prems assms(2), of i] obtain m1 h1 w1 where
    "thread_step i m = Inr m1" "machine_inv s trace c opss h1 w1 m1" by blast
  with Cons.IH show ?case by simp
qed auto

section \<open>The traffic of all threads in the logs\<close>

lemma snoop_parse_records:
  "snoop_parse trace = Some recs \<Longrightarrow> \<forall>r \<in> set rs. snoop_need r = Some (length r) \<Longrightarrow>
   snoop_parse (trace @ concat rs) = Some (recs @ rs)"
proof (induction rs arbitrary: trace recs)
  case (Cons r rs)
  then show ?case using Cons.IH [OF snoop_parse_append [of trace recs r]] by simp
qed simp

lemma snoop_rec_frame:
  assumes "snoop_complete cap"
  shows "snoop_need (snoop_rec cap) = Some (length (snoop_rec cap))" "snoop_payload (snoop_rec cap) = snoop_sent cap"
proof -
  obtain clk packet rx where cap: "cap = (clk, packet, rx)" by (cases cap)
  with assms obtain n flags where ext: "snoop_extent packet rx = Inr (Some (n, flags))" "n \<le> length packet"
    by (auto split: sum.splits option.splits)
  have "length (take n packet) < 2 ^ 32"
    using snoop_extent_less [OF ext(1)] by simp
  then show "snoop_need (snoop_rec cap) = Some (length (snoop_rec cap))" "snoop_payload (snoop_rec cap) = snoop_sent cap"
    using snoop_record_frame by (simp_all add: cap ext(1) snoop_record_fields)
qed

lemma machine_done_pending:
  "machine_done m \<Longrightarrow> i < length (threads m) \<Longrightarrow> pending (threads m ! i) = [] \<and> cp_pending (threads m ! i) = []"
  using nth_mem [of i "threads m"] by (auto simp: machine_done_def pending_def cp_pending_def)

lemma of_thread_map: "of_thread i (map (\<lambda>(j, x). (j, f x)) h) = map f (of_thread i h)"
  by (induction h) auto

text \<open>What is in the two files when all threads are through.\<close>

definition threads_logged :: "logs \<Rightarrow> byte list list \<Rightarrow> byte list \<Rightarrow> log_op list list \<Rightarrow> machine \<Rightarrow> bool" where
  "threads_logged s recs c opss m \<longleftrightarrow>
     (\<exists>trace' rs w.
        px_content (fs (shared m)) (skw_btsnoop_path s) = Some trace' \<and> snoop_parse trace' = Some (recs @ map snd rs) \<and>
        px_content (fs (shared m)) (skwlog_path s) = Some (c @ concat (map snd w)) \<and>
        (\<forall>i < length opss. of_thread i rs = map snoop_rec (captures (opss ! i)) \<and> of_thread i w = cp_writes (opss ! i)) \<and>
        (\<forall>x \<in> set rs. fst x < length opss) \<and> (\<forall>x \<in> set w. fst x < length opss))"

lemma threads_run:
  assumes "\<forall>ops \<in> set opss. \<forall>cap \<in> set (captures ops). snoop_complete cap"
    and "logs_open s trace c (length (concat (map snoop_sent (concat (map captures opss)))))
      (length (concat (concat (map cp_writes opss))))"
    and "snoop_parse trace = Some recs"
  shows "\<exists>m. run_threads sched (machine_start s opss) = Inr m \<and> (machine_done m \<longrightarrow> threads_logged s recs c opss m)"
proof -
  from run_threads_inv [OF machine_inv_start [OF assms(2)] assms(1)] obtain m h w where
    run: "run_threads sched (machine_start s opss) = Inr m" and inv: "machine_inv s trace c opss h w m" by blast
  define rs where "rs = map (\<lambda>(i, cap). (i, snoop_rec cap)) h"
  have "machine_done m \<longrightarrow> threads_logged s recs c opss m"
  proof
    assume fin: "machine_done m"
    have len: "length (threads m) = length opss"
      using inv by (simp add: machine_inv_def)
    have caps: "\<forall>i < length opss. of_thread i h = captures (opss ! i) \<and> of_thread i w = cp_writes (opss ! i)"
      using inv machine_done_pending [OF fin] len by (simp add: machine_inv_def)
    have "owner m = None"
    proof (rule ccontr)
      assume "owner m \<noteq> None"
      then obtain i where "owner m = Some i" by blast
      then have "i < length opss" "\<exists>clk bss. pc (threads m ! i) = Writing clk bss"
        using machine_inv_owner [OF inv] by simp_all
      then show False
        using fin len by (metis machine_done_def nth_mem pc.distinct(3))
    qed
    then have un: "unwritten m = []" by (simp add: unwritten_def)
    obtain trace' where o: "logs_open (shared m) trace' (c @ concat (map snd w)) (left snoop_bytes m) (left log_bytes m)"
      "trace' = trace @ concat (map (snoop_rec \<circ> snd) h)"
      "skw_btsnoop_path (shared m) = skw_btsnoop_path s" "skwlog_path (shared m) = skwlog_path s"
      using inv un by (auto simp: machine_inv_def)
    have snd: "map snd rs = map (snoop_rec \<circ> snd) h" by (auto simp: rs_def)
    have "snoop_complete cap" if "(i, cap) \<in> set h" for i cap
    proof -
      have "i < length opss" using inv that by (auto simp: machine_inv_def)
      moreover have "cap \<in> set (of_thread i h)" using that by (force simp: of_thread_def)
      ultimately show ?thesis using caps assms(1) by (metis nth_mem)
    qed
    then have "\<forall>r \<in> set (map snd rs). snoop_need r = Some (length r)"
      using snoop_rec_frame(1) by (auto simp: rs_def)
    from snoop_parse_records [OF assms(3) this] have "snoop_parse trace' = Some (recs @ map snd rs)"
      by (simp add: o(2) snd)
    moreover have "\<forall>i < length opss. of_thread i rs = map snoop_rec (captures (opss ! i)) \<and> of_thread i w = cp_writes (opss ! i)"
      using caps by (simp add: rs_def of_thread_map)
    moreover have "\<forall>x \<in> set rs. fst x < length opss" "\<forall>x \<in> set w. fst x < length opss"
      using inv by (auto simp: rs_def machine_inv_def)
    ultimately show "threads_logged s recs c opss m"
      using o(1,3,4) unfolding logs_open_def threads_logged_def by metis
  qed
  with run show ?thesis by blast
qed

text \<open>
  C5: The lock of the snoop log keeps the two files whole. Any number of threads capture packets and write CP
  log packets; their steps, down to the single writes of a record, interleave in any order. Below
  the size limits no schedule leads to a fault; and when all threads are through, the snoop file, which parsed before,
  parses to its old records followed by whole records, those of each thread being just its captures
  in its own order, and the CP log is extended by the packets of all threads, those of each in its own order.
\<close>

theorem threads_log:
  assumes "\<forall>ops \<in> set opss. \<forall>cap \<in> set (captures ops). snoop_complete cap"
    and "logs_open s trace c (length (concat (map snoop_sent (concat (map captures opss)))))
      (length (concat (concat (map cp_writes opss))))"
    and "snoop_parse trace = Some recs"
  shows "\<exists>m. run_threads sched (machine_start s opss) = Inr m \<and>
    (machine_done m \<longrightarrow>
      (\<exists>trace' rs w.
        px_content (fs (shared m)) (skw_btsnoop_path s) = Some trace' \<and> snoop_parse trace' = Some (recs @ map snd rs) \<and>
        px_content (fs (shared m)) (skwlog_path s) = Some (c @ concat (map snd w)) \<and>
        (\<forall>i < length opss. of_thread i rs = map snoop_rec (captures (opss ! i)) \<and> of_thread i w = cp_writes (opss ! i)) \<and>
        (\<forall>x \<in> set rs. fst x < length opss) \<and> (\<forall>x \<in> set w. fst x < length opss)))"
  using threads_run [OF assms] unfolding threads_logged_def .

lemma of_thread_all: "\<forall>x \<in> set w. fst x < 2 \<Longrightarrow> of_thread 1 w = [] \<Longrightarrow> map snd w = of_thread 0 w"
  by (induction w) (auto split: if_splits)

lemma threads_logged_two:
  assumes "threads_logged s recs c [a, b] m" "cp_writes b = []"
  shows "\<exists>trace' rs. px_content (fs (shared m)) (skw_btsnoop_path s) = Some trace' \<and> snoop_parse trace' = Some (recs @ map snd rs) \<and>
    (\<forall>x \<in> set rs. fst x < 2) \<and> of_thread 0 rs = map snoop_rec (captures a) \<and> of_thread 1 rs = map snoop_rec (captures b) \<and>
    px_content (fs (shared m)) (skwlog_path s) = Some (c @ concat (cp_writes a))"
proof -
  from assms(1) obtain trace' rs w where r: "px_content (fs (shared m)) (skw_btsnoop_path s) = Some trace'"
    "snoop_parse trace' = Some (recs @ map snd rs)" "px_content (fs (shared m)) (skwlog_path s) = Some (c @ concat (map snd w))"
    "\<forall>i < 2. of_thread i rs = map snoop_rec (captures ([a, b] ! i)) \<and> of_thread i w = cp_writes ([a, b] ! i)"
    "\<forall>x \<in> set rs. fst x < 2" "\<forall>x \<in> set w. fst x < 2"
    by (auto simp: threads_logged_def numeral_2_eq_2)
  have "of_thread 1 w = []" "of_thread 0 w = cp_writes a"
    using r(4) assms(2) by (auto dest: spec [of _ 0] spec [of _ 1])
  with of_thread_all [OF r(6)] have "map snd w = cp_writes a" by simp
  moreover have "of_thread 0 rs = map snoop_rec (captures a)" "of_thread 1 rs = map snoop_rec (captures b)"
    using r(4) by (auto dest: spec [of _ 0] spec [of _ 1])
  ultimately show ?thesis using r(1-3,5) by auto
qed

section \<open>What the two kinds of threads log\<close>

text \<open>
  The log operations of the receive thread and of the socket thread, from the events of \<open>Rx\<close> and \<open>Tx\<close>; \<open>clk\<close> is
  the clock at each of them.
\<close>

fun rx_ops :: "(nat \<Rightarrow> clock) \<Rightarrow> rx_event list \<Rightarrow> log_op list" where
  "rx_ops clk [] = []"
| "rx_ops clk (Skwlog_write p # es) = Op_skwlog (clk 0) p # rx_ops (clk \<circ> Suc) es"
| "rx_ops clk (Btsnoop_capture b r # es) = Op_capture (clk 0, b, r) # rx_ops (clk \<circ> Suc) es"
| "rx_ops clk (Send_to_host i p # es) = rx_ops clk es"
| "rx_ops clk (Close_fd d # es) = rx_ops clk es"

fun tx_ops :: "(nat \<Rightarrow> clock) \<Rightarrow> tx_event list \<Rightarrow> log_op list" where
  "tx_ops clk [] = []"
| "tx_ops clk (Tx_capture b # es) = Op_capture (clk 0, b, False) # tx_ops (clk \<circ> Suc) es"
| "tx_ops clk (Wake_controller n # es) = tx_ops clk es"
| "tx_ops clk (Port_write i p # es) = tx_ops clk es"

text \<open>The capture of a buffer that starts with a packet makes a record of that packet.\<close>

definition captures_packet :: "bool \<Rightarrow> capture \<Rightarrow> hci_packet \<Rightarrow> bool" where
  "captures_packet rx cap msg \<longleftrightarrow> hci_fits msg \<and> \<not> is_log msg \<and>
     (\<exists>clk b. cap = (clk, b, rx) \<and> take (length (hci_encode msg)) b = hci_encode msg)"

lemma captures_packet_sent:
  assumes "captures_packet rx cap msg"
  shows "snoop_complete cap" "snoop_sent cap = hci_encode msg" "snoop_payload (snoop_rec cap) = hci_encode msg"
    "snoop_flags (snoop_rec cap) = hci_flags msg rx"
proof -
  from assms obtain clk b where cap: "cap = (clk, b, rx)" "take (length (hci_encode msg)) b = hci_encode msg" "hci_fits msg" "\<not> is_log msg"
    by (auto simp: captures_packet_def)
  then have b: "b = hci_encode msg @ drop (length (hci_encode msg)) b"
    by (metis append_take_drop_id)
  have ext: "snoop_extent b rx = Inr (Some (length (hci_encode msg), of_nat (hci_flags msg rx)))"
    by (subst b) (rule snoop_extent_encode [OF cap(3,4)])
  have len: "length (hci_encode msg) \<le> length b"
    using cap(2) by (metis length_take min.cobounded1)
  have "unat (of_nat (hci_flags msg rx) :: u32) = hci_flags msg rx"
    by (cases msg) simp_all
  then show "snoop_complete cap" "snoop_sent cap = hci_encode msg" "snoop_payload (snoop_rec cap) = hci_encode msg"
    "snoop_flags (snoop_rec cap) = hci_flags msg rx"
    using ext len cap by (simp_all add: snoop_record_fields)
qed

lemma captures_packets_sent:
  assumes "list_all2 (captures_packet rx) caps msgs"
  shows "\<forall>cap \<in> set caps. snoop_complete cap" "map snoop_sent caps = map hci_encode msgs"
    "map (\<lambda>r. (snoop_payload r, snoop_flags r)) (map snoop_rec caps) = map (\<lambda>msg. (hci_encode msg, hci_flags msg rx)) msgs"
  using assms captures_packet_sent
  by (induction rule: list_all2_induct) (simp_all del: snoop_complete.simps snoop_sent.simps snoop_rec.simps)

lemma tx_ops_captures:
  "list_all2 (\<lambda>b msg. take (length (hci_encode msg)) b = hci_encode msg) (tx_captured out) msgs \<Longrightarrow> \<forall>msg \<in> set msgs. tx_message msg \<Longrightarrow>
   list_all2 (captures_packet False) (captures (tx_ops clk out)) msgs"
  "cp_writes (tx_ops clk out) = []"
proof (induction clk out arbitrary: msgs rule: tx_ops.induct)
  case (2 clk b es)
  { case 1
    then show ?case using "2.IH" by (auto simp: list_all2_Cons1 captures_packet_def tx_message_def comp_def) }
  { case 2
    then show ?case using "2.IH" by (simp add: comp_def) }
qed simp_all

text \<open>The receive thread captures as received, whatever it is fed.\<close>

definition as_received :: "rx_event list \<Rightarrow> bool" where
  "as_received out \<longleftrightarrow> (\<forall>b r. Btsnoop_capture b r \<in> set out \<longrightarrow> r)"

lemma as_received_simps [simp]:
  "as_received []" "as_received (Skwlog_write p # es) = as_received es" "as_received (Send_to_host i p # es) = as_received es"
  "as_received (Close_fd d # es) = as_received es" "as_received (Btsnoop_capture b r # es) \<longleftrightarrow> r \<and> as_received es"
  "as_received (es @ es') \<longleftrightarrow> as_received es \<and> as_received es'"
  by (auto simp: as_received_def)

lemma rx_parse_received: "rx_parse fuel buf v = Some (out, buf', l) \<Longrightarrow> as_received out"
  by (induction fuel arbitrary: buf v out buf' l) (auto simp: Let_def rx_emit_def split: if_splits)

lemma recv_scomm_body_received: "recv_scomm_body fuel port_index obs st = Some (out, st', b) \<Longrightarrow> as_received out"
  by (auto simp: recv_scomm_body_def rx_data_def Let_def scomm_vendor_send_hw_error_def dest!: rx_parse_received
      split: if_splits read_result.splits)

lemma recv_scomm_loop_received: "recv_scomm_loop fuel port_index os st = Some (out, st', b) \<Longrightarrow> as_received out"
proof (induction fuel port_index os st arbitrary: out st' b rule: recv_scomm_loop.induct)
  case (2 fuel port_index running obs os st)
  then show ?case
    by (auto split: if_splits option.splits prod.splits bool.splits dest!: recv_scomm_body_received)
qed simp

lemma rx_ops_captures:
  "list_all2 (\<lambda>b p. take (length p) b = p) (rx_captured out) (map hci_encode msgs) \<Longrightarrow> as_received out \<Longrightarrow>
   \<forall>msg \<in> set msgs. hci_fits msg \<and> \<not> is_log msg \<Longrightarrow> list_all2 (captures_packet True) (captures (rx_ops clk out)) msgs"
  "cp_writes (rx_ops clk out) = rx_log out"
proof (induction clk out arbitrary: msgs rule: rx_ops.induct)
  case (3 clk b r es)
  { case 1
    then obtain msg msgs' where msgs: "msgs = msg # msgs'" by (cases msgs) auto
    have "list_all2 (captures_packet True) (captures (rx_ops (clk \<circ> Suc) es)) msgs'"
      using 1 msgs by (intro "3.IH"(1)) auto
    moreover have "captures_packet True (clk 0, b, r) msg"
      using 1 msgs by (auto simp: captures_packet_def)
    ultimately show ?case by (simp add: msgs) }
  { case 2
    then show ?case using "3.IH"(2) by (simp add: comp_def) }
qed (simp_all add: comp_def)

section \<open>Every fair schedule ends\<close>

text \<open>The steps a thread has left, at most.\<close>

fun pc_work :: "pc \<Rightarrow> nat" where
  "pc_work Idle = 0"
| "pc_work (Checked c) = 10"
| "pc_work (Writing clk bss) = 2 + length bss"
| "pc_work (Reopening clk) = 1"
| "pc_work (Logging clk p) = 1"

definition work :: "thread \<Rightarrow> nat" where
  "work t = pc_work (pc t) + 11 * length (todo t)"

lemma thread_step_work:
  assumes "thread_step i m = Inr m'"
  shows "m' = m \<or> left work m' < left work m"
proof (cases "i < length (threads m)")
  case False
  then show ?thesis using assms by (simp add: thread_step_def)
next
  case i: True
  have moved: "left work (thread_to i q ops m) < left work m" if "pc_work q + 11 * length ops < work (threads m ! i)" for q ops
    using left_thread_to [OF i, of work q ops] that by (simp add: work_def)
  let ?t = "threads m ! i"
  show ?thesis
  proof (cases "pc ?t")
    case Idle
    then show ?thesis
      using assms i moved by (auto simp: thread_step_def Let_def work_def split: list.splits log_op.splits if_splits)
  next
    case (Checked c)
    then show ?thesis
      using assms i moved
      by (cases c) (auto simp: thread_step_def Let_def work_def snoop_chunks_def split: if_splits sum.splits option.splits prod.splits)
  next
    case (Writing clk bss)
    then show ?thesis
      using assms i moved by (cases bss) (auto simp: thread_step_def Let_def work_def split: if_splits)
  next
    case (Reopening clk)
    then show ?thesis
      using assms i moved by (auto simp: thread_step_def Let_def work_def)
  next
    case (Logging clk p)
    then show ?thesis
      using assms i moved by (auto simp: thread_step_def Let_def work_def)
  qed
qed

text \<open>There is no deadlock: as long as a thread has something to do, one of them can go on.\<close>

lemma machine_not_stuck:
  assumes inv: "machine_inv s trace c opss h w m"
    and complete: "\<forall>ops \<in> set opss. \<forall>c \<in> set (captures ops). snoop_complete c" and more: "\<not> machine_done m"
  shows "\<exists>i < length opss. thread_step i m \<noteq> Inr m"
proof -
  have len: "length (threads m) = length opss" using inv by (simp add: machine_inv_def)
  have goes: "thread_step i m \<noteq> Inr m"
    if "thread_step i m = Inr m'" "pc (threads m' ! i) \<noteq> pc (threads m ! i) \<or> todo (threads m' ! i) \<noteq> todo (threads m ! i)" for i m'
    using that by auto
  show ?thesis
  proof (cases "owner m")
    case (Some i)
    then obtain clk bss where i: "i < length opss" "pc (threads m ! i) = Writing clk bss"
      using machine_inv_owner [OF inv, of i] by auto
    have "thread_step i m \<noteq> Inr m"
      using i len by (cases bss; cases "SNOOP_LIMIT \<le> btsnoop_rev_length (shared m)"; intro goes)
        (auto simp: thread_step_def Let_def)
    then show ?thesis using i by blast
  next
    case None
    from more obtain i where i: "i < length opss" "pc (threads m ! i) \<noteq> Idle \<or> todo (threads m ! i) \<noteq> []"
      using len by (metis in_set_conv_nth machine_done_def)
    have "\<nexists>clk bss. pc (threads m ! i) = Writing clk bss" "\<nexists>clk. pc (threads m ! i) = Reopening clk"
      using None i machine_inv_owner [OF inv, of i] inv by (auto simp: machine_inv_def)
    then consider c where "pc (threads m ! i) = Checked c" | clk p where "pc (threads m ! i) = Logging clk p" | op ops where "pc (threads m ! i) = Idle" "todo (threads m ! i) = op # ops"
      using i(2) by (metis neq_Nil_conv pc.exhaust)
    then have "thread_step i m \<noteq> Inr m"
    proof cases
      case (1 c)
      obtain clk packet rx where c: "c = (clk, packet, rx)" by (cases c)
      have "snoop_complete c"
        using pending_complete [OF inv complete i(1)] 1 by (simp add: pending_def)
      then obtain n flags where "snoop_extent packet rx = Inr (Some (n, flags))" "n \<le> length packet"
        by (auto simp: c split: sum.splits option.splits)
      then show ?thesis
        using 1 c i(1) len None by (intro goes) (auto simp: thread_step_def Let_def)
    next
      case (2 clk p)
      then show ?thesis
        using i(1) len by (intro goes) (auto simp: thread_step_def Let_def)
    next
      case (3 op ops)
      then show ?thesis
        using i(1) len by (cases op; intro goes) (auto simp: thread_step_def Let_def)
    qed
    then show ?thesis using i by blast
  qed
qed

lemma run_threads_work:
  "run_threads r m = Inr m' \<Longrightarrow>
   m' = m \<and> (\<forall>i \<in> set r. thread_step i m = Inr m) \<or> left work m' < left work m"
proof (induction r arbitrary: m)
  case (Cons i r)
  then obtain m1 where m1: "thread_step i m = Inr m1" "run_threads r m1 = Inr m'"
    by (auto split: sum.splits)
  from Cons.IH [OF m1(2)] thread_step_work [OF m1(1)] m1(1) show ?case by auto
qed simp

lemma machine_done_stays: "machine_done m \<Longrightarrow> run_threads r m = Inr m"
proof (induction r)
  case (Cons i r)
  have "thread_step i m = Inr m"
    using Cons.prems nth_mem [of i "threads m"] by (auto simp: thread_step_def machine_done_def Let_def)
  with Cons show ?case by simp
qed simp

lemma rounds_finish:
  assumes "machine_inv s trace c opss h w m" "\<forall>ops \<in> set opss. \<forall>cap \<in> set (captures ops). snoop_complete cap"
    and "\<forall>r \<in> set rounds. {..<length opss} \<subseteq> set r" "left work m \<le> length rounds"
  shows "\<exists>m'. run_threads (concat rounds) m = Inr m' \<and> machine_done m'"
  using assms(1,3,4)
proof (induction rounds arbitrary: h w m)
  case Nil
  have "machine_done m"
  proof (rule ccontr)
    assume more: "\<not> machine_done m"
    from machine_not_stuck [OF Nil.prems(1) assms(2) more] obtain i where "thread_step i m \<noteq> Inr m" by blast
    moreover obtain m1 where "thread_step i m = Inr m1"
      using thread_step_inv [OF Nil.prems(1) assms(2), of i] by blast
    ultimately show False using thread_step_work [of i m m1] Nil.prems(3) by auto
  qed
  then show ?case by simp
next
  case (Cons r rounds)
  from run_threads_inv [OF Cons.prems(1) assms(2), of r] obtain m1 h1 w1 where
    m1: "run_threads r m = Inr m1" "machine_inv s trace c opss h1 w1 m1" by blast
  show ?case
  proof (cases "machine_done m")
    case True
    then show ?thesis using machine_done_stays by blast
  next
    case False
    then obtain i where "i < length opss" "thread_step i m \<noteq> Inr m"
      using machine_not_stuck [OF Cons.prems(1) assms(2)] by blast
    then have "left work m1 < left work m"
      using run_threads_work [OF m1(1)] Cons.prems(2) by auto
    then have "left work m1 \<le> length rounds"
      using Cons.prems(3) by simp
    with Cons.IH [OF m1(2)] Cons.prems(2) m1(1) show ?thesis
      by (simp add: run_threads_append)
  qed
qed

lemma start_finishes:
  assumes "\<forall>ops \<in> set opss. \<forall>cap \<in> set (captures ops). snoop_complete cap"
    and "logs_open s trace c (length (concat (map snoop_sent (concat (map captures opss)))))
      (length (concat (concat (map cp_writes opss))))"
    and "\<forall>r \<in> set rounds. {..<length opss} \<subseteq> set r" and "11 * length (concat opss) \<le> length rounds"
  shows "\<exists>m. run_threads (concat rounds) (machine_start s opss) = Inr m \<and> machine_done m"
proof -
  have "left work (machine_start s opss) = 11 * length (concat opss)"
    by (induction opss) (simp_all add: left_def machine_start_def work_def)
  with assms(4) show ?thesis
    by (intro rounds_finish [OF machine_inv_start [OF assms(2)] assms(1,3)]) simp
qed


section \<open>A packet lost in a rotation\<close>

text \<open>
  C40: The test in front of the lock loses packets. When the capture of one thread reaches the size limit, there
  is a schedule in which the other thread makes its test between the close and the open of the
  rotation: it finds the descriptor closed and leaves, and the logs end up as if its packet had never been
  there, although logging was on before, after and all the time.
\<close>

theorem rotation_loses_capture:
  assumes "btsnoop_log_en s" and "hci_btsnoop_fd s \<noteq> -1"
    and "snoop_extent packet rx = Inr (Some (n, flags))" and "n \<le> length packet"
    and "SNOOP_LIMIT \<le> btsnoop_rev_length s + of_nat n"
  shows "\<exists>sched s'. skw_btsnoop_capture clk packet rx s = Inr s' \<and>
    run_threads sched (machine_start s [[Op_capture (clk, packet, rx)], [Op_capture lost]]) =
      Inr \<lparr>shared = s', owner = None, threads = [\<lparr>pc = Idle, todo = []\<rparr>, \<lparr>pc = Idle, todo = []\<rparr>]\<rparr>"
proof -
  let ?bss = "snoop_chunks (skw_btsnoop_timestamp clk) flags (take n packet)"
  let ?s1 = "s\<lparr>btsnoop_rev_length := btsnoop_rev_length s + of_nat n\<rparr>"
  let ?s2 = "fold skw_btsnoop_write ?bss ?s1"
  let ?s3 = "?s2\<lparr>fs := px_close (hci_btsnoop_fd ?s2) (fs ?s2), hci_btsnoop_fd := -1\<rparr>"
  let ?s4 = "skw_btsnoop_open clk ?s3"
  let ?t = "\<lparr>pc = Idle, todo = [Op_capture lost]\<rparr>" and ?done = "\<lparr>pc = Idle, todo = []\<rparr>"
  have s2: "?s2 = ?s1\<lparr>fs := fold (px_write (hci_btsnoop_fd s)) ?bss (fs s)\<rparr>"
    using fold_snoop_write [of ?s1 ?bss] assms(2) by simp
  let ?m = "\<lambda>s own t1 t2. \<lparr>shared = s, owner = own, threads = [t1, t2]\<rparr>"
  have two: "run_threads [0, 0] (machine_start s [[Op_capture (clk, packet, rx)], [Op_capture lost]]) =
      Inr (?m ?s1 (Some 0) \<lparr>pc = Writing clk ?bss, todo = []\<rparr> ?t)"
    using assms(1-4) by (simp add: machine_start_def thread_step_def thread_to_def Let_def)
  have "run_threads (replicate (length ?bss) 0) (?m ?s1 (Some 0) \<lparr>pc = Writing clk ?bss, todo = []\<rparr> ?t) =
      Inr (?m ?s2 (Some 0) \<lparr>pc = Writing clk [], todo = []\<rparr> ?t)"
    by (subst run_writes [of _ _ clk ?bss]) (simp_all add: thread_to_def)
  moreover have "run_threads [0, 1, 0] (?m ?s2 (Some 0) \<lparr>pc = Writing clk [], todo = []\<rparr> ?t) = Inr (?m ?s4 None ?done ?done)"
    using assms(1,2,5) by (simp add: thread_step_def thread_to_def Let_def s2)
  ultimately have "run_threads ([0, 0] @ replicate (length ?bss) 0 @ [0, 1, 0])
      (machine_start s [[Op_capture (clk, packet, rx)], [Op_capture lost]]) = Inr (?m ?s4 None ?done ?done)"
    using two by (simp only: run_threads_append sum.case)
  moreover have "skw_btsnoop_capture clk packet rx s = Inr ?s4"
    using assms s2 by (simp add: skw_btsnoop_capture_def Let_def)
  ultimately show ?thesis by blast
qed

section \<open>Witnesses\<close>

text \<open>Both logs just opened, with their headers.\<close>

definition sample_both :: logs where
  "sample_both = (sample_snoop btsnoop_header False 1)\<lparr>
     fs := \<lparr>dir = [''/d/b'' \<mapsto> 1, ''/d/skwlog.log'' \<mapsto> 2],
            inode = (\<lambda>i. if i = 1 then btsnoop_header else if i = 2 then skwlog_header else []), next_ino = 3,
            fdt = [Some 0, Some 1, Some 2], errno = 0, denied = (\<lambda>p. False)\<rparr>,
     btcp_log_en := True, skwlog_fp := 2\<rparr>"

lemma sample_both_open:
  assumes n: "n < 1000000" "k < 1000000"
  shows "logs_open sample_both btsnoop_header skwlog_header n k"
proof -
  have dir: "log_dir ''/d/b'' = ''/d''"
    by (simp add: log_dir_def is_separator_def eval_nat_numeral)
  have path: "skwlog_path sample_both = ''/d/skwlog.log''"
    by (simp add: skwlog_path_def dir sample_both_def sample_snoop_def)
  have "px_ok (fs sample_both)"
    by (rule px_okI) (auto simp: sample_both_def split: if_splits)
  moreover have "px_stdio (fs sample_both)" "px_linked (fs sample_both) 1 ''/d/b''"
    "px_linked (fs sample_both) 2 ''/d/skwlog.log''"
    by (simp_all add: sample_both_def px_stdio_def px_linked_def fd_ino_def)
  moreover have "snoop_files sample_both \<inter> skwlog_files sample_both = {}"
    by (auto simp: snoop_files_def skwlog_files_def sample_both_def sample_snoop_def dir)
  moreover have "skw_btsnoop_path sample_both = ''/d/b''" "hci_btsnoop_fd sample_both = 1" "skwlog_fp sample_both = 2"
    "btcp_log_en sample_both" "btsnoop_log_en sample_both" "\<not> denied (fs sample_both) ''/d/b''"
    "\<not> denied (fs sample_both) ''/d/skwlog.log''" "unat (btsnoop_rev_length sample_both) = 0" "unat (skwlog_rev_length sample_both) = 0"
    "px_content (fs sample_both) ''/d/b'' = Some btsnoop_header"
    "px_content (fs sample_both) ''/d/skwlog.log'' = Some skwlog_header"
    by (simp_all add: sample_both_def sample_snoop_def px_content_def)
  ultimately show ?thesis
    using n unfolding logs_open_def snoop_inv_def snoop_ready_def cplog_inv_def cplog_ok_def
    by (simp add: path SNOOP_LIMIT_def SKWLOG_LIMIT_def)
qed

definition sample_ops :: "log_op list list" where
  "sample_ops = [[Op_capture (sample_clock, [4, 0x0E, 1, 0, 9, 9], True), Op_skwlog sample_clock [7, 0, 1, 0, 0xAA]],
     [Op_capture (sample_clock, [1, 3, 0x0C, 0], False)]]"

definition sample_rounds :: "nat list list" where
  "sample_rounds = replicate 40 [1, 0, 0]"

lemma sample_ops_fit:
  "\<forall>ops \<in> set sample_ops. \<forall>cap \<in> set (captures ops). snoop_complete cap"
  "logs_open sample_both btsnoop_header skwlog_header (length (concat (map snoop_sent (concat (map captures sample_ops)))))
     (length (concat (concat (map cp_writes sample_ops))))"
  "\<forall>r \<in> set sample_rounds. {..<length sample_ops} \<subseteq> set r" "11 * length (concat sample_ops) \<le> length sample_rounds"
  "skw_btsnoop_path sample_both = ''/d/b''" "skwlog_path sample_both = ''/d/skwlog.log''"
proof -
  show "\<forall>ops \<in> set sample_ops. \<forall>cap \<in> set (captures ops). snoop_complete cap"
    by (simp add: sample_ops_def snoop_extent_def packet_at_def)
  show "logs_open sample_both btsnoop_header skwlog_header (length (concat (map snoop_sent (concat (map captures sample_ops)))))
     (length (concat (concat (map cp_writes sample_ops))))"
    by (simp add: sample_ops_def snoop_extent_def packet_at_def sample_both_open)
  show "\<forall>r \<in> set sample_rounds. {..<length sample_ops} \<subseteq> set r" "11 * length (concat sample_ops) \<le> length sample_rounds"
    by (auto simp: sample_ops_def sample_rounds_def)
  have "log_dir ''/d/b'' = ''/d''"
    by (simp add: log_dir_def is_separator_def eval_nat_numeral)
  then show "skw_btsnoop_path sample_both = ''/d/b''" "skwlog_path sample_both = ''/d/skwlog.log''"
    by (simp_all add: skwlog_path_def sample_both_def sample_snoop_def)
qed

lemma sample_ops_logged:
  assumes "\<forall>i < length sample_ops. of_thread i rs = map snoop_rec (captures (sample_ops ! i)) \<and> of_thread i w = cp_writes (sample_ops ! i)"
  shows "map snoop_payload (of_thread 0 rs) = [[4, 0x0E, 1, 0]]" "map snoop_payload (of_thread 1 rs) = [[1, 3, 0x0C, 0]]"
    "of_thread 0 w = [[7, 0, 1, 0, 0xAA]]"
proof -
  have n: "0 < length sample_ops" "1 < length sample_ops" by (simp_all add: sample_ops_def)
  show "map snoop_payload (of_thread 0 rs) = [[4, 0x0E, 1, 0]]" "map snoop_payload (of_thread 1 rs) = [[1, 3, 0x0C, 0]]"
    "of_thread 0 w = [[7, 0, 1, 0, 0xAA]]"
    using assms [rule_format, OF n(1)] assms [rule_format, OF n(2)]
    by (simp_all add: sample_ops_def snoop_extent_def packet_at_def snoop_record_fields)
qed

theorem threads_log_witness:
  "\<exists>m trace rs w. run_threads (concat sample_rounds) (machine_start sample_both sample_ops) = Inr m \<and>
     px_content (fs (shared m)) ''/d/b'' = Some trace \<and> snoop_parse trace = Some (map snd rs) \<and>
     px_content (fs (shared m)) ''/d/skwlog.log'' = Some (skwlog_header @ concat (map snd w)) \<and>
     map snoop_payload (of_thread 0 rs) = [[4, 0x0E, 1, 0]] \<and> map snoop_payload (of_thread 1 rs) = [[1, 3, 0x0C, 0]] \<and>
     of_thread 0 w = [[7, 0, 1, 0, 0xAA]]"
proof -
  obtain m where m: "run_threads (concat sample_rounds) (machine_start sample_both sample_ops) = Inr m" "machine_done m"
    using start_finishes [OF sample_ops_fit(1-4)] by blast
  from threads_log [OF sample_ops_fit(1,2) snoop_parse_header, of "concat sample_rounds"] m obtain trace rs w where
    r: "px_content (fs (shared m)) ''/d/b'' = Some trace" "snoop_parse trace = Some (map snd rs)"
    "px_content (fs (shared m)) ''/d/skwlog.log'' = Some (skwlog_header @ concat (map snd w))"
    "\<forall>i < length sample_ops. of_thread i rs = map snoop_rec (captures (sample_ops ! i)) \<and> of_thread i w = cp_writes (sample_ops ! i)"
    unfolding sample_ops_fit(5,6) by auto
  with m(1) r(1-3) sample_ops_logged [OF r(4)] show ?thesis
    by (intro exI [of _ m] exI [of _ trace] exI [of _ rs] exI [of _ w] conjI)
qed


theorem capture_alone_witness:
  "\<exists>k. run_threads (replicate k 0) (machine_start sample_both [[Op_capture (sample_clock, [0x55], True)]]) =
     Inr (machine_start sample_both [[]])"
proof -
  have "skw_btsnoop_capture sample_clock [0x55] True sample_both = Inr sample_both"
    by (simp add: skw_btsnoop_capture_def snoop_extent_def packet_at_def)
  then show ?thesis
    using capture_alone [of 0 "machine_start sample_both [[Op_capture (sample_clock, [0x55], True)]]" sample_clock "[0x55]" True "[]"]
    by (simp add: machine_start_def thread_to_def)
qed

theorem rotation_loses_capture_witness:
  "\<exists>sched s'. skw_btsnoop_capture sample_clock [1, 3, 0x0C, 0] False (sample_both\<lparr>btsnoop_rev_length := 0x3FFFFFFC\<rparr>) = Inr s' \<and>
     run_threads sched (machine_start (sample_both\<lparr>btsnoop_rev_length := 0x3FFFFFFC\<rparr>)
         [[Op_capture (sample_clock, [1, 3, 0x0C, 0], False)], [Op_capture (sample_clock, [4, 0x0E, 1, 0], True)]]) =
       Inr \<lparr>shared = s', owner = None, threads = [\<lparr>pc = Idle, todo = []\<rparr>, \<lparr>pc = Idle, todo = []\<rparr>]\<rparr>"
proof -
  let ?s = "sample_both\<lparr>btsnoop_rev_length := 0x3FFFFFFC\<rparr>"
  have "btsnoop_log_en ?s" "hci_btsnoop_fd ?s \<noteq> -1"
    by (simp_all add: sample_both_def sample_snoop_def)
  moreover have "snoop_extent [1, 3, 0x0C, 0] False = Inr (Some (4, 2))"
    by (simp add: snoop_extent_def packet_at_def)
  moreover have "SNOOP_LIMIT \<le> btsnoop_rev_length ?s + of_nat 4"
    by (simp add: SNOOP_LIMIT_def)
  ultimately show ?thesis
    using rotation_loses_capture [of ?s "[1, 3, 0x0C, 0]" False 4 2] by simp
qed

end
