(* ===== verification/Ports.thy ===== *)
theory Ports
  imports Hci Scomm
begin

text \<open>
  Opening and closing the sockets and threads of a port in \<open>scom_vendor.c\<close>:
  \<open>scomm_vendor_socket_open\<close>, \<open>scomm_vendor_socket_close\<close>, \<open>scomm_vendor_port_close\<close>,
  \<open>scomm_vendor_close\<close> and \<open>scomm_vendor_write_bt_state\<close>, with an account of the descriptors and
  threads the process holds.
\<close>

section \<open>Descriptors and threads\<close>

text \<open>
  What the kernel keeps for the process: the open descriptors and the threads that were created and
  not yet joined. The descriptor of \<open>skw_socket_object\<close> is here too, with the bytes written to devices.
\<close>

record kern =
  kfds :: "int list"
  kthreads :: "int list"
  socket_object_fd :: int
  dev_writes :: "(int \<times> byte list) list"

definition k_open :: "int \<Rightarrow> kern \<Rightarrow> kern" where
  "k_open d k = k\<lparr>kfds := d # kfds k\<rparr>"

text \<open>\<open>close\<close>: closing what is not open fails and changes nothing.\<close>

definition k_close :: "int \<Rightarrow> kern \<Rightarrow> kern" where
  "k_close d k = k\<lparr>kfds := remove1 d (kfds k)\<rparr>"

text \<open>The pattern \<open>if (fd > 0) close (fd)\<close>.\<close>

definition k_close_pos :: "int \<Rightarrow> kern \<Rightarrow> kern" where
  "k_close_pos d k = (if d > 0 then k_close d k else k)"

definition k_create :: "int \<Rightarrow> kern \<Rightarrow> kern" where
  "k_create t k = k\<lparr>kthreads := t # kthreads k\<rparr>"

text \<open>\<open>pthread_join\<close>: joining what is no thread returns \<open>ESRCH\<close>, which is positive.\<close>

definition k_join :: "int \<Rightarrow> kern \<Rightarrow> int \<times> kern" where
  "k_join t k = (if t \<in> set (kthreads k) then (0, k\<lparr>kthreads := remove1 t (kthreads k)\<rparr>) else (3, k))"

section \<open>Opening\<close>

text \<open>
  What the calls of \<open>scomm_vendor_socket_open\<close> return: the two socket pairs, the epoll instance
  (-1 for an error), the two registrations, and the two threads.
\<close>

record open_obs =
  obs_uart :: "(int \<times> int) option"
  obs_signal :: "(int \<times> int) option"
  obs_epoll :: int
  obs_ctl_uart :: bool
  obs_ctl_signal :: bool
  obs_socket_thread :: "int option"
  obs_uart_thread :: "int option"

text \<open>The early returns after the epoll instance exists.\<close>

definition open_failed :: "scomm_vnd_st \<Rightarrow> kern \<Rightarrow> int \<times> scomm_vnd_st \<times> kern" where
  "open_failed p k = (-1, p\<lparr>epoll_fd := -1, thread_running := False\<rparr>, k_close (epoll_fd p) k)"

text \<open>The part of port 0 only: the registrations and the socket thread; \<open>None\<close> goes on.\<close>

definition open_socket_thread :: "open_obs \<Rightarrow> scomm_vnd_st \<Rightarrow> kern \<Rightarrow> (int \<times> scomm_vnd_st \<times> kern) + (scomm_vnd_st \<times> kern)" where
  "open_socket_thread obs p k0 =
     (let k = k0\<lparr>socket_object_fd := uart_fd1 p\<rparr> in
      if \<not> obs_ctl_uart obs then Inl (open_failed p k)
      else if \<not> obs_ctl_signal obs then Inl (open_failed p k)
      else
        (case obs_socket_thread obs of
           None \<Rightarrow> Inl (open_failed (p\<lparr>thread_socket_id := -1\<rparr>) k)
         | Some t \<Rightarrow> Inr (p\<lparr>thread_socket_id := t\<rparr>, k_create t k)))"

text \<open>
  \<open>scomm_vendor_socket_open\<close>. The wait at the end is for the receive thread's first statement, which
  sets \<open>recv_comm_thread_running\<close>.
\<close>

definition scomm_vendor_socket_open :: "open_obs \<Rightarrow> nat \<Rightarrow> scomm_vnd_st \<Rightarrow> kern \<Rightarrow> int \<times> scomm_vnd_st \<times> kern" where
  "scomm_vendor_socket_open obs port_index p k =
     (case obs_uart obs of
        None \<Rightarrow> (-1, p, k)
      | Some (u0, u1) \<Rightarrow>
          let p1 = p\<lparr>uart_fd0 := u0, uart_fd1 := u1\<rparr>; k1 = k_open u1 (k_open u0 k) in
          (case obs_signal obs of
             None \<Rightarrow> (-1, p1, k1)
           | Some (s0, s1) \<Rightarrow>
               let p2 = p1\<lparr>signal_fd0 := s0, signal_fd1 := s1, epoll_fd := obs_epoll obs\<rparr>; k2 = k_open s1 (k_open s0 k1) in
               if obs_epoll obs = -1 then (-1, p2, k2)
               else
                 let p3 = p2\<lparr>thread_running := True, recv_comm_thread_running := False\<rparr>; k3 = k_open (obs_epoll obs) k2 in
                 (case (if port_index = 0 then open_socket_thread obs p3 k3 else Inr (p3, k3)) of
                    Inl r \<Rightarrow> r
                  | Inr (p4, k4) \<Rightarrow>
                      (case obs_uart_thread obs of
                         None \<Rightarrow>
                           (-1, p4\<lparr>thread_running := False, thread_socket_id := -1\<rparr>,
                            snd (k_join (thread_socket_id p4) (k_close (epoll_fd p4) k4)))
                       | Some t \<Rightarrow>
                           let p5 = p4\<lparr>thread_uart_id := t, recv_comm_thread_running := True, driver_state := True\<rparr>
                           in (uart_fd0 p5, p5, k_create t k4)))))"

section \<open>Closing\<close>

definition scomm_vendor_socket_close :: "scomm_vnd_st \<Rightarrow> kern \<Rightarrow> scomm_vnd_st \<times> kern" where
  "scomm_vendor_socket_close p k =
     (let k1 = k_close_pos (uart_fd1 p) (k_close_pos (uart_fd0 p) k);
          (p2, k2) =
            (if thread_socket_id p \<noteq> -1 then
               (let (result, k') = k_join (thread_socket_id p) k1
                in (if result < 0 then p else p\<lparr>thread_socket_id := -1\<rparr>, k'))
             else (p, k1));
          k3 = k_close_pos (signal_fd1 p) (k_close_pos (signal_fd0 p) (k_close_pos (epoll_fd p) k2))
      in (p2\<lparr>epoll_fd := -1, uart_fd0 := -1, uart_fd1 := -1, signal_fd0 := -1, signal_fd1 := -1\<rparr>, k3))"

text \<open>
  \<open>scomm_vendor_port_close\<close>. The receive thread ends by itself once \<open>thread_running\<close> is cleared; it
  clears \<open>is_busying\<close>, which the wait is for, and its own id. \<open>exited\<close> says whether it has done so
  before the id is tested; otherwise it has done so when the join returns. An id above 0 is always
  that of a receive thread; it is 0 from initialisation up to the first opening.
\<close>

definition scomm_vendor_port_close :: "bool \<Rightarrow> scomm_vnd_st \<Rightarrow> kern \<Rightarrow> scomm_vnd_st \<times> kern" where
  "scomm_vendor_port_close exited p k =
     (if fd p = -1 then (p, k)
      else
        let p1 = p\<lparr>thread_running := False, driver_state := False, is_busying := False\<rparr>;
            p2 = (if exited then p1\<lparr>thread_uart_id := -1\<rparr> else p1);
            k1 = k_close_pos (fd p2) k;
            (p3, k2) = (if thread_uart_id p2 \<noteq> -1
                        then (p2\<lparr>thread_uart_id := (if 0 < thread_uart_id p2 then -1 else thread_uart_id p2)\<rparr>,
                              snd (k_join (thread_uart_id p2) k1))
                        else (p2, k1));
            (p4, k3) = scomm_vendor_socket_close p3 k2
        in (p4\<lparr>fd := -1\<rparr>, k3))"

text \<open>\<open>scomm_vendor_close\<close>: all ports, then the wake-up device.\<close>

fun close_ports :: "(nat \<Rightarrow> bool) \<Rightarrow> nat \<Rightarrow> scomm_vnd_st list \<Rightarrow> kern \<Rightarrow> scomm_vnd_st list \<times> kern" where
  "close_ports exited idx [] k = ([], k)"
| "close_ports exited idx (p # ps) k =
     (let (p', k1) = scomm_vendor_port_close (exited idx) p k; (ps', k2) = close_ports exited (Suc idx) ps k1
      in (p' # ps', k2))"

definition scomm_vendor_close :: "(nat \<Rightarrow> bool) \<Rightarrow> int \<Rightarrow> scomm_vnd_st list \<Rightarrow> kern \<Rightarrow> scomm_vnd_st list \<times> kern" where
  "scomm_vendor_close exited btpw ports k =
     (let (ports', k') = close_ports exited 0 ports k in (ports', k_close_pos btpw k'))"


text \<open>\<open>scomm_vendor_write_bt_state\<close>: a vendor command on port 0, on the 6160 only.\<close>

definition scomm_vendor_write_bt_state :: "u16 \<Rightarrow> scomm_vnd_st list \<Rightarrow> kern \<Rightarrow> kern" where
  "scomm_vendor_write_bt_state chip_version ports k =
     (if chip_version = SKW_CHIPID_6160
      then k\<lparr>dev_writes := dev_writes k @ [(fd (ports ! 0), [0x01, 0x80, 0xFE, 0x01, 0x00])]\<rparr> else k)"

section \<open>Nothing is left behind\<close>

text \<open>Closing, on the lists of descriptors and threads.\<close>

definition release :: "int list \<Rightarrow> int list \<Rightarrow> int list" where
  "release ds L = fold remove1 (filter (\<lambda>d. 0 < d) ds) L"

lemma release_simps [simp]:
  "release [] L = L" "release (d # ds) L = (if 0 < d then release ds (remove1 d L) else release ds L)"
  by (simp_all add: release_def)

lemma k_close_pos_fields [simp]:
  "kfds (k_close_pos d k) = release [d] (kfds k)" "kthreads (k_close_pos d k) = kthreads k"
  by (simp_all add: k_close_pos_def k_close_def)

lemma k_join_fields [simp]:
  "kfds (snd (k_join t k)) = kfds k" "kthreads (snd (k_join t k)) = remove1 t (kthreads k)" "0 \<le> fst (k_join t k)"
  by (simp_all add: k_join_def remove1_idem)

lemma k_fields [simp]:
  "kfds (k_open d k) = d # kfds k" "kthreads (k_open d k) = kthreads k"
  "kfds (k_close d k) = remove1 d (kfds k)" "kthreads (k_close d k) = kthreads k"
  "kfds (k_create t k) = kfds k" "kthreads (k_create t k) = t # kthreads k"
  by (simp_all add: k_open_def k_close_def k_create_def)

lemma socket_close_effect:
  assumes "-1 \<notin> set (kthreads k)"
  shows "kfds (snd (scomm_vendor_socket_close p k)) = release [uart_fd0 p, uart_fd1 p, epoll_fd p, signal_fd0 p, signal_fd1 p] (kfds k)"
    "kthreads (snd (scomm_vendor_socket_close p k)) = remove1 (thread_socket_id p) (kthreads k)"
    "fst (scomm_vendor_socket_close p k) = p\<lparr>thread_socket_id := -1, epoll_fd := -1, uart_fd0 := -1, uart_fd1 := -1,
       signal_fd0 := -1, signal_fd1 := -1\<rparr>"
proof -
  have "\<not> fst (k_join t k') < 0" for t k'
    using k_join_fields(3) [of t k'] by linarith
  then show "kfds (snd (scomm_vendor_socket_close p k)) = release [uart_fd0 p, uart_fd1 p, epoll_fd p, signal_fd0 p, signal_fd1 p] (kfds k)"
    "kthreads (snd (scomm_vendor_socket_close p k)) = remove1 (thread_socket_id p) (kthreads k)"
    "fst (scomm_vendor_socket_close p k) = p\<lparr>thread_socket_id := -1, epoll_fd := -1, uart_fd0 := -1, uart_fd1 := -1,
       signal_fd0 := -1, signal_fd1 := -1\<rparr>"
    using assms by (simp_all add: scomm_vendor_socket_close_def Let_def case_prod_unfold remove1_idem)
qed

lemma port_close_effect:
  assumes "-1 \<notin> set (kthreads k)" "fd p \<noteq> -1"
  shows "kfds (snd (scomm_vendor_port_close exited p k)) =
      release [fd p, uart_fd0 p, uart_fd1 p, epoll_fd p, signal_fd0 p, signal_fd1 p] (kfds k)"
    "kthreads (snd (scomm_vendor_port_close exited p k)) =
      remove1 (thread_socket_id p) (if exited then kthreads k else remove1 (thread_uart_id p) (kthreads k))"
    "fst (scomm_vendor_port_close exited p k) = p\<lparr>fd := -1, thread_running := False, driver_state := False, is_busying := False,
       thread_uart_id := (if exited \<or> 0 < thread_uart_id p then -1 else thread_uart_id p),
       thread_socket_id := -1, epoll_fd := -1, uart_fd0 := -1, uart_fd1 := -1, signal_fd0 := -1, signal_fd1 := -1\<rparr>"
proof -
  let ?p1 = "p\<lparr>thread_running := False, driver_state := False, is_busying := False\<rparr>"
  define p3 where "p3 = ?p1\<lparr>thread_uart_id := (if exited \<or> 0 < thread_uart_id p then -1 else thread_uart_id p)\<rparr>"
  define k2 where "k2 = (if exited \<or> thread_uart_id p = -1 then k_close_pos (fd p) k else snd (k_join (thread_uart_id p) (k_close_pos (fd p) k)))"
  have eq: "scomm_vendor_port_close exited p k =
      (let (p4, k3) = scomm_vendor_socket_close p3 k2 in (p4\<lparr>fd := -1\<rparr>, k3))"
  proof (cases "\<not> exited \<and> thread_uart_id p = -1")
    case True
    then have "p3 = ?p1" by (cases p) (simp add: p3_def)
    with True show ?thesis using assms by (simp add: scomm_vendor_port_close_def k2_def)
  next
    case False
    then show ?thesis using assms by (cases exited) (simp_all add: scomm_vendor_port_close_def p3_def k2_def)
  qed
  have k2: "kfds k2 = release [fd p] (kfds k)" "kthreads k2 = (if exited then kthreads k else remove1 (thread_uart_id p) (kthreads k))"
    using assms(1) by (simp_all add: k2_def remove1_idem)
  then have "-1 \<notin> set (kthreads k2)"
    using assms(1) by (metis notin_set_remove1)
  note close = socket_close_effect [OF this, of p3]
  have fields: "uart_fd0 p3 = uart_fd0 p" "uart_fd1 p3 = uart_fd1 p" "epoll_fd p3 = epoll_fd p" "signal_fd0 p3 = signal_fd0 p"
    "signal_fd1 p3 = signal_fd1 p" "thread_socket_id p3 = thread_socket_id p"
    by (simp_all add: p3_def)
  show "kfds (snd (scomm_vendor_port_close exited p k)) =
      release [fd p, uart_fd0 p, uart_fd1 p, epoll_fd p, signal_fd0 p, signal_fd1 p] (kfds k)"
    unfolding eq Let_def case_prod_unfold snd_conv close(1) k2(1) fields by simp
  show "kthreads (snd (scomm_vendor_port_close exited p k)) =
      remove1 (thread_socket_id p) (if exited then kthreads k else remove1 (thread_uart_id p) (kthreads k))"
    unfolding eq Let_def case_prod_unfold snd_conv close(2) k2(2) fields by (rule refl)
  show "fst (scomm_vendor_port_close exited p k) = p\<lparr>fd := -1, thread_running := False, driver_state := False, is_busying := False,
       thread_uart_id := (if exited \<or> 0 < thread_uart_id p then -1 else thread_uart_id p),
       thread_socket_id := -1, epoll_fd := -1, uart_fd0 := -1, uart_fd1 := -1, signal_fd0 := -1, signal_fd1 := -1\<rparr>"
    unfolding eq Let_def case_prod_unfold fst_conv close(3) unfolding p3_def by simp
qed

text \<open>
  The account of a resource, descriptors or threads: what a port holds and what is live. An operation
  on a port may give up what that port held and take up what is new, and leaves all else alone.
\<close>

locale ledger =
  fixes held :: "'p \<Rightarrow> int set" and live :: "'k \<Rightarrow> int list" and idle :: "'p \<Rightarrow> bool"
  assumes idle_held: "idle p \<Longrightarrow> held p = {}"
begin

definition turnover :: "'p \<Rightarrow> 'k \<Rightarrow> 'p \<Rightarrow> 'k \<Rightarrow> bool" where
  "turnover p k p' k' \<longleftrightarrow> (distinct (live k) \<longrightarrow> distinct (live k') \<and>
     set (live k) - held p \<subseteq> set (live k') \<and> set (live k') \<subseteq> (set (live k) - held p) \<union> held p' \<and>
     held p' \<inter> (set (live k) - held p) = {})"

lemma turnover_same: "live k' = live k \<Longrightarrow> held p' = held p \<Longrightarrow> turnover p k p' k'"
  by (auto simp: turnover_def)

lemma turnover_trans: "turnover p k p1 k1 \<Longrightarrow> turnover p1 k1 p2 k2 \<Longrightarrow> turnover p k p2 k2"
  unfolding turnover_def by blast

text \<open>An operation on closed ports only takes up what is new.\<close>

definition taken_up :: "'k \<Rightarrow> 'p list \<Rightarrow> 'k \<Rightarrow> bool" where
  "taken_up k ps' k' \<longleftrightarrow> distinct (live k') \<and> set (live k) \<subseteq> set (live k') \<and>
     set (live k') \<subseteq> set (live k) \<union> \<Union> (held ` set ps') \<and> \<Union> (held ` set ps') \<inter> set (live k) = {}"

lemma taken_up_idle: "\<forall>p \<in> set ps. idle p \<Longrightarrow> distinct (live k) \<Longrightarrow> taken_up k ps k"
  by (auto simp: taken_up_def idle_held)

lemma turnover_taken_up: "idle p \<Longrightarrow> distinct (live k) \<Longrightarrow> turnover p k p' k' \<Longrightarrow> taken_up k [p'] k'"
  by (auto simp: turnover_def taken_up_def idle_held)

lemma taken_up_append:
  assumes "taken_up k ps k1" "taken_up k1 qs k2"
  shows "taken_up k (ps @ qs) k2"
proof -
  have 1: "distinct (live k2)" "set (live k) \<subseteq> set (live k1)" "set (live k1) \<subseteq> set (live k) \<union> \<Union> (held ` set ps)"
    "\<Union> (held ` set ps) \<inter> set (live k) = {}"
    and 2: "set (live k1) \<subseteq> set (live k2)" "set (live k2) \<subseteq> set (live k1) \<union> \<Union> (held ` set qs)" "\<Union> (held ` set qs) \<inter> set (live k1) = {}"
    using assms by (simp_all add: taken_up_def)
  have "set (live k) \<subseteq> set (live k2)" using 1(2) 2(1) by blast
  moreover have "set (live k2) \<subseteq> set (live k) \<union> (\<Union> (held ` set ps) \<union> \<Union> (held ` set qs))" using 1(3) 2(2) by blast
  moreover have "(\<Union> (held ` set ps) \<union> \<Union> (held ` set qs)) \<inter> set (live k) = {}" using 1(2,4) 2(3) by blast
  ultimately show ?thesis using 1(1) by (simp add: taken_up_def image_Un)
qed

lemma taken_up_disjoint: "taken_up k ps k' \<Longrightarrow> set (live k') - \<Union> (held ` set ps) = set (live k)"
  by (auto simp: taken_up_def)

end

text \<open>A port that holds nothing, and what a port holds.\<close>

definition port_idle :: "scomm_vnd_st \<Rightarrow> bool" where
  "port_idle p \<longleftrightarrow> uart_fd0 p \<le> 0 \<and> uart_fd1 p \<le> 0 \<and> signal_fd0 p \<le> 0 \<and> signal_fd1 p \<le> 0 \<and> epoll_fd p \<le> 0 \<and>
     thread_socket_id p \<le> 0 \<and> thread_uart_id p \<le> 0"

definition port_fds :: "scomm_vnd_st \<Rightarrow> int set" where
  "port_fds p = {d. 0 < d \<and> d \<in> {fd p, uart_fd0 p, uart_fd1 p, epoll_fd p, signal_fd0 p, signal_fd1 p}}"

definition port_threads :: "scomm_vnd_st \<Rightarrow> int set" where
  "port_threads p = {t. 0 < t \<and> t \<in> {thread_socket_id p, thread_uart_id p}}"

definition port_closed :: "scomm_vnd_st \<Rightarrow> bool" where
  "port_closed p \<longleftrightarrow> port_idle p \<and> fd p = -1"

interpretation fds: ledger port_fds kfds port_closed
  by unfold_locales (auto simp: port_fds_def port_closed_def port_idle_def)

interpretation threads: ledger port_threads kthreads port_closed
  by unfold_locales (auto simp: port_threads_def port_closed_def port_idle_def)

text \<open>Descriptors and threads the kernel may hand out: positive and not in use.\<close>

definition new_ids :: "int list \<Rightarrow> int list \<Rightarrow> bool" where
  "new_ids ids used \<longleftrightarrow> distinct ids \<and> (\<forall>i \<in> set ids. 0 < i \<and> i \<notin> set used)"

definition obs_fds :: "open_obs \<Rightarrow> int list" where
  "obs_fds obs = (case obs_uart obs of None \<Rightarrow> [] | Some (a, b) \<Rightarrow> [a, b]) @
     (case obs_signal obs of None \<Rightarrow> [] | Some (a, b) \<Rightarrow> [a, b]) @ (if obs_epoll obs = -1 then [] else [obs_epoll obs])"

definition obs_threads :: "open_obs \<Rightarrow> int list" where
  "obs_threads obs = (case obs_socket_thread obs of None \<Rightarrow> [] | Some t \<Rightarrow> [t]) @
     (case obs_uart_thread obs of None \<Rightarrow> [] | Some t \<Rightarrow> [t])"

definition obs_new :: "open_obs \<Rightarrow> kern \<Rightarrow> bool" where
  "obs_new obs k \<longleftrightarrow> new_ids (obs_fds obs) (kfds k) \<and> new_ids (obs_threads obs) (kthreads k) \<and>
     (\<forall>t \<in> set (kthreads k). 0 < t)"

lemma open_device_turnover:
  assumes "fd p \<le> 0" "0 < d" "d \<notin> set (kfds k)" "port_fds p' = insert d (port_fds p)"
  shows "fds.turnover p k p' (k_open d k)"
  using assms by (auto simp: fds.turnover_def)

lemma socket_open_fields:
  "scomm_vendor_socket_open obs i p k = (r, p', k') \<Longrightarrow> fd p' = fd p \<and> port_name p' = port_name p"
  by (auto simp: scomm_vendor_socket_open_def open_socket_thread_def open_failed_def Let_def
      split: option.splits if_splits)

text \<open>The six ways an opening ends: what the port then says it holds, and what is live.\<close>

definition fds_of :: "scomm_vnd_st \<Rightarrow> int list" where
  "fds_of p = [fd p, uart_fd0 p, uart_fd1 p, epoll_fd p, signal_fd0 p, signal_fd1 p]"

definition threads_of :: "scomm_vnd_st \<Rightarrow> int list" where
  "threads_of p = [thread_socket_id p, thread_uart_id p]"

lemma open_socket_thread_Inl:
  assumes "open_socket_thread obs p k = Inl r"
  shows "fst r = -1 \<and> fds_of (fst (snd r)) = [fd p, uart_fd0 p, uart_fd1 p, -1, signal_fd0 p, signal_fd1 p] \<and>
    threads_of (fst (snd r)) \<in> {threads_of p, [-1, thread_uart_id p]} \<and>
    kfds (snd (snd r)) = remove1 (epoll_fd p) (kfds k) \<and> kthreads (snd (snd r)) = kthreads k"
  using assms by (cases "obs_ctl_uart obs"; cases "obs_ctl_signal obs"; cases "obs_socket_thread obs")
    (auto simp: open_socket_thread_def open_failed_def fds_of_def threads_of_def k_close_def)

lemma open_socket_thread_Inr:
  assumes "open_socket_thread obs p k = Inr pk"
  shows "\<exists>t. obs_socket_thread obs = Some t \<and> fst pk = p\<lparr>thread_socket_id := t\<rparr> \<and> kfds (snd pk) = kfds k \<and>
    kthreads (snd pk) = t # kthreads k"
  using assms by (cases "obs_ctl_uart obs"; cases "obs_ctl_signal obs"; cases "obs_socket_thread obs")
    (auto simp: open_socket_thread_def open_failed_def)

lemma socket_open_shape:
  assumes "scomm_vendor_socket_open obs i p k = (r, p', k')"
  obtains (no_pair) "fds_of p' = fds_of p" "threads_of p' = threads_of p" "kfds k' = kfds k" "kthreads k' = kthreads k" "r = -1"
  | (no_signal) u0 u1 where "obs_uart obs = Some (u0, u1)" "fds_of p' = [fd p, u0, u1, epoll_fd p, signal_fd0 p, signal_fd1 p]"
      "threads_of p' = threads_of p" "kfds k' = u1 # u0 # kfds k" "kthreads k' = kthreads k" "r = -1"
  | (no_epoll) u0 u1 s0 s1 where "obs_uart obs = Some (u0, u1)" "obs_signal obs = Some (s0, s1)"
      "fds_of p' = [fd p, u0, u1, -1, s0, s1]" "threads_of p' = threads_of p \<or> threads_of p' = [-1, thread_uart_id p]"
      "kfds k' = s1 # s0 # u1 # u0 # kfds k" "kthreads k' = kthreads k" "r = -1"
  | (no_thread) u0 u1 s0 s1 t where "obs_uart obs = Some (u0, u1)" "obs_signal obs = Some (s0, s1)" "obs_epoll obs \<noteq> -1"
      "fds_of p' = [fd p, u0, u1, obs_epoll obs, s0, s1]" "threads_of p' = [-1, thread_uart_id p]"
      "kfds k' = s1 # s0 # u1 # u0 # kfds k" "t = thread_socket_id p \<and> kthreads k' = remove1 t (kthreads k) \<or> kthreads k' = kthreads k" "r = -1"
  | (opened) u0 u1 s0 s1 t where "obs_uart obs = Some (u0, u1)" "obs_signal obs = Some (s0, s1)" "obs_epoll obs \<noteq> -1"
      "obs_uart_thread obs = Some t" "fds_of p' = [fd p, u0, u1, obs_epoll obs, s0, s1]"
      "kfds k' = obs_epoll obs # s1 # s0 # u1 # u0 # kfds k" "r = u0"
      "threads_of p' = [thread_socket_id p, t] \<and> kthreads k' = t # kthreads k \<or>
       (\<exists>t0. i = 0 \<and> obs_socket_thread obs = Some t0 \<and> threads_of p' = [t0, t] \<and> kthreads k' = t # t0 # kthreads k)"
proof (cases "obs_uart obs")
  case None
  then show ?thesis using assms no_pair by (simp add: scomm_vendor_socket_open_def)
next
  case u: (Some u)
  obtain u0 u1 where uu: "u = (u0, u1)" by fastforce
  show ?thesis
  proof (cases "obs_signal obs")
    case None
    then have res: "r = -1" "p' = p\<lparr>uart_fd0 := u0, uart_fd1 := u1\<rparr>" "k' = k_open u1 (k_open u0 k)"
      using assms by (simp_all add: scomm_vendor_socket_open_def Let_def u uu)
    show ?thesis
      by (rule no_signal [of u0 u1]) (simp_all add: res u uu fds_of_def threads_of_def)
  next
    case s: (Some sg)
    obtain s0 s1 where ss: "sg = (s0, s1)" by fastforce
    show ?thesis
    proof (cases "obs_epoll obs = -1")
      case True
      then have res: "r = -1" "k' = k_open s1 (k_open s0 (k_open u1 (k_open u0 k)))"
        "p' = p\<lparr>uart_fd0 := u0, uart_fd1 := u1, signal_fd0 := s0, signal_fd1 := s1, epoll_fd := -1\<rparr>"
        using assms by (auto simp: scomm_vendor_socket_open_def Let_def u uu s ss)
      show ?thesis
        by (rule no_epoll [of u0 u1 s0 s1]) (simp_all add: res u uu s ss fds_of_def threads_of_def)
    next
      case e: False
      define p3 where "p3 = p\<lparr>uart_fd0 := u0, uart_fd1 := u1, signal_fd0 := s0, signal_fd1 := s1, epoll_fd := obs_epoll obs,
        thread_running := True, recv_comm_thread_running := False\<rparr>"
      define k3 where "k3 = k_open (obs_epoll obs) (k_open s1 (k_open s0 (k_open u1 (k_open u0 k))))"
      have p3: "fds_of p3 = [fd p, u0, u1, obs_epoll obs, s0, s1]" "threads_of p3 = threads_of p" "epoll_fd p3 = obs_epoll obs"
        "thread_socket_id p3 = thread_socket_id p" "kfds k3 = obs_epoll obs # s1 # s0 # u1 # u0 # kfds k" "kthreads k3 = kthreads k"
        by (simp_all add: p3_def k3_def fds_of_def threads_of_def)
      let ?mid = "if i = 0 then open_socket_thread obs p3 k3 else Inr (p3, k3)"
      have op: "scomm_vendor_socket_open obs i p k =
         (case ?mid of Inl r \<Rightarrow> r
          | Inr (p4, k4) \<Rightarrow>
              (case obs_uart_thread obs of
                 None \<Rightarrow> (-1, p4\<lparr>thread_running := False, thread_socket_id := -1\<rparr>,
                    snd (k_join (thread_socket_id p4) (k_close (epoll_fd p4) k4)))
               | Some t \<Rightarrow> (uart_fd0 (p4\<lparr>thread_uart_id := t, recv_comm_thread_running := True, driver_state := True\<rparr>),
                   p4\<lparr>thread_uart_id := t, recv_comm_thread_running := True, driver_state := True\<rparr>, k_create t k4)))"
        unfolding scomm_vendor_socket_open_def u uu s ss Let_def option.case prod.case if_not_P [OF e] p3_def k3_def by (rule refl)
      show ?thesis
      proof (cases ?mid)
        case (Inl r0)
        then have i: "open_socket_thread obs p3 k3 = Inl r0" by (simp split: if_splits)
        have "(r, p', k') = r0" using assms op Inl by simp
        then have res: "r = fst r0" "p' = fst (snd r0)" "k' = snd (snd r0)" by auto
        note shape = open_socket_thread_Inl [OF i, folded res]
        show ?thesis
        proof (rule no_epoll [of u0 u1 s0 s1])
          show "fds_of p' = [fd p, u0, u1, -1, s0, s1]" using shape p3(1) by (simp add: fds_of_def)
          show "threads_of p' = threads_of p \<or> threads_of p' = [-1, thread_uart_id p]"
            using shape p3(2) by (auto simp: threads_of_def)
        qed (use shape p3 u uu s ss in simp_all)
      next
        case (Inr pk)
        obtain p4 k4 where pk: "pk = (p4, k4)" by fastforce
        have mid: "p4 = p3 \<and> k4 = k3 \<or> i = 0 \<and> (\<exists>t0. obs_socket_thread obs = Some t0 \<and> p4 = p3\<lparr>thread_socket_id := t0\<rparr> \<and>
            kfds k4 = kfds k3 \<and> kthreads k4 = t0 # kthreads k3)"
          using Inr pk open_socket_thread_Inr [of obs p3 k3 pk] by (cases "i = 0") simp_all
        show ?thesis
        proof (cases "obs_uart_thread obs")
          case None
          then have res: "r = -1" "p' = p4\<lparr>thread_running := False, thread_socket_id := -1\<rparr>"
            "k' = snd (k_join (thread_socket_id p4) (k_close (epoll_fd p4) k4))"
            using op assms Inr pk by simp_all
          have "fds_of p' = fds_of p3" "threads_of p' = [-1, thread_uart_id p]" "kfds k' = s1 # s0 # u1 # u0 # kfds k"
            "kthreads k' = remove1 (thread_socket_id p) (kthreads k) \<or> kthreads k' = kthreads k"
            using mid p3 unfolding res by (auto simp: fds_of_def threads_of_def)
          then show ?thesis
            using no_thread [of u0 u1 s0 s1 "thread_socket_id p"] u uu s ss e p3(1) res(1) by simp
        next
          case (Some t)
          then have res: "r = uart_fd0 p4" "p' = p4\<lparr>thread_uart_id := t, recv_comm_thread_running := True, driver_state := True\<rparr>"
            "k' = k_create t k4"
            using op assms Inr pk by simp_all
          have "fds_of p' = fds_of p3" "kfds k' = kfds k3" "r = u0"
            "threads_of p' = [thread_socket_id p, t] \<and> kthreads k' = t # kthreads k \<or>
             (\<exists>t0. i = 0 \<and> obs_socket_thread obs = Some t0 \<and> threads_of p' = [t0, t] \<and> kthreads k' = t # t0 # kthreads k)"
            using mid p3 unfolding res by (auto simp: fds_of_def threads_of_def)
          then show ?thesis
            using opened [of u0 u1 s0 s1 t] u uu s ss e Some p3(1,5) by simp
        qed
      qed
    qed
  qed
qed

lemma port_fds_of: "port_fds p = {d. 0 < d \<and> d \<in> set (fds_of p)}"
  by (simp add: port_fds_def fds_of_def)

lemma port_threads_of: "port_threads p = {t. 0 < t \<and> t \<in> set (threads_of p)}"
  by (simp add: port_threads_def threads_of_def)

lemma port_idle_of:
  "port_idle p \<longleftrightarrow> (\<forall>d \<in> set (tl (fds_of p)). d \<le> 0) \<and> (\<forall>t \<in> set (threads_of p). t \<le> 0)"
  by (auto simp: port_idle_def fds_of_def threads_of_def)

lemma socket_open_fds:
  assumes idle: "port_idle p" and new: "obs_new obs k" and op: "scomm_vendor_socket_open obs i p k = (r, p', k')"
  shows "fds.turnover p k p' k'"
proof -
  have ids: "new_ids (obs_fds obs) (kfds k)" using new by (simp add: obs_new_def)
  have p: "port_fds p = {d. 0 < d \<and> d = fd p}" using idle by (auto simp: port_fds_def port_idle_def)
  have idle': "epoll_fd p \<le> 0" "signal_fd0 p \<le> 0" "signal_fd1 p \<le> 0" using idle by (simp_all add: port_idle_def)
  show ?thesis
    using op
  proof (cases rule: socket_open_shape)
    case no_pair
    then show ?thesis by (intro fds.turnover_same) (simp_all only: port_fds_of)
  next
    case (no_signal u0 u1)
    have "port_fds p' = port_fds p \<union> {u0, u1}"
      using no_signal(1,2) ids idle' by (auto simp: port_fds_of [of p'] p new_ids_def obs_fds_def)
    then show ?thesis
      using no_signal(1,4) ids by (auto simp: fds.turnover_def new_ids_def obs_fds_def)
  next
    case (no_epoll u0 u1 s0 s1)
    have "port_fds p' = port_fds p \<union> {u0, u1, s0, s1}"
      using no_epoll(1-3) ids by (auto simp: port_fds_of [of p'] p new_ids_def obs_fds_def)
    then show ?thesis
      using no_epoll(1,2,5) ids by (auto simp: fds.turnover_def new_ids_def obs_fds_def)
  next
    case (no_thread u0 u1 s0 s1 t)
    have "port_fds p' = port_fds p \<union> {u0, u1, s0, s1, obs_epoll obs}"
      using no_thread(1-4) ids by (auto simp: port_fds_of [of p'] p new_ids_def obs_fds_def)
    then show ?thesis
      using no_thread(1-3,6) ids by (auto simp: fds.turnover_def new_ids_def obs_fds_def)
  next
    case (opened u0 u1 s0 s1 t)
    have "port_fds p' = port_fds p \<union> {u0, u1, s0, s1, obs_epoll obs}"
      using opened(1-5) ids by (auto simp: port_fds_of [of p'] p new_ids_def obs_fds_def)
    then show ?thesis
      using opened(1-3,6) ids by (auto simp: fds.turnover_def new_ids_def obs_fds_def)
  qed
qed

lemma socket_open_threads:
  assumes idle: "port_idle p" and new: "obs_new obs k" and op: "scomm_vendor_socket_open obs i p k = (r, p', k')"
  shows "threads.turnover p k p' k'" "\<forall>t \<in> set (kthreads k'). 0 < t" "thread_uart_id p' \<le> 0 \<or> thread_uart_id p' \<in> set (kthreads k')"
proof -
  have ids: "new_ids (obs_threads obs) (kthreads k)" "\<forall>t \<in> set (kthreads k). 0 < t" using new by (simp_all add: obs_new_def)
  have idle': "thread_socket_id p \<le> 0" "thread_uart_id p \<le> 0" "port_threads p = {}"
    using idle by (auto simp: port_idle_def port_threads_def)
  then have "thread_socket_id p \<notin> set (kthreads k)" using ids(2) by force
  then have same: "remove1 (thread_socket_id p) (kthreads k) = kthreads k" by (rule remove1_idem)
  have "threads.turnover p k p' k' \<and> (\<forall>t \<in> set (kthreads k'). 0 < t) \<and> (thread_uart_id p' \<le> 0 \<or> thread_uart_id p' \<in> set (kthreads k'))"
    using op
  proof (cases rule: socket_open_shape)
    case no_pair
    then show ?thesis using ids idle' by (auto simp: threads.turnover_def port_threads_of threads_of_def)
  next
    case (no_signal u0 u1)
    then show ?thesis using ids idle' by (auto simp: threads.turnover_def port_threads_of threads_of_def)
  next
    case (no_epoll u0 u1 s0 s1)
    then show ?thesis using ids idle' by (auto simp: threads.turnover_def port_threads_of threads_of_def)
  next
    case (no_thread u0 u1 s0 s1 t)
    then have "kthreads k' = kthreads k" using same by auto
    with no_thread(5) show ?thesis using ids idle' by (auto simp: threads.turnover_def port_threads_of threads_of_def)
  next
    case (opened u0 u1 s0 s1 t)
    have t: "0 < t" "t \<notin> set (kthreads k)" using opened(4) ids(1) by (auto simp: new_ids_def obs_threads_def)
    from opened(8) show ?thesis
    proof (elim disjE exE conjE)
      assume "threads_of p' = [thread_socket_id p, t]" "kthreads k' = t # kthreads k"
      then show ?thesis using t ids idle' by (auto simp: threads.turnover_def port_threads_of threads_of_def)
    next
      fix t0 assume "obs_socket_thread obs = Some t0" "threads_of p' = [t0, t]" "kthreads k' = t # t0 # kthreads k"
      moreover from this have "0 < t0" "t0 \<noteq> t" "t0 \<notin> set (kthreads k)"
        using opened(4) ids(1) by (auto simp: new_ids_def obs_threads_def)
      ultimately show ?thesis using t ids idle' by (auto simp: threads.turnover_def port_threads_of threads_of_def)
    qed
  qed
  then show "threads.turnover p k p' k'" "\<forall>t \<in> set (kthreads k'). 0 < t" "thread_uart_id p' \<le> 0 \<or> thread_uart_id p' \<in> set (kthreads k')"
    by blast+
qed

lemma set_release: "distinct L \<Longrightarrow> set (release ds L) = set L - {d \<in> set ds. 0 < d} \<and> distinct (release ds L)"
  by (induction ds arbitrary: L) auto

lemma port_close_closed: "fd p \<noteq> -1 \<Longrightarrow> -1 \<notin> set (kthreads k) \<Longrightarrow> port_closed (fst (scomm_vendor_port_close exited p k))"
  by (simp add: port_close_effect port_closed_def port_idle_def)

lemma port_close_fds:
  assumes "-1 \<notin> set (kthreads k)" "fd p \<noteq> -1"
  shows "fds.turnover p k (fst (scomm_vendor_port_close exited p k)) (snd (scomm_vendor_port_close exited p k))"
    "distinct (kfds k) \<Longrightarrow> set (kfds (snd (scomm_vendor_port_close exited p k))) = set (kfds k) - port_fds p"
    "distinct (kfds k) \<Longrightarrow> distinct (kfds (snd (scomm_vendor_port_close exited p k)))"
proof -
  have closed: "port_fds (fst (scomm_vendor_port_close exited p k)) = {}"
    using port_close_closed [OF assms(2,1)] by (rule fds.idle_held)
  have set: "set (kfds (snd (scomm_vendor_port_close exited p k))) = set (kfds k) - port_fds p \<and>
      distinct (kfds (snd (scomm_vendor_port_close exited p k)))" if "distinct (kfds k)"
    using set_release [OF that, of "[fd p, uart_fd0 p, uart_fd1 p, epoll_fd p, signal_fd0 p, signal_fd1 p]"]
    unfolding port_close_effect(1) [OF assms] port_fds_def by auto
  then show "fds.turnover p k (fst (scomm_vendor_port_close exited p k)) (snd (scomm_vendor_port_close exited p k))"
    by (simp add: fds.turnover_def closed)
  show "distinct (kfds k) \<Longrightarrow> set (kfds (snd (scomm_vendor_port_close exited p k))) = set (kfds k) - port_fds p"
    "distinct (kfds k) \<Longrightarrow> distinct (kfds (snd (scomm_vendor_port_close exited p k)))"
    using set by blast+
qed

lemma port_close_threads:
  assumes "\<forall>t \<in> set (kthreads k). 0 < t" "distinct (kthreads k)" "fd p \<noteq> -1"
  shows "set (kthreads (snd (scomm_vendor_port_close exited p k))) =
      set (kthreads k) - (if exited then {thread_socket_id p} else port_threads p)"
    "distinct (kthreads (snd (scomm_vendor_port_close exited p k)))"
proof -
  have neg: "-1 \<notin> set (kthreads k)" using assms(1) by force
  have "set (kthreads k) - {thread_uart_id p} - {thread_socket_id p} = set (kthreads k) - port_threads p"
    using assms(1) by (auto simp: port_threads_def)
  then show "set (kthreads (snd (scomm_vendor_port_close exited p k))) =
      set (kthreads k) - (if exited then {thread_socket_id p} else port_threads p)"
    using assms(2) by (simp add: port_close_effect(2) [OF neg assms(3)] set_remove1_eq)
  show "distinct (kthreads (snd (scomm_vendor_port_close exited p k)))"
    using assms(2) by (simp add: port_close_effect(2) [OF neg assms(3)])
qed

text \<open>The receive threads that end by themselves before their port is closed.\<close>

fun unjoined :: "(nat \<Rightarrow> bool) \<Rightarrow> nat \<Rightarrow> scomm_vnd_st list \<Rightarrow> int set" where
  "unjoined exited idx [] = {}"
| "unjoined exited idx (p # ps) = (if exited idx \<and> fd p \<noteq> -1 then {thread_uart_id p} else {}) \<union> unjoined exited (Suc idx) ps"

definition port_ok :: "scomm_vnd_st \<Rightarrow> bool" where
  "port_ok p \<longleftrightarrow> (fd p = -1 \<longrightarrow> port_idle p)"

lemma close_ports_effect:
  assumes "\<forall>p \<in> set ps. port_ok p" "distinct (kfds k)" "distinct (kthreads k)" "\<forall>t \<in> set (kthreads k). 0 < t"
    "close_ports exited idx ps k = (ps', k')"
  shows "set (kfds k') = set (kfds k) - \<Union> (port_fds ` set ps) \<and>
    set (kthreads k) - \<Union> (port_threads ` set ps) \<subseteq> set (kthreads k') \<and>
    set (kthreads k') \<subseteq> (set (kthreads k) - \<Union> (port_threads ` set ps)) \<union> unjoined exited idx ps \<and>
    distinct (kfds k') \<and> distinct (kthreads k') \<and> (\<forall>p \<in> set ps'. port_closed p) \<and> length ps' = length ps"
  using assms
proof (induction exited idx ps k arbitrary: ps' k' rule: close_ports.induct)
  case (1 exited idx k)
  then show ?case by auto
next
  case (2 exited idx p ps k)
  define p1 k1 where "p1 = fst (scomm_vendor_port_close (exited idx) p k)" and "k1 = snd (scomm_vendor_port_close (exited idx) p k)"
  have pc: "scomm_vendor_port_close (exited idx) p k = (p1, k1)" by (simp add: p1_def k1_def)
  obtain ps1 where ps1: "close_ports exited (Suc idx) ps k1 = (ps1, k')" "ps' = p1 # ps1"
    using "2.prems"(5) pc by (auto split: prod.splits)
  have neg: "-1 \<notin> set (kthreads k)" using "2.prems"(4) by force
  have step: "set (kfds k1) = set (kfds k) - port_fds p" "distinct (kfds k1)" "distinct (kthreads k1)"
    "set (kthreads k) - port_threads p \<subseteq> set (kthreads k1)"
    "set (kthreads k1) \<subseteq> (set (kthreads k) - port_threads p) \<union> (if exited idx \<and> fd p \<noteq> -1 then {thread_uart_id p} else {})"
    "port_closed p1"
  proof -
    have "set (kfds k1) = set (kfds k) - port_fds p \<and> distinct (kfds k1) \<and> distinct (kthreads k1) \<and>
      set (kthreads k) - port_threads p \<subseteq> set (kthreads k1) \<and>
      set (kthreads k1) \<subseteq> (set (kthreads k) - port_threads p) \<union> (if exited idx \<and> fd p \<noteq> -1 then {thread_uart_id p} else {}) \<and>
      port_closed p1"
    proof (cases "fd p = -1")
      case True
      then have "port_closed p" "p1 = p" "k1 = k"
        using "2.prems"(1) by (simp_all add: p1_def k1_def port_closed_def port_ok_def scomm_vendor_port_close_def)
      then show ?thesis
        using "2.prems"(2,3) fds.idle_held [of p] threads.idle_held [of p] by simp
    next
      case False
      then show ?thesis
        using port_close_fds(2,3) [OF neg False "2.prems"(2), of "exited idx"] port_close_closed [OF False neg, of "exited idx"]
          port_close_threads [OF "2.prems"(4,3) False, of "exited idx"]
        using "2.prems"(4) unfolding p1_def k1_def by (auto simp: port_threads_def)
    qed
    then show "set (kfds k1) = set (kfds k) - port_fds p" "distinct (kfds k1)" "distinct (kthreads k1)"
      "set (kthreads k) - port_threads p \<subseteq> set (kthreads k1)"
      "set (kthreads k1) \<subseteq> (set (kthreads k) - port_threads p) \<union> (if exited idx \<and> fd p \<noteq> -1 then {thread_uart_id p} else {})"
      "port_closed p1" by blast+
  qed
  have "set (kthreads k1) \<subseteq> set (kthreads k)"
    using port_close_threads(1) [OF "2.prems"(4,3), of p "exited idx"]
    by (cases "fd p = -1") (auto simp: k1_def scomm_vendor_port_close_def split: if_splits)
  then have "\<forall>t \<in> set (kthreads k1). 0 < t" using "2.prems"(4) by blast
  from "2.IH" [OF pc [symmetric] refl _ step(2,3) this ps1(1)] "2.prems"(1) have
    ih: "set (kfds k') = set (kfds k1) - \<Union> (port_fds ` set ps)"
    "set (kthreads k1) - \<Union> (port_threads ` set ps) \<subseteq> set (kthreads k')"
    "set (kthreads k') \<subseteq> (set (kthreads k1) - \<Union> (port_threads ` set ps)) \<union> unjoined exited (Suc idx) ps"
    "distinct (kfds k')" "distinct (kthreads k')" "\<forall>p \<in> set ps1. port_closed p" "length ps1 = length ps"
    by auto
  have "set (kfds k') = set (kfds k) - \<Union> (port_fds ` set (p # ps))"
    using ih(1) step(1) by auto
  moreover have "set (kthreads k) - \<Union> (port_threads ` set (p # ps)) \<subseteq> set (kthreads k')"
    using ih(2) step(4) by auto
  moreover have "set (kthreads k') \<subseteq> (set (kthreads k) - \<Union> (port_threads ` set (p # ps))) \<union> unjoined exited idx (p # ps)"
    using ih(3) step(5) by auto
  ultimately show ?case
    using ih(4-7) step(6) ps1(2) by auto
qed

lemma socket_open_live:
  assumes "scomm_vendor_socket_open obs i p k = (r, p', k')"
  shows "set (kfds k') \<subseteq> set (kfds k) \<union> set (obs_fds obs)" "set (kthreads k') \<subseteq> set (kthreads k) \<union> set (obs_threads obs)"
proof -
  have "set (kfds k') \<subseteq> set (kfds k) \<union> set (obs_fds obs) \<and> set (kthreads k') \<subseteq> set (kthreads k) \<union> set (obs_threads obs)"
    using assms
  proof (cases rule: socket_open_shape)
    case (no_thread u0 u1 s0 s1 t)
    then show ?thesis using set_remove1_subset [of t "kthreads k"] by (auto simp: obs_fds_def)
  qed (auto simp: obs_fds_def obs_threads_def)
  then show "set (kfds k') \<subseteq> set (kfds k) \<union> set (obs_fds obs)" "set (kthreads k') \<subseteq> set (kthreads k) \<union> set (obs_threads obs)"
    by blast+
qed

lemma new_ids_append: "new_ids (a @ b) used \<longleftrightarrow> new_ids a used \<and> new_ids b used \<and> set a \<inter> set b = {}"
  by (auto simp: new_ids_def)

lemma new_ids_mono: "new_ids a used \<Longrightarrow> set used' \<subseteq> set used \<union> set b \<Longrightarrow> set a \<inter> set b = {} \<Longrightarrow> new_ids a used'"
  by (auto simp: new_ids_def)

text \<open>Opening a closed port: its device node, then its sockets and threads.\<close>

lemma port_opened:
  assumes closed: "port_closed p" and d: "0 < d" "d \<notin> set (kfds k)" and new: "obs_new obs (k_open d k)"
    and dist: "distinct (kfds k)" "distinct (kthreads k)"
    and p1: "fds_of p1 = d # tl (fds_of p)" "threads_of p1 = threads_of p"
    and op: "scomm_vendor_socket_open obs i p1 (k_open d k) = (r, p2, k2)"
  shows "fds.taken_up k [p2] k2" "threads.taken_up k [p2] k2" "fd p2 = d" "\<forall>t \<in> set (kthreads k2). 0 < t"
proof -
  have idle: "port_idle p1" "port_threads p1 = {}"
    using closed threads.idle_held [OF closed] by (simp_all add: port_closed_def port_idle_of p1 port_threads_of)
  have "port_fds p1 = insert d (port_fds p)"
    using fds.idle_held [OF closed] d(1) closed
    by (auto simp: port_fds_of [of p1] p1 port_closed_def port_idle_of)
  then have "fds.turnover p k p1 (k_open d k)"
    using closed d by (intro open_device_turnover) (auto simp: port_closed_def)
  from fds.turnover_taken_up [OF closed dist(1) fds.turnover_trans [OF this socket_open_fds [OF idle(1) new op]]]
  show "fds.taken_up k [p2] k2" .
  have "threads.turnover p k p1 (k_open d k)"
    using threads.idle_held [OF closed] idle(2) by (intro threads.turnover_same) simp_all
  from threads.turnover_taken_up [OF closed dist(2) threads.turnover_trans [OF this socket_open_threads(1) [OF idle(1) new op]]]
  show "threads.taken_up k [p2] k2" .
  show "fd p2 = d"
    using socket_open_fields [OF op] p1(1) by (simp add: fds_of_def)
  show "\<forall>t \<in> set (kthreads k2). 0 < t"
    by (rule socket_open_threads(2) [OF idle(1) new op])
qed

end
