(* ===== verification/Vendor.thy ===== *)
theory Vendor
  imports Conf Ports Snoop HwCfg
begin

text \<open>
  The vendor interface the Bluetooth stack calls, \<open>bt_vendor_skw.c\<close>: \<open>init\<close>, \<open>op\<close> and \<open>cleanup\<close>, over
  the state of all the parts: configuration, ports, logs, descriptors and threads, controller
  configuration and device address.
\<close>

section \<open>State\<close>

record vendor =
  v_conf :: skwbt_conf
  v_flags :: skwbt_flags
  v_logs :: logs
  v_kern :: kern
  btboot_fp :: int
  v_btpw_fp :: int
  v_cbacks :: bool
  vnd_local_bd_addr :: "byte list"
  v_addr :: addr_src
  v_hw :: hw_cfg

text \<open>
  What the calls of one operation return: \<open>rand\<close> and the clock for the logs, the device nodes
  \<open>/dev/BTBOOT\<close>, \<open>/dev/BTDATA\<close>, the UART with its attributes, the node of each port, and the calls of
  \<open>scomm_vendor_socket_open\<close>.
\<close>

record open_env =
  env_boot :: int
  env_btdata :: int
  env_uart :: int
  env_attrs :: termios
  env_dev :: "nat \<Rightarrow> int"
  env_obs :: "nat \<Rightarrow> open_obs"

text \<open>The kernel hands out a descriptor unless the call failed.\<close>

definition k_opened :: "int \<Rightarrow> kern \<Rightarrow> kern" where
  "k_opened d k = (if d < 0 then k else k_open d k)"

section \<open>Initialisation\<close>

text \<open>\<open>init\<close>; the three clocks are those of the CP log, the snoop log and \<open>rand\<close>.\<close>

definition vendor_init ::
    "string option \<Rightarrow> clock \<Rightarrow> clock \<Rightarrow> nat \<times> nat \<times> nat \<Rightarrow> bool \<Rightarrow> byte list \<Rightarrow> vendor \<Rightarrow> c_fault + (int \<times> vendor)" where
  "vendor_init conf_file clk1 clk2 rnd p_cb local_bdaddr v =
     (if \<not> p_cb then Inr (-1, v)
      else
        (case load_skwbt_conf conf_file ((v_conf v)\<lparr>scomm_vnd := scomm_vendor_init\<rparr>) of
           Inl e \<Rightarrow> Inl e
         | Inr c \<Rightarrow>
             (case load_skwbt_stack_conf conf_file (v_logs v, v_flags v) of
                Inl e \<Rightarrow> Inl e
              | Inr (s, f) \<Rightarrow>
                  let s1 = skwlog_init clk1 s;
                      s2 = (if btsnoop_log_en s1 then skw_btsnoop_init clk2 s1 else s1);
                      (f3, a) = skw_addr_gen_init (skw_btsnoop_path s2) rnd (fs s2) (v_addr v)
                  in Inr (0, v\<lparr>v_conf := c, v_flags := f, v_logs := s2\<lparr>fs := f3\<rparr>, v_cbacks := True,
                            vnd_local_bd_addr := take 6 local_bdaddr, v_addr := a\<rparr>))))"

section \<open>Opening and closing the transport\<close>

text \<open>\<open>skwbt_boot_open\<close>.\<close>

definition skwbt_boot_open :: "open_env \<Rightarrow> vendor \<Rightarrow> bool \<times> vendor" where
  "skwbt_boot_open env v =
     (0 \<le> env_boot env, v\<lparr>btboot_fp := env_boot env, v_kern := k_opened (env_boot env) (v_kern v)\<rparr>)"

definition upd_port0 :: "scomm_vnd_st \<Rightarrow> skwbt_conf \<Rightarrow> skwbt_conf" where
  "upd_port0 p c = c\<lparr>scomm_vnd := (scomm_vnd c)[0 := p]\<rparr>"

text \<open>The UART branch: the descriptor for the stack, -1 if there is none; \<open>None\<close> is the early \<open>break\<close>.\<close>

definition open_uart :: "open_env \<Rightarrow> vendor \<Rightarrow> int option \<times> vendor" where
  "open_uart env v =
     (let (ok, v1) =
        (if \<not> skwbtuartonly (v_flags v) then
           (case skwbt_boot_open env v of
              (False, v') \<Rightarrow> (False, v')
            | (True, v') \<Rightarrow> (True, v'\<lparr>v_btpw_fp := env_btdata env, v_kern := k_opened (env_btdata env) (v_kern v')\<rparr>))
         else (True, v))
      in if \<not> ok then (None, v1)
         else
           let (r, p) = scomm_vendor_uart_open (env_uart env) (env_attrs env) (scomm_vnd (v_conf v1) ! 0) in
           if r \<noteq> -1 then
             let (hfd, p', k) = scomm_vendor_socket_open (env_obs env 0) 0 p (k_opened r (v_kern v1))
             in (Some hfd, v1\<lparr>v_conf := upd_port0 p' (v_conf v1), v_kern := k\<rparr>)
           else (Some (-1), v1\<lparr>v_conf := upd_port0 p (v_conf v1)\<rparr>))"

text \<open>The loop over the ports of USB and SDIO: where it ends, the ports, and the descriptor for the stack.\<close>

fun open_ports :: "open_env \<Rightarrow> nat \<Rightarrow> scomm_vnd_st list \<Rightarrow> kern \<Rightarrow> int \<Rightarrow> nat \<times> scomm_vnd_st list \<times> kern \<times> int" where
  "open_ports env idx [] k hfd = (idx, [], k, hfd)"
| "open_ports env idx (p # ps) k hfd =
     (if \<not> scomm_vendor_check_port_valid p then
        (let (i, ps', k', hfd') = open_ports env (Suc idx) ps k hfd in (i, p # ps', k', hfd'))
      else
        let (r, p1) = scomm_vendor_usbsdio_open (env_dev env idx) p in
        if r \<noteq> -1 then
          let (tFd, p2, k2) = scomm_vendor_socket_open (env_obs env idx) idx p1 (k_opened r k);
              (i, ps', k', hfd') = open_ports env (Suc idx) ps k2 (if tFd \<noteq> -1 \<and> hfd = -1 then tFd else hfd)
          in (i, p2 # ps', k', hfd')
        else (idx, p1 # ps, k, hfd))"

definition open_usbsdio :: "open_env \<Rightarrow> vendor \<Rightarrow> int option \<times> vendor" where
  "open_usbsdio env v =
     (case skwbt_boot_open env v of
        (False, v1) \<Rightarrow> (None, v1)
      | (True, v1) \<Rightarrow>
          let (idx, ports, k, hfd) = open_ports env 0 (scomm_vnd (v_conf v1)) (v_kern v1) (-1);
              bus = (if idx \<le> BT_COM_PORT_ACL then SKWBT_TRANS_TYPE_USB else SKWBT_TRANS_TYPE_SDIO);
              c = (v_conf v1)\<lparr>scomm_vnd := ports, skwbt_transtype := skwbt_transtype (v_conf v1) OR bus\<rparr>
          in (Some hfd, v1\<lparr>v_conf := c, v_kern := k\<rparr>))"

section \<open>Operations\<close>

datatype bt_op =
    BT_VND_OP_POWER_CTRL int
  | BT_VND_OP_FW_CFG cfg_env
  | BT_VND_OP_SCO_CFG
  | BT_VND_OP_USERIAL_OPEN open_env
  | BT_VND_OP_USERIAL_CLOSE "nat \<Rightarrow> bool"  \<comment> \<open>the receive threads that have ended by themselves\<close>
  | BT_VND_OP_GET_LPM_IDLE_TIMEOUT
  | BT_VND_OP_LPM_SET_MODE
  | BT_VND_OP_LPM_WAKE_SET_STATE
  | BT_VND_OP_EPILOG
  | Other_op

abbreviation (input) BT_VND_PWR_OFF :: int where "BT_VND_PWR_OFF \<equiv> 0"
abbreviation (input) BT_VND_PWR_ON :: int where "BT_VND_PWR_ON \<equiv> 1"

text \<open>What an operation does beyond the state; \<open>Fd_array\<close> is the filling of the whole array \<open>param\<close>.\<close>

datatype op_event =
    Usleep nat
  | Config_event cfg_event
  | Fd_array int
  | Property_set string string

definition op_userial_open :: "open_env \<Rightarrow> vendor \<Rightarrow> int \<times> op_event list \<times> vendor" where
  "op_userial_open env v =
     (case (if skwbt_transtype (v_conf v) AND SKWBT_TRANS_TYPE_UART \<noteq> 0 then open_uart env v else open_usbsdio env v) of
        (None, v1) \<Rightarrow> (0, [], v1)
      | (Some hfd, v1) \<Rightarrow>
          if hfd \<noteq> -1 then (1, [Fd_array hfd, Property_set ''SKWBT.OPEN.STATE'' ''1''], v1) else (0, [], v1))"

definition op_userial_close :: "(nat \<Rightarrow> bool) \<Rightarrow> vendor \<Rightarrow> int \<times> op_event list \<times> vendor" where
  "op_userial_close exited v =
     (let v1 = (if btboot_fp v > 0
                then v\<lparr>v_kern := k_close (btboot_fp v)
                         (scomm_vendor_write_bt_state (chip_version (v_hw v)) (scomm_vnd (v_conf v)) (v_kern v)),
                       btboot_fp := -1\<rparr>
                else v);
          (ports, k) = scomm_vendor_close exited (v_btpw_fp v1) (scomm_vnd (v_conf v1)) (v_kern v1)
      in (0, [Property_set ''SKWBT.OPEN.STATE'' ''0''], v1\<lparr>v_conf := (v_conf v1)\<lparr>scomm_vnd := ports\<rparr>, v_kern := k\<rparr>))"

fun vendor_op :: "bt_op \<Rightarrow> vendor \<Rightarrow> int \<times> op_event list \<times> vendor" where
  "vendor_op (BT_VND_OP_POWER_CTRL st) v =
     (if skwbt_transtype (v_conf v) AND SKWBT_TRANS_TYPE_UART \<noteq> 0 \<and> (st = BT_VND_PWR_OFF \<or> st = BT_VND_PWR_ON)
      then (0, [Usleep 200000], v) else (0, [], v))"
| "vendor_op (BT_VND_OP_FW_CFG env) v =
     (let (es, hw) = scomm_vendor_config_start (env\<lparr>cbacks := v_cbacks v\<rparr>) (v_hw v)
      in (0, map Config_event es, v\<lparr>v_hw := hw\<rparr>))"
| "vendor_op BT_VND_OP_SCO_CFG v = (-1, [], v)"
| "vendor_op (BT_VND_OP_USERIAL_OPEN env) v = op_userial_open env v"
| "vendor_op (BT_VND_OP_USERIAL_CLOSE exited) v = op_userial_close exited v"
| "vendor_op _ v = (0, [], v)"

text \<open>\<open>cleanup\<close>.\<close>

definition vendor_cleanup :: "vendor \<Rightarrow> vendor" where
  "vendor_cleanup v =
     (let s1 = (if btsnoop_log_en (v_logs v) then skw_btsnoop_close (v_logs v) else v_logs v);
          s2 = skwlog_close s1
      in v\<lparr>v_logs := s2\<lparr>btsnoop_log_en := False\<rparr>, v_cbacks := False, v_conf := (v_conf v)\<lparr>skwbt_transtype := 0\<rparr>\<rparr>)"

section \<open>Opening the ports\<close>

text \<open>The descriptors and threads an operation gets are new and differ from each other.\<close>

definition dev_ids :: "int \<Rightarrow> int list" where
  "dev_ids d = (if d < 0 then [] else [d])"

fun port_ids :: "open_env \<Rightarrow> nat \<Rightarrow> 'a list \<Rightarrow> int list" where
  "port_ids env idx [] = []"
| "port_ids env idx (p # ps) = dev_ids (env_dev env idx) @ obs_fds (env_obs env idx) @ port_ids env (Suc idx) ps"

fun port_tids :: "open_env \<Rightarrow> nat \<Rightarrow> 'a list \<Rightarrow> int list" where
  "port_tids env idx [] = []"
| "port_tids env idx (p # ps) = obs_threads (env_obs env idx) @ port_tids env (Suc idx) ps"

lemma taken_up_new:
  "new_ids ids (kfds k) \<Longrightarrow> set (kfds k') \<subseteq> set (kfds k) \<union> set used \<Longrightarrow> set ids \<inter> set used = {} \<Longrightarrow> new_ids ids (kfds k')"
  by (rule new_ids_mono)

lemma open_ports_effect:
  assumes "\<forall>p \<in> set ps. port_closed p" "distinct (kfds k)" "distinct (kthreads k)" "\<forall>t \<in> set (kthreads k). 0 < t"
    "new_ids (port_ids env idx ps) (kfds k)" "new_ids (port_tids env idx ps) (kthreads k)" "\<forall>i. -1 \<le> env_dev env i"
    "open_ports env idx ps k hfd = (i, ps', k', hfd')"
  shows "fds.taken_up k ps' k' \<and> threads.taken_up k ps' k' \<and> (\<forall>p \<in> set ps'. port_ok p) \<and> length ps' = length ps \<and>
    (\<forall>t \<in> set (kthreads k'). 0 < t)"
  using assms
proof (induction ps arbitrary: idx k hfd i ps' k' hfd')
  case Nil
  then show ?case by (simp add: fds.taken_up_idle threads.taken_up_idle)
next
  case (Cons p ps)
  have p: "port_closed p" "port_ok p" and ps: "\<forall>p \<in> set ps. port_closed p"
    using Cons.prems(1) by (auto simp: port_ok_def port_closed_def)
  have rest: "new_ids (port_ids env (Suc idx) ps) (kfds k)" "new_ids (port_tids env (Suc idx) ps) (kthreads k)"
    using Cons.prems(5,6) by (simp_all add: new_ids_append)
  note one = fds.taken_up_idle [of "[p]" k] threads.taken_up_idle [of "[p]" k]
  show ?case
  proof (cases "scomm_vendor_check_port_valid p")
    case False
    obtain j qs k1 f1 where r: "open_ports env (Suc idx) ps k hfd = (j, qs, k1, f1)" by (metis surj_pair)
    have ih: "fds.taken_up k qs k1 \<and> threads.taken_up k qs k1 \<and> (\<forall>p \<in> set qs. port_ok p) \<and> length qs = length ps \<and>
        (\<forall>t \<in> set (kthreads k1). 0 < t)"
      by (rule Cons.IH [OF ps Cons.prems(2-4) rest Cons.prems(7) r])
    have "ps' = p # qs" "k' = k1" using Cons.prems(8) False r by auto
    with ih p one Cons.prems(2,3) fds.taken_up_append [of k "[p]" k qs k1] threads.taken_up_append [of k "[p]" k qs k1]
    show ?thesis by simp
  next
    case valid: True
    let ?d = "env_dev env idx" and ?p1 = "p\<lparr>fd := env_dev env idx\<rparr>"
    show ?thesis
    proof (cases "?d = -1")
      case True
      then have "ps' = ?p1 # ps" "k' = k" using Cons.prems(8) valid by (simp_all add: scomm_vendor_usbsdio_open_def)
      moreover have "?p1 = p" using p(1) True by (cases p) (simp add: port_closed_def)
      ultimately show ?thesis
        using Cons.prems(1-4) p ps by (auto simp: fds.taken_up_idle threads.taken_up_idle port_ok_def port_closed_def)
    next
      case False
      then have d: "0 < ?d" "?d \<notin> set (kfds k)"
        using Cons.prems(5) spec [OF Cons.prems(7), of idx] by (auto simp: new_ids_append dev_ids_def new_ids_def split: if_splits)
      obtain t p2 k2 where op: "scomm_vendor_socket_open (env_obs env idx) idx ?p1 (k_open ?d k) = (t, p2, k2)" by (metis surj_pair)
      have new: "obs_new (env_obs env idx) (k_open ?d k)"
        using Cons.prems(4-6) d(1) by (auto simp: obs_new_def new_ids_append new_ids_def dev_ids_def)
      have p1: "fds_of ?p1 = ?d # tl (fds_of p)" "threads_of ?p1 = threads_of p"
        by (simp_all add: fds_of_def threads_of_def)
      note opened = port_opened [OF p(1) d new Cons.prems(2,3) p1 op]
      have ids: "new_ids (port_ids env (Suc idx) ps) (kfds k2)" "new_ids (port_tids env (Suc idx) ps) (kthreads k2)"
      proof -
        show "new_ids (port_ids env (Suc idx) ps) (kfds k2)"
          using Cons.prems(5) socket_open_live(1) [OF op] d(1)
          by (intro new_ids_mono [OF rest(1), of _ "?d # obs_fds (env_obs env idx)"]) (auto simp: new_ids_def dev_ids_def)
        show "new_ids (port_tids env (Suc idx) ps) (kthreads k2)"
          using Cons.prems(6) socket_open_live(2) [OF op]
          by (intro new_ids_mono [OF rest(2), of _ "obs_threads (env_obs env idx)"]) (auto simp: new_ids_def)
      qed
      obtain j qs k3 f3 where r: "open_ports env (Suc idx) ps k2 (if t \<noteq> -1 \<and> hfd = -1 then t else hfd) = (j, qs, k3, f3)"
        by (metis surj_pair)
      have dist: "distinct (kfds k2)" "distinct (kthreads k2)"
        using opened(1,2) by (simp_all add: fds.taken_up_def threads.taken_up_def)
      have kop: "k_opened ?d k = k_open ?d k" using d(1) by (simp add: k_opened_def)
      have ih: "fds.taken_up k2 qs k3 \<and> threads.taken_up k2 qs k3 \<and> (\<forall>p \<in> set qs. port_ok p) \<and> length qs = length ps \<and>
          (\<forall>t \<in> set (kthreads k3). 0 < t)"
        by (rule Cons.IH [OF ps dist opened(4) ids Cons.prems(7) r])
      have "ps' = p2 # qs" "k' = k3" using Cons.prems(8) valid False op r kop by (auto simp: scomm_vendor_usbsdio_open_def Let_def)
      moreover have "port_ok p2" using opened(3) d(1) by (simp add: port_ok_def)
      ultimately show ?thesis
        using ih opened(1,2) fds.taken_up_append [of k "[p2]" k2 qs k3] threads.taken_up_append [of k "[p2]" k2 qs k3] by simp
    qed
  qed
qed

section \<open>Sessions\<close>

text \<open>
  A vendor state whose transport is closed; and what it may hold while it is open, over the
  descriptors \<open>F\<close> and threads \<open>T\<close> of the rest of the process.
\<close>

definition transport_closed :: "vendor \<Rightarrow> bool" where
  "transport_closed v \<longleftrightarrow> length (scomm_vnd (v_conf v)) = BT_COM_PORT_SIZE \<and> (\<forall>p \<in> set (scomm_vnd (v_conf v)). port_closed p) \<and>
     btboot_fp v \<le> 0 \<and> v_btpw_fp v \<le> 0 \<and> distinct (kfds (v_kern v)) \<and> distinct (kthreads (v_kern v)) \<and>
     (\<forall>t \<in> set (kthreads (v_kern v)). 0 < t)"

definition device_fds :: "vendor \<Rightarrow> int set" where
  "device_fds v = {d. 0 < d \<and> d \<in> {btboot_fp v, v_btpw_fp v}}"

definition transport_holds :: "int set \<Rightarrow> int set \<Rightarrow> vendor \<Rightarrow> bool" where
  "transport_holds F T v \<longleftrightarrow>
     (\<forall>p \<in> set (scomm_vnd (v_conf v)). port_ok p) \<and> length (scomm_vnd (v_conf v)) = BT_COM_PORT_SIZE \<and>
     distinct (kfds (v_kern v)) \<and> distinct (kthreads (v_kern v)) \<and> (\<forall>t \<in> set (kthreads (v_kern v)). 0 < t) \<and>
     set (kfds (v_kern v)) - (device_fds v \<union> \<Union> (port_fds ` set (scomm_vnd (v_conf v)))) = F \<and>
     set (kthreads (v_kern v)) - \<Union> (port_threads ` set (scomm_vnd (v_conf v))) = T"

lemma closed_holds:
  assumes "transport_closed v"
  shows "transport_holds (set (kfds (v_kern v))) (set (kthreads (v_kern v))) v"
proof -
  have ports: "\<forall>p \<in> set (scomm_vnd (v_conf v)). port_fds p = {} \<and> port_threads p = {} \<and> port_ok p"
    using assms fds.idle_held threads.idle_held by (auto simp: transport_closed_def port_ok_def port_closed_def)
  then have "\<Union> (port_fds ` set (scomm_vnd (v_conf v))) = {}" "\<Union> (port_threads ` set (scomm_vnd (v_conf v))) = {}"
    by auto
  moreover have "device_fds v = {}"
    using assms by (auto simp: transport_closed_def device_fds_def)
  ultimately show ?thesis
    using assms ports by (simp add: transport_holds_def transport_closed_def)
qed

text \<open>Closing releases everything the transport holds, and only that.\<close>

lemma userial_close_releases:
  assumes holds: "transport_holds F T v" and op: "op_userial_close exited v = (r, es, v')"
  shows "set (kfds (v_kern v')) = F" "T \<subseteq> set (kthreads (v_kern v'))"
    "set (kthreads (v_kern v')) \<subseteq> T \<union> unjoined exited 0 (scomm_vnd (v_conf v))"
    "\<forall>p \<in> set (scomm_vnd (v_conf v')). port_closed p" "length (scomm_vnd (v_conf v')) = BT_COM_PORT_SIZE"
    "btboot_fp v' \<le> 0" "v_btpw_fp v' = v_btpw_fp v" "distinct (kfds (v_kern v'))" "distinct (kthreads (v_kern v'))" "r = 0"
proof -
  define k1 where "k1 = (if btboot_fp v > 0 then k_close (btboot_fp v)
      (scomm_vendor_write_bt_state (chip_version (v_hw v)) (scomm_vnd (v_conf v)) (v_kern v)) else v_kern v)"
  obtain ports k2 where close: "close_ports exited 0 (scomm_vnd (v_conf v)) k1 = (ports, k2)" by fastforce
  have v': "v_kern v' = k_close_pos (v_btpw_fp v) k2" "scomm_vnd (v_conf v') = ports" "r = 0"
    "btboot_fp v' = (if btboot_fp v > 0 then -1 else btboot_fp v)" "v_btpw_fp v' = v_btpw_fp v"
    using op close by (auto simp: op_userial_close_def scomm_vendor_close_def Let_def k1_def split: if_splits)
  have k1: "set (kfds k1) = set (kfds (v_kern v)) - {d. 0 < d \<and> d = btboot_fp v}" "distinct (kfds k1)"
    "kthreads k1 = kthreads (v_kern v)"
    using holds by (auto simp: k1_def scomm_vendor_write_bt_state_def transport_holds_def)
  have h: "\<forall>p \<in> set (scomm_vnd (v_conf v)). port_ok p" "distinct (kthreads k1)" "\<forall>t \<in> set (kthreads k1). 0 < t"
    "set (kfds (v_kern v)) - (device_fds v \<union> \<Union> (port_fds ` set (scomm_vnd (v_conf v)))) = F"
    "set (kthreads (v_kern v)) - \<Union> (port_threads ` set (scomm_vnd (v_conf v))) = T"
    "length (scomm_vnd (v_conf v)) = BT_COM_PORT_SIZE"
    using holds by (simp_all add: transport_holds_def k1(3))
  note eff = close_ports_effect [OF h(1) k1(2) h(2,3) close]
  have "set (kfds (v_kern v')) = set (kfds k2) - {d. 0 < d \<and> d = v_btpw_fp v}"
    using eff by (auto simp: v'(1))
  then show "set (kfds (v_kern v')) = F"
    using eff k1(1) h(4) by (auto simp: device_fds_def)
  show "T \<subseteq> set (kthreads (v_kern v'))" "set (kthreads (v_kern v')) \<subseteq> T \<union> unjoined exited 0 (scomm_vnd (v_conf v))"
    using eff k1(3) h(5) by (simp_all add: v'(1))
  show "\<forall>p \<in> set (scomm_vnd (v_conf v')). port_closed p" "length (scomm_vnd (v_conf v')) = BT_COM_PORT_SIZE"
    "distinct (kfds (v_kern v'))" "distinct (kthreads (v_kern v'))"
    using eff h(6) by (simp_all add: v')
  show "btboot_fp v' \<le> 0" "v_btpw_fp v' = v_btpw_fp v" "r = 0"
    by (simp_all add: v')
qed

text \<open>The environment of an opening: what it hands out is new.\<close>

definition env_new :: "open_env \<Rightarrow> vendor \<Rightarrow> bool" where
  "env_new env v \<longleftrightarrow> (\<forall>i. -1 \<le> env_dev env i) \<and> -1 \<le> env_uart env \<and>
     new_ids (dev_ids (env_boot env) @ dev_ids (env_btdata env) @ dev_ids (env_uart env) @ port_ids env 0 (scomm_vnd (v_conf v)))
       (kfds (v_kern v)) \<and>
     new_ids (port_tids env 0 (scomm_vnd (v_conf v))) (kthreads (v_kern v))"

lemma uart_params_H4: "uart_params userial_H4_cfg = Some (B3000000, 0, 0)"
  by (simp add: uart_params_def userial_H4_cfg_def scomm_vendor_tcio_baud_def)

lemma uart_open_H4:
  "\<exists>t. scomm_vendor_uart_open d attrs p = (d, if d = -1 then p\<lparr>fd := -1\<rparr> else p\<lparr>fd := d, tios := t\<rparr>)"
  by (auto simp: scomm_vendor_uart_open_def uart_open_def uart_params_H4 Let_def)

text \<open>The devices beside the ports: after they are opened the transport holds just them.\<close>

definition devices_open :: "vendor \<Rightarrow> vendor \<Rightarrow> bool" where
  "devices_open v v1 \<longleftrightarrow> v_conf v1 = v_conf v \<and> kthreads (v_kern v1) = kthreads (v_kern v) \<and> distinct (kfds (v_kern v1)) \<and>
     set (kfds (v_kern v1)) = set (kfds (v_kern v)) \<union> device_fds v1 \<and> device_fds v1 \<inter> set (kfds (v_kern v)) = {}"

lemma devices_hold:
  assumes "transport_closed v" "devices_open v v1"
    and "fds.taken_up (v_kern v1) ps' k'" "threads.taken_up (v_kern v1) ps' k'" "\<forall>p \<in> set ps'. port_ok p"
    "length ps' = BT_COM_PORT_SIZE" "\<forall>t \<in> set (kthreads k'). 0 < t"
    and "scomm_vnd (v_conf v') = ps'" "v_kern v' = k'" "btboot_fp v' = btboot_fp v1" "v_btpw_fp v' = v_btpw_fp v1"
  shows "transport_holds (set (kfds (v_kern v))) (set (kthreads (v_kern v))) v'"
proof -
  have "device_fds v' = device_fds v1" using assms(10,11) by (simp add: device_fds_def)
  moreover have "set (kfds k') - \<Union> (port_fds ` set ps') = set (kfds (v_kern v1))"
    "set (kthreads k') - \<Union> (port_threads ` set ps') = set (kthreads (v_kern v1))"
    using fds.taken_up_disjoint [OF assms(3)] threads.taken_up_disjoint [OF assms(4)] by simp_all
  ultimately have "set (kfds k') - (device_fds v' \<union> \<Union> (port_fds ` set ps')) = set (kfds (v_kern v))"
    "set (kthreads k') - \<Union> (port_threads ` set ps') = set (kthreads (v_kern v))"
    using assms(2) unfolding devices_open_def by auto
  then show ?thesis
    using assms(3-9) by (simp add: transport_holds_def fds.taken_up_def threads.taken_up_def)
qed

lemma boot_open_devices:
  assumes "transport_closed v" "new_ids (dev_ids (env_boot env)) (kfds (v_kern v))" "skwbt_boot_open env v = (ok, v1)"
  shows "devices_open v v1" "v_btpw_fp v1 = v_btpw_fp v" "v_flags v1 = v_flags v" "ok \<Longrightarrow> 0 < env_boot env"
    "kfds (v_kern v1) = dev_ids (env_boot env) @ kfds (v_kern v)"
  using assms
  by (auto simp: skwbt_boot_open_def devices_open_def transport_closed_def device_fds_def k_opened_def dev_ids_def new_ids_def
      split: if_splits)

lemma btdata_open_devices:
  assumes "devices_open v v1" "v_btpw_fp v1 \<le> 0" "new_ids (dev_ids d) (kfds (v_kern v1))"
  shows "devices_open v (v1\<lparr>v_btpw_fp := d, v_kern := k_opened d (v_kern v1)\<rparr>)"
proof -
  have o: "v_conf v1 = v_conf v" "kthreads (v_kern v1) = kthreads (v_kern v)" "distinct (kfds (v_kern v1))"
    "set (kfds (v_kern v1)) = set (kfds (v_kern v)) \<union> device_fds v1" "device_fds v1 \<inter> set (kfds (v_kern v)) = {}"
    using assms(1) by (simp_all add: devices_open_def)
  have one: "device_fds v1 = {x. 0 < x \<and> x = btboot_fp v1}"
    using assms(2) by (auto simp: device_fds_def)
  show ?thesis
  proof (cases "d < 0")
    case True
    then have "device_fds (v1\<lparr>v_btpw_fp := d, v_kern := k_opened d (v_kern v1)\<rparr>) = device_fds v1"
      unfolding one by (auto simp: device_fds_def)
    then show ?thesis using o True by (simp add: devices_open_def k_opened_def)
  next
    case False
    then have d: "0 < d" "d \<notin> set (kfds (v_kern v1))"
      using assms(3) by (auto simp: dev_ids_def new_ids_def)
    then have "device_fds (v1\<lparr>v_btpw_fp := d, v_kern := k_opened d (v_kern v1)\<rparr>) = insert d (device_fds v1)"
      unfolding one by (auto simp: device_fds_def)
    then show ?thesis using o d False by (simp add: devices_open_def k_opened_def)
  qed
qed

lemma closed_taken_up:
  assumes "transport_closed v" "devices_open v v1"
  shows "fds.taken_up (v_kern v1) (scomm_vnd (v_conf v)) (v_kern v1)" "threads.taken_up (v_kern v1) (scomm_vnd (v_conf v)) (v_kern v1)"
    "\<forall>p \<in> set (scomm_vnd (v_conf v)). port_ok p"
proof -
  have c: "\<forall>p \<in> set (scomm_vnd (v_conf v)). port_closed p" "distinct (kfds (v_kern v1))" "distinct (kthreads (v_kern v1))"
    using assms by (simp_all add: transport_closed_def devices_open_def)
  show "fds.taken_up (v_kern v1) (scomm_vnd (v_conf v)) (v_kern v1)" by (rule fds.taken_up_idle [OF c(1,2)])
  show "threads.taken_up (v_kern v1) (scomm_vnd (v_conf v)) (v_kern v1)" by (rule threads.taken_up_idle [OF c(1,3)])
  show "\<forall>p \<in> set (scomm_vnd (v_conf v)). port_ok p" using c(1) by (simp add: port_ok_def port_closed_def)
qed

lemma open_usbsdio_holds:
  assumes closed: "transport_closed v" and new: "env_new env v" and op: "open_usbsdio env v = (r, v')"
  shows "transport_holds (set (kfds (v_kern v))) (set (kthreads (v_kern v))) v'"
proof -
  obtain ok v1 where boot: "skwbt_boot_open env v = (ok, v1)" by fastforce
  have ids: "new_ids (dev_ids (env_boot env)) (kfds (v_kern v))" "new_ids (port_ids env 0 (scomm_vnd (v_conf v))) (kfds (v_kern v))"
    "set (port_ids env 0 (scomm_vnd (v_conf v))) \<inter> set (dev_ids (env_boot env)) = {}"
    "new_ids (port_tids env 0 (scomm_vnd (v_conf v))) (kthreads (v_kern v))" "\<forall>i. -1 \<le> env_dev env i"
    using new by (auto simp: env_new_def new_ids_append)
  note dev = boot_open_devices [OF closed ids(1) boot]
  have c: "length (scomm_vnd (v_conf v)) = BT_COM_PORT_SIZE" "\<forall>t \<in> set (kthreads (v_kern v)). 0 < t"
    "\<forall>p \<in> set (scomm_vnd (v_conf v)). port_closed p" "distinct (kthreads (v_kern v))"
    using closed by (simp_all add: transport_closed_def)
  have same: "v_conf v1 = v_conf v" "kthreads (v_kern v1) = kthreads (v_kern v)" "distinct (kfds (v_kern v1))"
    using dev(1) by (simp_all add: devices_open_def)
  show ?thesis
  proof (cases ok)
    case False
    then have "v' = v1" using op boot by (simp add: open_usbsdio_def)
    then show ?thesis
      using devices_hold [OF closed dev(1) closed_taken_up [OF closed dev(1)] c(1)] c(2) same by simp
  next
    case True
    obtain i ps' k' hfd where ports: "open_ports env 0 (scomm_vnd (v_conf v)) (v_kern v1) (-1) = (i, ps', k', hfd)" by (metis surj_pair)
    have "new_ids (port_ids env 0 (scomm_vnd (v_conf v))) (kfds (v_kern v1))"
      using ids(2,3) dev(5) by (auto simp: new_ids_def)
    from open_ports_effect [OF c(3) same(3) _ _ this _ ids(5) ports] c(1,2,4) ids(4) same(2) have
      "fds.taken_up (v_kern v1) ps' k'" "threads.taken_up (v_kern v1) ps' k'" "\<forall>p \<in> set ps'. port_ok p"
      "length ps' = BT_COM_PORT_SIZE" "\<forall>t \<in> set (kthreads k'). 0 < t" by simp_all
    moreover have "scomm_vnd (v_conf v') = ps'" "v_kern v' = k'" "btboot_fp v' = btboot_fp v1" "v_btpw_fp v' = v_btpw_fp v1"
      using op True boot ports same(1) by (auto simp: open_usbsdio_def Let_def)
    ultimately show ?thesis by (rule devices_hold [OF closed dev(1)])
  qed
qed

lemma open_uart_devices:
  assumes closed: "transport_closed v" and new: "env_new env v"
  obtains (broken) v1 where "open_uart env v = (None, v1)" "devices_open v v1"
  | (devices) v1 where "open_uart env v =
      (let (r, p) = scomm_vendor_uart_open (env_uart env) (env_attrs env) (scomm_vnd (v_conf v1) ! 0) in
       if r \<noteq> -1 then
         let (hfd, p', k) = scomm_vendor_socket_open (env_obs env 0) 0 p (k_opened r (v_kern v1))
         in (Some hfd, v1\<lparr>v_conf := upd_port0 p' (v_conf v1), v_kern := k\<rparr>)
       else (Some (-1), v1\<lparr>v_conf := upd_port0 p (v_conf v1)\<rparr>))"
      "devices_open v v1" "set (kfds (v_kern v1)) \<subseteq> set (kfds (v_kern v)) \<union> set (dev_ids (env_boot env) @ dev_ids (env_btdata env))"
proof (cases "skwbtuartonly (v_flags v)")
  case True
  have "device_fds v = {}" using closed by (auto simp: device_fds_def transport_closed_def)
  then have "devices_open v v" using closed by (simp add: devices_open_def transport_closed_def)
  then show ?thesis
    using True devices [of v] by (simp add: open_uart_def)
next
  case False
  obtain ok v1 where boot: "skwbt_boot_open env v = (ok, v1)" by fastforce
  have ids: "new_ids (dev_ids (env_boot env)) (kfds (v_kern v))" "new_ids (dev_ids (env_btdata env)) (kfds (v_kern v))"
    "set (dev_ids (env_btdata env)) \<inter> set (dev_ids (env_boot env)) = {}"
    using new by (auto simp: env_new_def new_ids_append)
  note dev = boot_open_devices [OF closed ids(1) boot]
  show ?thesis
  proof (cases ok)
    case False
    then have "open_uart env v = (None, v1)" using \<open>\<not> skwbtuartonly (v_flags v)\<close> boot by (simp add: open_uart_def)
    then show ?thesis using broken dev(1) by blast
  next
    case True
    let ?v2 = "v1\<lparr>v_btpw_fp := env_btdata env, v_kern := k_opened (env_btdata env) (v_kern v1)\<rparr>"
    have "new_ids (dev_ids (env_btdata env)) (kfds (v_kern v1))"
      using ids(2,3) dev(5) by (auto simp: new_ids_def)
    then have "devices_open v ?v2"
      using btdata_open_devices [OF dev(1)] dev(2) closed by (simp add: transport_closed_def)
    moreover have "set (kfds (v_kern ?v2)) \<subseteq> set (kfds (v_kern v)) \<union> set (dev_ids (env_boot env) @ dev_ids (env_btdata env))"
      using dev(5) by (auto simp: k_opened_def dev_ids_def)
    ultimately show ?thesis
      using devices [of ?v2] \<open>\<not> skwbtuartonly (v_flags v)\<close> True boot by (simp add: open_uart_def)
  qed
qed

lemma open_uart_holds:
  assumes closed: "transport_closed v" and new: "env_new env v" and op: "open_uart env v = (r, v')"
  shows "transport_holds (set (kfds (v_kern v))) (set (kthreads (v_kern v))) v'"
proof -
  have c: "length (scomm_vnd (v_conf v)) = BT_COM_PORT_SIZE" "\<forall>t \<in> set (kthreads (v_kern v)). 0 < t"
    "\<forall>p \<in> set (scomm_vnd (v_conf v)). port_closed p" "distinct (kthreads (v_kern v))"
    using closed by (simp_all add: transport_closed_def)
  obtain p0 ps where ps: "scomm_vnd (v_conf v) = p0 # ps"
    using c(1) by (cases "scomm_vnd (v_conf v)") (auto simp: BT_COM_PORT_SIZE_def)
  have p0: "port_closed p0" "\<forall>p \<in> set ps. port_closed p" using c(3) ps by simp_all
  show ?thesis
    using closed new
  proof (cases rule: open_uart_devices)
    case (broken v1)
    then have v': "v' = v1" and same: "v_conf v1 = v_conf v" "kthreads (v_kern v1) = kthreads (v_kern v)"
      using op by (simp_all add: devices_open_def)
    show ?thesis
      unfolding v' using devices_hold [OF closed broken(2) closed_taken_up [OF closed broken(2)] c(1)] c(2) same by simp
  next
    case (devices v1)
    have same: "v_conf v1 = v_conf v" "kthreads (v_kern v1) = kthreads (v_kern v)" "distinct (kfds (v_kern v1))"
      using devices(2) by (simp_all add: devices_open_def)
    obtain t where uart: "scomm_vendor_uart_open (env_uart env) (env_attrs env) p0 =
        (env_uart env, if env_uart env = -1 then p0\<lparr>fd := -1\<rparr> else p0\<lparr>fd := env_uart env, tios := t\<rparr>)"
      using uart_open_H4 [of "env_uart env" "env_attrs env" p0] by blast
    show ?thesis
    proof (cases "env_uart env = -1")
      case True
      have "p0\<lparr>fd := -1\<rparr> = p0" using p0(1) by (cases p0) (simp add: port_closed_def)
      then have "v' = v1\<lparr>v_conf := upd_port0 p0 (v_conf v1)\<rparr>"
        using op True uart by (simp add: devices(1) same(1) ps)
      then have "scomm_vnd (v_conf v') = scomm_vnd (v_conf v)" "v_kern v' = v_kern v1" "btboot_fp v' = btboot_fp v1" "v_btpw_fp v' = v_btpw_fp v1"
        by (simp_all add: upd_port0_def same(1) ps)
      then show ?thesis
        using devices_hold [OF closed devices(2) closed_taken_up [OF closed devices(2)] c(1)] c(2) same by simp
    next
      case False
      let ?p1 = "p0\<lparr>fd := env_uart env, tios := t\<rparr>"
      have ids: "new_ids (dev_ids (env_uart env)) (kfds (v_kern v))" "new_ids (obs_fds (env_obs env 0)) (kfds (v_kern v))"
        "new_ids (obs_threads (env_obs env 0)) (kthreads (v_kern v))"
        "set (dev_ids (env_uart env)) \<inter> set (dev_ids (env_boot env) @ dev_ids (env_btdata env)) = {}"
        "set (obs_fds (env_obs env 0)) \<inter> set (dev_ids (env_boot env) @ dev_ids (env_btdata env) @ dev_ids (env_uart env)) = {}"
        using new by (auto simp: env_new_def new_ids_append ps)
      have d: "0 < env_uart env" "env_uart env \<notin> set (kfds (v_kern v1))"
        using ids(1,4) devices(3) False new by (auto simp: dev_ids_def new_ids_def env_new_def split: if_splits)
      have obs: "obs_new (env_obs env 0) (k_open (env_uart env) (v_kern v1))"
        using ids(2,3,5) devices(3) d(1) c(2) same(2) by (auto simp: obs_new_def new_ids_def dev_ids_def)
      obtain hfd p2 k2 where so: "scomm_vendor_socket_open (env_obs env 0) 0 ?p1 (k_open (env_uart env) (v_kern v1)) = (hfd, p2, k2)"
        by (metis surj_pair)
      have p1: "fds_of ?p1 = env_uart env # tl (fds_of p0)" "threads_of ?p1 = threads_of p0" by (simp_all add: fds_of_def threads_of_def)
      have dist: "distinct (kthreads (v_kern v1))" using c(4) same(2) by simp
      note opened = port_opened [OF p0(1) d obs same(3) dist p1 so]
      have dist2: "distinct (kfds k2)" "distinct (kthreads k2)"
        using opened(1,2) by (simp_all add: fds.taken_up_def threads.taken_up_def)
      have "fds.taken_up (v_kern v1) (p2 # ps) k2" "threads.taken_up (v_kern v1) (p2 # ps) k2"
        using fds.taken_up_append [OF opened(1) fds.taken_up_idle [OF p0(2) dist2(1)]]
          threads.taken_up_append [OF opened(2) threads.taken_up_idle [OF p0(2) dist2(2)]] by simp_all
      moreover have "\<forall>p \<in> set (p2 # ps). port_ok p"
        using opened(3) d(1) p0(2) by (simp add: port_ok_def port_closed_def)
      moreover have "length (p2 # ps) = BT_COM_PORT_SIZE" using c(1) ps by simp
      moreover note opened(4)
      moreover have "v' = v1\<lparr>v_conf := upd_port0 p2 (v_conf v1), v_kern := k2\<rparr>"
        using op False uart so d(1) by (simp add: devices(1) same(1) ps k_opened_def)
      then have "scomm_vnd (v_conf v') = p2 # ps" "v_kern v' = k2" "btboot_fp v' = btboot_fp v1" "v_btpw_fp v' = v_btpw_fp v1"
        by (simp_all add: upd_port0_def same(1) ps)
      ultimately show ?thesis by (rule devices_hold [OF closed devices(2)])
    qed
  qed
qed

end
