(* ===== verification/Session.thy ===== *)
theory Session
  imports Vendor "HOL-Library.Multiset"
begin

text \<open>
  Sessions of the vendor interface: what opening the transport returns, that closing it gives back
  every descriptor it took, and the one descriptor number it keeps.
\<close>

section \<open>The result of opening\<close>

text \<open>What \<open>scomm_vendor_socket_open\<close> promises: the stack's end of the socket pair when every call succeeds.\<close>

definition host_fd :: "open_obs \<Rightarrow> nat \<Rightarrow> int" where
  "host_fd obs idx =
     (case (obs_uart obs, obs_signal obs, obs_uart_thread obs) of
        (Some (u0, _), Some _, Some _) \<Rightarrow>
          if obs_epoll obs \<noteq> -1 \<and> (idx = 0 \<longrightarrow> obs_ctl_uart obs \<and> obs_ctl_signal obs \<and> obs_socket_thread obs \<noteq> None) then u0 else -1
      | _ \<Rightarrow> -1)"

lemma socket_open_result: "fst (scomm_vendor_socket_open obs idx p k) = host_fd obs idx"
  by (auto simp: scomm_vendor_socket_open_def host_fd_def open_socket_thread_def open_failed_def Let_def split: option.splits)

text \<open>The ports the loop of USB and SDIO gets to, and the sockets it opens.\<close>

definition reached :: "open_env \<Rightarrow> nat \<Rightarrow> scomm_vnd_st list \<Rightarrow> (nat \<times> scomm_vnd_st) list" where
  "reached env idx ps = takeWhile (\<lambda>(j, p). scomm_vendor_check_port_valid p \<longrightarrow> env_dev env j \<noteq> -1) (enumerate idx ps)"

definition opened_fds :: "open_env \<Rightarrow> (nat \<times> scomm_vnd_st) list \<Rightarrow> int list" where
  "opened_fds env jps = filter (\<lambda>d. d \<noteq> -1) (map (\<lambda>(j, p). host_fd (env_obs env j) j) (filter (\<lambda>(j, p). scomm_vendor_check_port_valid p) jps))"

lemma reached_simps:
  "reached env idx [] = []"
  "reached env idx (p # ps) =
     (if scomm_vendor_check_port_valid p \<and> env_dev env idx = -1 then [] else (idx, p) # reached env (Suc idx) ps)"
  by (simp_all add: reached_def)

lemma opened_fds_simps:
  "opened_fds env [] = []"
  "opened_fds env ((j, p) # jps) =
     (if scomm_vendor_check_port_valid p \<and> host_fd (env_obs env j) j \<noteq> -1 then [host_fd (env_obs env j) j] else []) @ opened_fds env jps"
  by (simp_all add: opened_fds_def)

lemma open_ports_result:
  assumes "open_ports env idx ps k hfd = (i, ps', k', hfd')"
  shows "i = idx + length (reached env idx ps) \<and>
    hfd' = (if hfd \<noteq> -1 \<or> opened_fds env (reached env idx ps) = [] then hfd else hd (opened_fds env (reached env idx ps)))"
  using assms
proof (induction env idx ps k hfd arbitrary: i ps' k' hfd' rule: open_ports.induct)
  case (1 env idx k hfd)
  then show ?case by (simp add: reached_simps opened_fds_simps)
next
  case (2 env idx p ps k hfd)
  show ?case
  proof (cases "scomm_vendor_check_port_valid p")
    case False
    obtain j qs k1 f1 where r: "open_ports env (Suc idx) ps k hfd = (j, qs, k1, f1)" by (metis surj_pair)
    with 2(3) False have "i = j" "hfd' = f1" by auto
    with 2(1) [OF False r] False show ?thesis by (simp add: reached_simps opened_fds_simps)
  next
    case valid: True
    obtain t p2 k2 where so: "scomm_vendor_socket_open (env_obs env idx) idx (p\<lparr>fd := env_dev env idx\<rparr>) (k_opened (env_dev env idx) k) = (t, p2, k2)"
      by (metis surj_pair)
    have t: "t = host_fd (env_obs env idx) idx" using socket_open_result [of "env_obs env idx" idx] so by (metis fst_conv)
    obtain j qs k3 f3 where r: "open_ports env (Suc idx) ps k2 (if t \<noteq> -1 \<and> hfd = -1 then t else hfd) = (j, qs, k3, f3)"
      by (metis surj_pair)
    show ?thesis
    proof (cases "env_dev env idx = -1")
      case True
      then show ?thesis
        using 2(3) valid by (simp add: scomm_vendor_usbsdio_open_def reached_simps opened_fds_simps)
    next
      case False
      then have u: "scomm_vendor_usbsdio_open (env_dev env idx) p = (env_dev env idx, p\<lparr>fd := env_dev env idx\<rparr>)"
        by (simp add: scomm_vendor_usbsdio_open_def)
      have ih: "j = Suc idx + length (reached env (Suc idx) ps) \<and>
          f3 = (if (if t \<noteq> -1 \<and> hfd = -1 then t else hfd) \<noteq> -1 \<or> opened_fds env (reached env (Suc idx) ps) = []
                then if t \<noteq> -1 \<and> hfd = -1 then t else hfd else hd (opened_fds env (reached env (Suc idx) ps)))"
        using 2(2) [of "(env_dev env idx, p\<lparr>fd := env_dev env idx\<rparr>)" "env_dev env idx" "p\<lparr>fd := env_dev env idx\<rparr>" "(t, p2, k2)" t "(p2, k2)" p2 k2]
          valid False u so r by simp
      have "i = j" "hfd' = f3" using 2(3) valid False u so r by auto
      with ih t valid False show ?thesis
        by (cases "hfd = -1"; cases "t = -1") (simp_all add: reached_simps opened_fds_simps)
    qed
  qed
qed

text \<open>
  C35: Opening over USB or SDIO: without the boot device nothing happens and the result is 0. Else the
  result is 1 exactly if the sockets of some named port were opened before the first port whose node
  is missing; the whole array of the stack then gets the descriptor of the first of them; and the
  transport is recorded as USB if the loop stopped at port 0 or 1, as SDIO if it went on.
\<close>

theorem userial_open_result:
  assumes "skwbt_transtype (v_conf v) AND SKWBT_TRANS_TYPE_UART = 0"
    and "vendor_op (BT_VND_OP_USERIAL_OPEN env) v = (r, es, v')"
    and "jps = reached env 0 (scomm_vnd (v_conf v))" and "ds = opened_fds env jps"
  shows "(env_boot env < 0 \<longrightarrow> r = 0 \<and> es = [] \<and> v_conf v' = v_conf v) \<and>
    (0 \<le> env_boot env \<longrightarrow>
       r = (if ds = [] then 0 else 1) \<and>
       es = (if ds = [] then [] else [Fd_array (hd ds), Property_set ''SKWBT.OPEN.STATE'' ''1'']) \<and>
       skwbt_transtype (v_conf v') =
         skwbt_transtype (v_conf v) OR (if length jps \<le> BT_COM_PORT_ACL then SKWBT_TRANS_TYPE_USB else SKWBT_TRANS_TYPE_SDIO))"
proof -
  have hd: "ds \<noteq> [] \<Longrightarrow> hd ds \<noteq> -1"
    using hd_in_set [of ds] unfolding assms(4) opened_fds_def by (simp add: filter_empty_conv) 
  have op: "op_userial_open env v = (r, es, v')" using assms(2) by simp
  show ?thesis
  proof (cases "env_boot env < 0")
    case True
    then show ?thesis
      using op assms(1) by (auto simp: op_userial_open_def open_usbsdio_def skwbt_boot_open_def)
  next
    case False
    obtain i ps' k' hfd where ports: "open_ports env 0 (scomm_vnd (v_conf v)) (k_opened (env_boot env) (v_kern v)) (-1) = (i, ps', k', hfd)"
      by (metis surj_pair)
    note res = open_ports_result [OF ports]
    have "hfd = (if ds = [] then -1 else hd ds)" "i = length jps" using res by (simp_all add: assms(3,4))
    then show ?thesis
      using op assms(1) False ports hd
      by (auto simp: op_userial_open_def open_usbsdio_def skwbt_boot_open_def Let_def split: if_splits)
  qed
qed


section \<open>Closing gives everything back\<close>

lemma userial_open_holds:
  assumes "transport_closed v" "env_new env v" "op_userial_open env v = (r, es, v')"
  shows "transport_holds (set (kfds (v_kern v))) (set (kthreads (v_kern v))) v'"
proof -
  define res where "res = (if skwbt_transtype (v_conf v) AND SKWBT_TRANS_TYPE_UART \<noteq> 0 then open_uart env v else open_usbsdio env v)"
  obtain o1 v1 where res1: "res = (o1, v1)" by fastforce
  have "v' = v1"
    using assms(3) unfolding op_userial_open_def res_def [symmetric] res1 by (auto split: option.splits if_splits)
  then show ?thesis
    using res1 open_uart_holds [OF assms(1,2)] open_usbsdio_holds [OF assms(1,2)] unfolding res_def by (metis (full_types))
qed

text \<open>
  Opening the transport and closing it again leaves the process with exactly the descriptors it had
  before, whichever of the calls of the opening failed, over UART as over USB and SDIO, and with every
  port closed. No thread of the rest of the process is joined, and the only threads that are left
  unjoined are receive threads that had ended by themselves before their port was closed.
\<close>

theorem userial_close_gives_back:
  assumes "transport_closed v" and "env_new env v"
    and "vendor_op (BT_VND_OP_USERIAL_OPEN env) v = (r, es, v1)"
    and "vendor_op (BT_VND_OP_USERIAL_CLOSE exited) v1 = (r', es', v2)"
  shows "mset (kfds (v_kern v2)) = mset (kfds (v_kern v)) \<and>
    set (kthreads (v_kern v)) \<subseteq> set (kthreads (v_kern v2)) \<and>
    set (kthreads (v_kern v2)) \<subseteq> set (kthreads (v_kern v)) \<union> unjoined exited 0 (scomm_vnd (v_conf v1)) \<and>
    (\<forall>p \<in> set (scomm_vnd (v_conf v2)). port_closed p) \<and> btboot_fp v2 \<le> 0 \<and> r' = 0"
proof -
  have op: "op_userial_open env v = (r, es, v1)" "op_userial_close exited v1 = (r', es', v2)"
    using assms(3,4) by simp_all
  note rel = userial_close_releases [OF userial_open_holds [OF assms(1,2) op(1)] op(2)]
  have "mset (kfds (v_kern v2)) = mset (kfds (v_kern v))"
    using rel(1,8) assms(1) by (simp add: transport_closed_def set_eq_iff_mset_eq_distinct)
  with rel show ?thesis by blast
qed

text \<open>
  The number of the wake-up device is kept after closing. Over UART, once a session that had it is
  over, every later close closes whatever the process has open under that number by then.
\<close>

theorem userial_close_stale_wakeup:
  assumes "transport_closed v" and "env_new env v"
    and "skwbt_transtype (v_conf v) AND SKWBT_TRANS_TYPE_UART \<noteq> 0" and "\<not> skwbtuartonly (v_flags v)"
    and "0 \<le> env_boot env" and "0 \<le> env_btdata env"
    and "vendor_op (BT_VND_OP_USERIAL_OPEN env) v = (r, es, v1)"
    and "vendor_op (BT_VND_OP_USERIAL_CLOSE exited) v1 = (r1, es1, v2)"
    and "distinct fds" and "vendor_op (BT_VND_OP_USERIAL_CLOSE exited) (v2\<lparr>v_kern := (v_kern v2)\<lparr>kfds := fds\<rparr>\<rparr>) = (r2, es2, v3)"
  shows "env_btdata env \<notin> set (kfds (v_kern v2)) \<and> set (kfds (v_kern v3)) = set fds - {env_btdata env}"
proof -
  have op: "op_userial_open env v = (r, es, v1)" "op_userial_close exited v1 = (r1, es1, v2)"
    "op_userial_close exited (v2\<lparr>v_kern := (v_kern v2)\<lparr>kfds := fds\<rparr>\<rparr>) = (r2, es2, v3)"
    using assms(7,8,10) by simp_all
  note rel = userial_close_releases [OF userial_open_holds [OF assms(1,2) op(1)] op(2)]
  have new: "0 < env_btdata env" "env_btdata env \<notin> set (kfds (v_kern v))"
    using assms(2,6) by (auto simp: env_new_def dev_ids_def new_ids_def)
  have "v_btpw_fp v1 = env_btdata env"
    using op(1) assms(3-6)
    by (auto simp: op_userial_open_def open_uart_def skwbt_boot_open_def Let_def split: option.splits prod.splits if_splits)
  with rel(7) have btpw: "v_btpw_fp v2 = env_btdata env" by simp
  obtain ports k where close: "close_ports exited 0 (scomm_vnd (v_conf v2)) ((v_kern v2)\<lparr>kfds := fds\<rparr>) = (ports, k)" by fastforce
  have idle: "close_ports exited i ps k = (ps, k)" if "\<forall>p \<in> set ps. port_closed p" for i ps k
    using that by (induction ps arbitrary: i) (simp_all add: port_closed_def scomm_vendor_port_close_def)
  have "k = (v_kern v2)\<lparr>kfds := fds\<rparr>"
    using close idle [OF rel(4)] by simp
  moreover have "v_kern v3 = k_close_pos (env_btdata env) k"
    using op(3) rel(6) close btpw by (auto simp: op_userial_close_def scomm_vendor_close_def)
  ultimately have "set (kfds (v_kern v3)) = set fds - {env_btdata env}"
    using assms(9) new(1) by simp
  then show ?thesis
    using rel(1) new(2) by simp
qed


section \<open>Sample sessions\<close>

definition sample_vendor :: "byte \<Rightarrow> vendor" where
  "sample_vendor transtype =
     \<lparr>v_conf = \<lparr>skwbt_device_node = [], skwbt_transtype = transtype,
        scomm_vnd = map (\<lambda>p. p\<lparr>port_name := ''/dev/BT''\<rparr>) scomm_vendor_init\<rparr>,
      v_flags = \<lparr>skwdriverlog_en = False, skwbtuartonly = False, skwbtNoSleep = False\<rparr>,
      v_logs = sample_logs, v_kern = \<lparr>kfds = [3], kthreads = [], socket_object_fd = 0, dev_writes = []\<rparr>,
      btboot_fp = -1, v_btpw_fp = 0, v_cbacks = True, vnd_local_bd_addr = [], v_addr = addr_src_init,
      v_hw = \<lparr>state = HW_CFG_INIT, file_offset = 0, nv_fp = None, chip_version = SKW_CHIPID_6160\<rparr>\<rparr>"

text \<open>Everything succeeds, but the node of port 2 is missing.\<close>

definition sample_open :: open_env where
  "sample_open =
     \<lparr>env_boot = 4, env_btdata = 5, env_uart = 6, env_attrs = \<lparr>c_cflag = 0, c_ispeed = B0, c_ospeed = B0\<rparr>,
      env_dev = (\<lambda>i. if i = 2 then -1 else 10 * int i + 10),
      env_obs = (\<lambda>i. \<lparr>obs_uart = Some (10 * int i + 11, 10 * int i + 12), obs_signal = Some (10 * int i + 13, 10 * int i + 14),
        obs_epoll = 10 * int i + 15, obs_ctl_uart = True, obs_ctl_signal = True,
        obs_socket_thread = Some (2 * int i + 100), obs_uart_thread = Some (2 * int i + 101)\<rparr>)\<rparr>"

lemma sample_ports: "scomm_vnd (v_conf (sample_vendor t)) = replicate 4 (zero_scomm\<lparr>fd := -1, driver_state := False, mode := O_RDWR, port_name := ''/dev/BT''\<rparr>)"
  by (simp add: sample_vendor_def scomm_vendor_init_def BT_COM_PORT_SIZE_def map_replicate_const map_replicate)

lemma sample_closed: "transport_closed (sample_vendor t)"
  unfolding transport_closed_def sample_ports
  by (simp add: sample_vendor_def BT_COM_PORT_SIZE_def port_closed_def port_idle_def zero_scomm_def)

lemma sample_env_new: "env_new sample_open (sample_vendor t)"
  unfolding env_new_def sample_ports
  by (simp add: sample_open_def sample_vendor_def dev_ids_def obs_fds_def obs_threads_def new_ids_def numeral_eq_Suc)

theorem userial_open_result_witness:
  "\<exists>v'. vendor_op (BT_VND_OP_USERIAL_OPEN sample_open) (sample_vendor 0) =
     (1, [Fd_array 11, Property_set ''SKWBT.OPEN.STATE'' ''1''], v') \<and> skwbt_transtype (v_conf v') = SKWBT_TRANS_TYPE_SDIO"
proof -
  obtain r es v' where op: "vendor_op (BT_VND_OP_USERIAL_OPEN sample_open) (sample_vendor 0) = (r, es, v')" by (metis surj_pair)
  have uart: "skwbt_transtype (v_conf (sample_vendor 0)) AND SKWBT_TRANS_TYPE_UART = 0"
    by (simp add: sample_vendor_def)
  have jps: "length (reached sample_open 0 (scomm_vnd (v_conf (sample_vendor 0)))) = 2"
    "opened_fds sample_open (reached sample_open 0 (scomm_vnd (v_conf (sample_vendor 0)))) = [11, 21]"
    unfolding sample_ports
    by (simp_all add: numeral_eq_Suc reached_simps opened_fds_simps scomm_vendor_check_port_valid_def sample_open_def host_fd_def)
  from userial_open_result [OF uart op refl refl] jps op show ?thesis
    by (simp add: sample_open_def sample_vendor_def)
qed

theorem userial_close_gives_back_witness:
  "\<exists>r es v1 r' es' v2. vendor_op (BT_VND_OP_USERIAL_OPEN sample_open) (sample_vendor 0) = (r, es, v1) \<and>
     vendor_op (BT_VND_OP_USERIAL_CLOSE (\<lambda>i. False)) v1 = (r', es', v2) \<and> mset (kfds (v_kern v2)) = mset [3]"
proof -
  obtain r es v1 where op: "vendor_op (BT_VND_OP_USERIAL_OPEN sample_open) (sample_vendor 0) = (r, es, v1)" by (metis surj_pair)
  obtain r' es' v2 where cl: "vendor_op (BT_VND_OP_USERIAL_CLOSE (\<lambda>i. False)) v1 = (r', es', v2)" by (metis surj_pair)
  have "kfds (v_kern (sample_vendor 0)) = [3]" by (simp add: sample_vendor_def)
  with userial_close_gives_back [OF sample_closed sample_env_new op cl] op cl show ?thesis by metis
qed

theorem userial_close_stale_wakeup_witness:
  "\<exists>r es v1 r1 es1 v2 r2 es2 v3.
     vendor_op (BT_VND_OP_USERIAL_OPEN sample_open) (sample_vendor SKWBT_TRANS_TYPE_UART) = (r, es, v1) \<and>
     vendor_op (BT_VND_OP_USERIAL_CLOSE (\<lambda>i. False)) v1 = (r1, es1, v2) \<and> 5 \<notin> set (kfds (v_kern v2)) \<and>
     vendor_op (BT_VND_OP_USERIAL_CLOSE (\<lambda>i. False)) (v2\<lparr>v_kern := (v_kern v2)\<lparr>kfds := [3, 5]\<rparr>\<rparr>) = (r2, es2, v3) \<and>
     set (kfds (v_kern v3)) = {3}"
proof -
  let ?v = "sample_vendor SKWBT_TRANS_TYPE_UART"
  obtain r es v1 where op: "vendor_op (BT_VND_OP_USERIAL_OPEN sample_open) ?v = (r, es, v1)" by (metis surj_pair)
  obtain r1 es1 v2 where cl: "vendor_op (BT_VND_OP_USERIAL_CLOSE (\<lambda>i. False)) v1 = (r1, es1, v2)" by (metis surj_pair)
  obtain r2 es2 v3 where cl2: "vendor_op (BT_VND_OP_USERIAL_CLOSE (\<lambda>i. False)) (v2\<lparr>v_kern := (v_kern v2)\<lparr>kfds := [3, 5]\<rparr>\<rparr>) = (r2, es2, v3)"
    by (metis surj_pair)
  have conf: "skwbt_transtype (v_conf ?v) AND SKWBT_TRANS_TYPE_UART \<noteq> 0" "\<not> skwbtuartonly (v_flags ?v)"
    "0 \<le> env_boot sample_open" "0 \<le> env_btdata sample_open" "distinct [3, 5 :: int]" "env_btdata sample_open = 5"
    by (simp_all add: sample_vendor_def sample_open_def)
  have "set [3, 5 :: int] - {5} = {3}" by auto
  with userial_close_stale_wakeup [OF sample_closed sample_env_new conf(1-4) op cl conf(5) cl2] conf(6) op cl cl2 show ?thesis by metis
qed

end
