(* ===== verification/Bringup.thy ===== *)
theory Bringup
  imports Session Tx
begin

text \<open>
  The configuration of the controller on its way: what \<open>BT_VND_OP_FW_CFG\<close> and the callbacks behind it hand to
  the stack are commands of the host controller interface, and the socket thread takes all of them to
  the controller.
\<close>

section \<open>The commands as packets\<close>

lemma nv_group_fits:
  "t \<le> 252 \<Longrightarrow> t + length (concat (fst (nv_group t rs))) \<le> 252"
proof (induction t rs rule: nv_group.induct)
  case (2 t r rs)
  then show ?case by (cases "252 < t + length r") (simp_all add: add.assoc)
qed simp

lemma nv_groups_fit: "\<forall>g \<in> set (nv_groups rs). length (concat g) \<le> 252"
proof (induction rs rule: nv_groups.induct)
  case (1 rs)
  then show ?case
    using nv_group_fits [of 0 rs] by (subst nv_groups.simps) auto
qed

lemma length_nv_payload: "length (nv_payload a g) = length (concat g)"
  by (induction g) (simp_all add: nv_payload_def)

text \<open>The command with number \<open>off\<close> as a packet.\<close>

definition nv_message :: "byte \<Rightarrow> byte list \<Rightarrow> hci_packet" where
  "nv_message off payload = Hci_command 0x80 0xFC ([off, of_nat (length payload)] @ payload)"

fun nv_messages :: "byte \<Rightarrow> byte list list \<Rightarrow> hci_packet list" where
  "nv_messages off [] = []"
| "nv_messages off (p # ps) = nv_message off p # nv_messages (off + 1) ps"

lemma nv_message_encode: "hci_encode (nv_message off p) = 1 # nv_command off p"
proof -
  have "(of_nat (length ([off, of_nat (length p)] @ p)) :: byte) = of_nat (length p + 2)"
    by (rule arg_cong [of _ _ of_nat]) simp
  then show ?thesis
    unfolding nv_message_def nv_command_def hci_encode.simps by (simp add: u16_stream_def)
qed

lemma nv_messages_encode: "map hci_encode (nv_messages off ps) = map ((#) 1) (nv_commands off ps)"
  by (induction ps arbitrary: off) (simp_all add: nv_message_encode)

lemma nv_message_ok: "length p \<le> 252 \<Longrightarrow> tx_message (nv_message off p) \<and> is_command (nv_message off p)"
  unfolding tx_message_def nv_message_encode by (simp add: nv_message_def nv_command_def RECV_BUF_SIZE_def u16_stream_def)

lemma nv_messages_ok: "\<forall>p \<in> set ps. length p \<le> 252 \<Longrightarrow> \<forall>m \<in> set (nv_messages off ps). tx_message m \<and> is_command m"
  by (induction ps arbitrary: off) (simp_all add: nv_message_ok)

lemma command_channel: "is_command m \<Longrightarrow> hci_channel m = 0"
  by (cases m) simp_all

section \<open>To the controller\<close>

text \<open>
  C10: From \<open>BT_VND_OP_FW_CFG\<close> to the controller. For a 6316 and every NV file whose records fit, the reset, the
  question for the version and the patched records of the file leave as commands of the host controller
  interface. Behind their type byte, which the stack puts in front, the socket thread passes each of
  them whole and in order to the first channel, and with the last callback success is reported once.
\<close>

theorem config_reaches_controller:
  assumes "v_cbacks v" and "alloc_mem env \<noteq> None"
    and "cfg_session a c0 env1 e1 cs cn" and "le16 (e1 ! 7) (e1 ! 8) = SKW_CHIPID_6316"
    and "nv_6316 env1 = Some (hdr @ concat rs)" and "length hdr = 4" and "nv_fits rs"
    and "Suc (length cs) = length (nv_groups rs)"
    and "ms = Hci_command 3 0x0C [] # Hci_command 1 0x10 [] # nv_messages 0 (map (nv_payload a) (nv_groups rs))"
    and "length (recvSocketBuf st) = RECV_BUF_SIZE"
    and "good_events (map hci_encode ms) rest (concat (map (\<lambda>ret. case ret of None \<Rightarrow> [] | Some es \<Rightarrow> es) rets))"
  shows "\<exists>evs v' es hw' out st'.
    vendor_op (BT_VND_OP_FW_CFG env) v = (0, map Config_event evs, v') \<and>
    cfg_run (c0 # (env1, Some e1) # cs @ [cn]) (v_hw v') = Inr (es, hw') \<and>
    state hw' = HW_CFG_INIT \<and> cfg_results (evs @ es) = [True] \<and>
    map ((#) 1) (cfg_sent (evs @ es)) = map hci_encode ms \<and> (\<forall>m \<in> set ms. is_command m) \<and>
    concat (map (drop 6) (map hci_encode (drop 2 ms))) = concat (map (nv_patch a) rs) \<and>
    scomm_vendor_recv_socket_thread c (map (Pair True) rets) (concat (map ((#) 1) (cfg_sent (evs @ es))) @ rest) st =
      Inr (out, Some (rest, st', False)) \<and>
    tx_sent out = map (\<lambda>cmd. (0, 1 # cmd)) (cfg_sent (evs @ es))"
proof -
  let ?hw = "(hw_cfg_zero (chip_version (v_hw v)))\<lparr>state := HW_CFG_START\<rparr>"
  let ?evs = "[Cfg_alloc, Cfg_xmit HCI_RESET (u16_stream HCI_RESET @ [0])]"
  let ?ps = "map (nv_payload a) (nv_groups rs)"
  have op: "vendor_op (BT_VND_OP_FW_CFG env) v = (0, map Config_event ?evs, v\<lparr>v_hw := ?hw\<rparr>)"
    using assms(1,2) by (simp add: scomm_vendor_config_start_def Let_def)
  from config_6316_run [OF assms(3-8), of ?hw] obtain es hw' where run:
    "cfg_run (c0 # (env1, Some e1) # cs @ [cn]) ?hw = Inr (es, hw')" "state hw' = HW_CFG_INIT"
    "cfg_sent es = [1, 0x10, 0] # nv_commands 0 ?ps" "concat (map (drop 5) (tl (cfg_sent es))) = concat (map (nv_patch a) rs)"
    "cfg_results es = [True]" by auto
  have enc: "map ((#) 1) (cfg_sent (?evs @ es)) = map hci_encode ms"
    by (simp add: run(3) assms(9) nv_messages_encode u16_stream_def)
  have "\<forall>p \<in> set ?ps. length p \<le> 252"
    using nv_groups_fit by (simp add: length_nv_payload)
  from nv_messages_ok [OF this, of 0] have ms: "\<forall>m \<in> set ms. tx_message m" "\<forall>m \<in> set ms. is_command m"
    by (simp_all add: assms(9) tx_message_def RECV_BUF_SIZE_def)
  have tps: "\<forall>p \<in> set (map hci_encode ms). tx_packet p"
    unfolding set_map using ms(1) tx_message_packet by blast
  have "map (\<lambda>msg. (if tx_transtype c AND SKWBT_TRANS_TYPE_SDIO \<noteq> 0 then hci_channel msg else 0, hci_encode msg)) ms =
      map (Pair 0) (map hci_encode ms)"
    unfolding map_map using ms(2) command_channel by (intro map_cong) auto
  also have "\<dots> = map (\<lambda>cmd. (0, 1 # cmd)) (cfg_sent (?evs @ es))"
    unfolding enc [symmetric] by simp
  finally have sent: "map (\<lambda>msg. (if tx_transtype c AND SKWBT_TRANS_TYPE_SDIO \<noteq> 0 then hci_channel msg else 0, hci_encode msg)) ms =
      map (\<lambda>cmd. (0, 1 # cmd)) (cfg_sent (?evs @ es))" .
  from recv_socket_packets [OF assms(11) tps assms(10), of c, unfolded tx_delivers_encode [OF ms(1)] sent, folded enc]
  obtain out st' where thread: "scomm_vendor_recv_socket_thread c (map (Pair True) rets) (concat (map ((#) 1) (cfg_sent (?evs @ es))) @ rest) st =
      Inr (out, Some (rest, st', False))" "tx_sent out = map (\<lambda>cmd. (0, 1 # cmd)) (cfg_sent (?evs @ es))" by blast
  have "concat (map (drop 6) (map hci_encode (drop 2 ms))) = concat (map (drop 5) (tl (cfg_sent es)))"
    by (simp add: assms(9) nv_messages_encode run(3) o_def numeral_2_eq_2)
  then have records: "concat (map (drop 6) (map hci_encode (drop 2 ms))) = concat (map (nv_patch a) rs)"
    using run(4) by simp
  show ?thesis
    by (rule exI [of _ ?evs], rule exI [of _ "v\<lparr>v_hw := ?hw\<rparr>"], rule exI [of _ es], rule exI [of _ hw'], rule exI [of _ out],
        rule exI [of _ st'], intro conjI) (use op run enc ms(2) records thread in simp_all)
qed

theorem config_reaches_controller_witness:
  "\<exists>evs v' es hw' out st'.
     vendor_op (BT_VND_OP_FW_CFG sample_env) (sample_vendor 0) = (0, map Config_event evs, v') \<and>
     cfg_run [(sample_env, Some sample_reset), (sample_env, Some (sample_version 0x01 0x53)), (sample_env, Some sample_reset)] (v_hw v') =
       Inr (es, hw') \<and> cfg_results (evs @ es) = [True] \<and>
     scomm_vendor_recv_socket_thread sample_tx_conf
       [(True, Some [Object_event True [Rd_upto 0, Rd_upto 2] [(True, Wrote 4)], Null_event, Object_event True [Rd_upto 0, Rd_upto 2] [(True, Wrote 4)]]),
        (True, None), (True, Some [Object_event True [Rd_upto 0, Rd_upto 2, Rd_upto 300] [(True, Wrote 30), (True, Wrote 9)]])]
       (concat (map ((#) 1) (cfg_sent (evs @ es))) @ []) sample_tx_state = Inr (out, Some ([], st', False)) \<and>
     take 2 (tx_sent out) = [(0, [1, 3, 0x0C, 0]), (0, [1, 1, 0x10, 0])]"
proof -
  let ?rets = "[Some [Object_event True [Rd_upto 0, Rd_upto 2] [(True, Wrote 4)], Null_event, Object_event True [Rd_upto 0, Rd_upto 2] [(True, Wrote 4)]],
        None, Some [Object_event True [Rd_upto 0, Rd_upto 2, Rd_upto 300] [(True, Wrote 30), (True, Wrote 9)]]]"
  define ms where "ms = Hci_command 3 0x0C [] # Hci_command 1 0x10 [] # nv_messages 0 (map (nv_payload addr_src_init) (nv_groups sv6316_records))"
  have enc: "map hci_encode ms = [[1, 3, 0x0C, 0], [1, 1, 0x10, 0], [1, 0x80, 0xFC, 35, 0, 33] @ nv_payload addr_src_init sv6316_records]"
    "length (nv_payload addr_src_init sv6316_records) = 33"
    unfolding ms_def sv6316_groups(1) by (simp_all add: nv_payload_def nv_message_encode nv_command_def u16_stream_def sv6316_records_def)
  have v: "v_cbacks (sample_vendor 0)" "alloc_mem sample_env \<noteq> None"
    "le16 (sample_version 0x01 0x53 ! 7) (sample_version 0x01 0x53 ! 8) = SKW_CHIPID_6316"
    "nv_6316 sample_env = Some ([0x4E, 0x56, 0x44, 0x53] @ concat sv6316_records)" "length [0x4E, 0x56, 0x44, 0x53 :: byte] = 4"
    "Suc (length []) = length (nv_groups sv6316_records)"
    by (simp_all add: sample_vendor_def sample_env_def sample_version_def word_unat_eq_iff sv6316_groups)
  have buf: "length (recvSocketBuf sample_tx_state) = RECV_BUF_SIZE"
    by (simp add: sample_tx_state_def)
  have ev: "good_events (map hci_encode ms) [] (concat (map (\<lambda>ret. case ret of None \<Rightarrow> [] | Some es \<Rightarrow> es) ?rets))"
    unfolding enc(1) by (simp add: good_reads_def good_writes_def tx_payload_len_def le16_def enc(2))
  from config_reaches_controller [OF v(1,2) sample_session v(3-5) sv6316_groups(2) v(6) ms_def buf ev, of sample_tx_conf]
  obtain evs v' es hw' out st' where r:
    "vendor_op (BT_VND_OP_FW_CFG sample_env) (sample_vendor 0) = (0, map Config_event evs, v')"
    "cfg_run [(sample_env, Some sample_reset), (sample_env, Some (sample_version 0x01 0x53)), (sample_env, Some sample_reset)] (v_hw v') = Inr (es, hw')"
    "cfg_results (evs @ es) = [True]" "map ((#) 1) (cfg_sent (evs @ es)) = map hci_encode ms"
    "scomm_vendor_recv_socket_thread sample_tx_conf (map (Pair True) ?rets) (concat (map ((#) 1) (cfg_sent (evs @ es))) @ []) sample_tx_state =
       Inr (out, Some ([], st', False))"
    "tx_sent out = map (\<lambda>cmd. (0, 1 # cmd)) (cfg_sent (evs @ es))"
    unfolding append.simps by blast
  have "tx_sent out = map (Pair 0) (map ((#) 1) (cfg_sent (evs @ es)))"
    by (simp add: r(6))
  then have "take 2 (tx_sent out) = [(0, [1, 3, 0x0C, 0]), (0, [1, 1, 0x10, 0])]"
    unfolding r(4) enc(1) by (simp add: numeral_2_eq_2)
  with r(1-3,5) show ?thesis
    unfolding list.map by blast
qed

end
