(* ===== verification/Descriptors.thy ===== *)
theory Descriptors
  imports Vendor Threads BdAddr
begin

text \<open>
  The descriptors of the log files. The file system of \<open>Posix\<close> keeps the table of open descriptors, so what
  \<open>open\<close> and \<open>close\<close> really did is in it and not only in the variables \<open>hci_btsnoop_fd\<close> and \<open>skwlog_fp\<close>. The account: the
  table holds the descriptors of the rest of the process and, each once, those two where they are not -1. Every operation of the
  logs, every step of every thread and the address file keep it, so \<open>cleanup\<close> leaves nothing behind.
\<close>

section \<open>The table of open descriptors\<close>

definition px_fds :: "posix \<Rightarrow> int set" where
  "px_fds f = {d. fd_ino f d \<noteq> None}"

lemma px_stdio_fds: "px_stdio f \<longleftrightarrow> 0 \<in> px_fds f"
  by (simp add: px_stdio_def px_fds_def)

lemma px_fds_frame [simp]:
  "px_fds (f\<lparr>errno := e\<rparr>) = px_fds f" "px_fds (px_write d bs f) = px_fds f" "px_fds (px_remove p f) = px_fds f"
  "px_fds (snd (px_rename p q f)) = px_fds f" "px_fds (f\<lparr>inode := x\<rparr>) = px_fds f"
  by (auto simp: px_fds_def fd_ino_def px_write_def px_remove_def px_rename_def split: option.split)

lemma px_fds_renamed: "px_rename p q f = (r, f') \<Longrightarrow> px_fds f' = px_fds f"
  using px_fds_frame(4) [of p q f] by simp

lemma px_fds_close [simp]: "px_fds (px_close d f) = px_fds f - {d}"
  by (auto simp: px_fds_def fd_ino_close)

lemma px_fds_none [simp]: "-1 \<notin> px_fds f" "px_fds f - {-1} = px_fds f"
  by (simp_all add: px_fds_def fd_ino_def)

text \<open>What \<open>open\<close> hands out is the number -1, or one that was not in use and is in use from then on.\<close>

definition handed_out :: "posix \<Rightarrow> int \<Rightarrow> posix \<Rightarrow> bool" where
  "handed_out f d f' \<longleftrightarrow> d = -1 \<and> px_fds f' = px_fds f \<or> 0 < d \<and> d \<notin> px_fds f \<and> px_fds f' = insert d (px_fds f)"

lemma alloc_handed_out:
  assumes "fd_alloc (fdt f) x = (n, t)" "0 \<in> px_fds f" "fdt f' = t"
  shows "handed_out f (int n) f'"
proof -
  have "0 < n"
    using fd_alloc_positive [OF assms(1)] assms(2) by (simp add: px_stdio_fds [symmetric] px_stdio_hd)
  moreover have "int n \<notin> px_fds f"
    using fd_alloc_fresh [OF assms(1)] by (auto simp: px_fds_def fd_ino_def)
  moreover have "fd_ino f' d = (if d = int n then Some x else fd_ino f d)" for d
  proof (cases "d = int n")
    case True
    then show ?thesis using fd_alloc_get [OF assms(1)] assms(3) by (simp add: fd_ino_def)
  next
    case False
    then have "0 \<le> d \<Longrightarrow> nat d \<noteq> n" by auto
    then show ?thesis
      using fd_alloc_other [OF assms(1), of "nat d"] False assms(3) by (auto simp: fd_ino_def)
  qed
  then have "px_fds f' = insert (int n) (px_fds f)"
    by (auto simp: px_fds_def)
  ultimately show ?thesis by (simp add: handed_out_def)
qed

lemma open_read_handed_out: "px_open_read p f = (d, f') \<Longrightarrow> 0 \<in> px_fds f \<Longrightarrow> handed_out f d f'"
proof (cases rule: px_open_read_cases [of p f])
  case (opened i n t)
  then show "px_open_read p f = (d, f') \<Longrightarrow> 0 \<in> px_fds f \<Longrightarrow> ?thesis" using alloc_handed_out [OF opened(3), of "f\<lparr>fdt := t\<rparr>"] by auto
qed (auto simp: handed_out_def)

lemma open_append_handed_out: "px_open_append p f = (d, f') \<Longrightarrow> 0 \<in> px_fds f \<Longrightarrow> handed_out f d f'"
proof (cases rule: px_open_append_cases [of p f])
  case (existing i n t)
  then show "px_open_append p f = (d, f') \<Longrightarrow> 0 \<in> px_fds f \<Longrightarrow> ?thesis" using alloc_handed_out [OF existing(2), of "f\<lparr>fdt := t\<rparr>"] by auto
next
  case (created n t)
  then show "px_open_append p f = (d, f') \<Longrightarrow> 0 \<in> px_fds f \<Longrightarrow> ?thesis" using alloc_handed_out [OF created(2), of f'] by auto
qed (auto simp: handed_out_def)

lemma handed_out_frame: "px_fds f' = px_fds f1 \<Longrightarrow> handed_out f d f' = handed_out f d f1"
  by (simp add: handed_out_def)

lemma open_trunc_handed_out:
  assumes "px_open_trunc p f = (d, f')" "0 \<in> px_fds f"
  shows "handed_out f d f'"
proof -
  obtain f1 where op: "px_open_append p f = (d, f1)" and f': "px_fds f' = px_fds f1"
    using assms(1) unfolding px_open_trunc_def by (cases "px_open_append p f") (auto split: option.splits if_splits)
  show ?thesis
    using open_append_handed_out [OF op assms(2)] by (simp only: handed_out_frame [OF f'])
qed

text \<open>A look at a file gives its descriptor back.\<close>

lemma look_fds:
  assumes "px_look p f = (d, f')" "0 \<in> px_fds f"
  shows "0 < d \<Longrightarrow> px_fds f' - {d} = px_fds f" "\<not> 0 < d \<Longrightarrow> px_fds f' = px_fds f"
proof -
  have "handed_out f d f'"
  proof (cases "px_exists p f")
    case True
    then show ?thesis using assms open_read_handed_out [of p f d f'] by (simp add: px_look_def px_stat_def)
  next
    case False
    then show ?thesis using assms(1) by (auto simp: px_look_def px_stat_def handed_out_def)
  qed
  then show "0 < d \<Longrightarrow> px_fds f' - {d} = px_fds f" "\<not> 0 < d \<Longrightarrow> px_fds f' = px_fds f"
    unfolding handed_out_def by auto
qed

lemma addr_fds: "0 \<in> px_fds f \<Longrightarrow> px_fds (fst (skw_addr_gen_init p rnd f a)) = px_fds f"
proof -
  assume 0: "0 \<in> px_fds f"
  let ?p = "skw_addr_path p"
  obtain d f1 where rd: "px_open_read ?p f = (d, f1)" by (cases "px_open_read ?p f")
  obtain d2 f2 where tr: "px_open_trunc ?p f1 = (d2, f2)" by (cases "px_open_trunc ?p f1")
  obtain r0 r1 r2 where rnd: "rnd = (r0, r1, r2)" by (cases rnd)
  from open_read_handed_out [OF rd 0] consider "d = -1" "px_fds f1 = px_fds f"
    | "0 < d" "d \<notin> px_fds f" "px_fds f1 = insert d (px_fds f)"
    unfolding handed_out_def by blast
  then show ?thesis
  proof cases
    case 1
    then have "0 \<in> px_fds f1" using 0 by simp
    from open_trunc_handed_out [OF tr this] consider "d2 = -1" "px_fds f2 = px_fds f"
      | "0 < d2" "d2 \<notin> px_fds f" "px_fds f2 = insert d2 (px_fds f)"
      unfolding handed_out_def 1(2) by blast
    then show ?thesis
      by cases (simp_all add: skw_addr_gen_init_def Let_def rd tr rnd 1(1))
  next
    case 2
    then show ?thesis by (simp add: skw_addr_gen_init_def Let_def rd)
  qed
qed

section \<open>The account\<close>

text \<open>
  The descriptors the variables name, and the account over the descriptors \<open>K\<close> of the rest of the process. A log that is
  switched off is not open.
\<close>

definition log_fds :: "logs \<Rightarrow> int list" where
  "log_fds s = filter (\<lambda>d. d \<noteq> -1) [hci_btsnoop_fd s, skwlog_fp s]"

definition log_account :: "int set \<Rightarrow> logs \<Rightarrow> bool" where
  "log_account K s \<longleftrightarrow> 0 \<in> K \<and> distinct (log_fds s) \<and> set (log_fds s) \<inter> K = {} \<and>
     px_fds (fs s) = K \<union> set (log_fds s) \<and>
     (hci_btsnoop_fd s \<noteq> -1 \<longrightarrow> btsnoop_log_en s) \<and> (skwlog_fp s \<noteq> -1 \<longrightarrow> btcp_log_en s)"

text \<open>The parts of the state the account reads.\<close>

definition same_fds :: "logs \<Rightarrow> logs \<Rightarrow> bool" where
  "same_fds s s' \<longleftrightarrow> px_fds (fs s') = px_fds (fs s) \<and> hci_btsnoop_fd s' = hci_btsnoop_fd s \<and> skwlog_fp s' = skwlog_fp s \<and>
     btsnoop_log_en s' = btsnoop_log_en s \<and> btcp_log_en s' = btcp_log_en s"

lemma log_account_same: "same_fds s s' \<Longrightarrow> log_account K s' = log_account K s"
  by (simp add: same_fds_def log_account_def log_fds_def)

lemma log_account_stdio: "log_account K s \<Longrightarrow> 0 \<in> px_fds (fs s)"
  by (simp add: log_account_def)

lemma log_account_none:
  "hci_btsnoop_fd s = -1 \<Longrightarrow> skwlog_fp s = -1 \<Longrightarrow> log_account K s \<longleftrightarrow> 0 \<in> K \<and> px_fds (fs s) = K"
  by (auto simp: log_account_def log_fds_def)

text \<open>A new descriptor is entered; one that is closed is taken out.\<close>

lemma account_enter_skwlog:
  assumes "log_account K s" "skwlog_fp s = -1" "handed_out (fs s) d f" "btcp_log_en s"
  shows "log_account K (s\<lparr>fs := f, skwlog_fp := d\<rparr>)"
proof -
  from assms(3) consider "d = -1" "px_fds f = px_fds (fs s)" | "0 < d" "d \<notin> px_fds (fs s)" "px_fds f = insert d (px_fds (fs s))"
    unfolding handed_out_def by blast
  then show ?thesis
    using assms(1,2,4) by cases (auto simp: log_account_def log_fds_def)
qed

lemma account_enter_snoop:
  assumes "log_account K s" "hci_btsnoop_fd s = -1" "handed_out (fs s) d f" "btsnoop_log_en s"
  shows "log_account K (s\<lparr>fs := f, hci_btsnoop_fd := d\<rparr>)"
proof -
  from assms(3) consider "d = -1" "px_fds f = px_fds (fs s)" | "0 < d" "d \<notin> px_fds (fs s)" "px_fds f = insert d (px_fds (fs s))"
    unfolding handed_out_def by blast
  then show ?thesis
    using assms(1,2,4) by cases (auto simp: log_account_def log_fds_def)
qed

lemma account_close_skwlog:
  "log_account K s \<Longrightarrow> log_account K (s\<lparr>fs := px_close (skwlog_fp s) (fs s), skwlog_fp := -1\<rparr>)"
  by (cases "skwlog_fp s = -1"; cases "hci_btsnoop_fd s = -1") (use px_fds_none(1) [of "fs s"] in \<open>auto simp: log_account_def log_fds_def\<close>)

lemma account_close_snoop:
  "log_account K s \<Longrightarrow> log_account K (s\<lparr>fs := px_close (hci_btsnoop_fd s) (fs s), hci_btsnoop_fd := -1\<rparr>)"
  by (cases "hci_btsnoop_fd s = -1"; cases "skwlog_fp s = -1") (use px_fds_none(1) [of "fs s"] in \<open>auto simp: log_account_def log_fds_def\<close>)

section \<open>The CP log\<close>

lemma skwlog_prepare_fds:
  assumes "0 \<in> px_fds (fs s)"
  shows "same_fds s (fst (skwlog_prepare clk b s))"
proof -
  obtain d f1 where look: "px_look (skwlog_path s) (fs s) = (d, f1)" by (cases "px_look (skwlog_path s) (fs s)")
  show ?thesis
    using look_fds [OF look assms]
    by (cases "0 < d") (simp_all add: skwlog_prepare_def look Let_def same_fds_def)
qed

lemma skwlog_prepare_fp:
  "skwlog_prepare clk b (s\<lparr>skwlog_fp := d\<rparr>) = ((fst (skwlog_prepare clk b s))\<lparr>skwlog_fp := d\<rparr>, snd (skwlog_prepare clk b s))"
  by (simp add: skwlog_prepare_def Let_def split: prod.split)

lemma skwlog_open_fp: "btcp_log_en s \<Longrightarrow> skwlog_open clk b (s\<lparr>skwlog_fp := d\<rparr>) = skwlog_open clk b s"
  by (simp add: skwlog_open_def skwlog_prepare_fp split: prod.split)

lemma skwlog_open_account:
  assumes "log_account K s" "skwlog_fp s = -1"
  shows "log_account K (skwlog_open clk b s)"
proof (cases "btcp_log_en s")
  case True
  obtain s1 b1 where prep: "skwlog_prepare clk b s = (s1, b1)" by (cases "skwlog_prepare clk b s")
  have same: "same_fds s s1"
    using skwlog_prepare_fds [OF log_account_stdio [OF assms(1)], of clk b] prep by simp
  have s1: "log_account K s1" "skwlog_fp s1 = -1" "btcp_log_en s1"
    using assms True same log_account_same [OF same] by (simp_all add: same_fds_def)
  obtain d f where op: "px_open_append (skwlog_path s1) (fs s1) = (d, f)" by (cases "px_open_append (skwlog_path s1) (fs s1)")
  have "log_account K (s1\<lparr>fs := f, skwlog_fp := d\<rparr>)"
    by (rule account_enter_skwlog [OF s1(1,2) open_append_handed_out [OF op log_account_stdio [OF s1(1)]] s1(3)])
  moreover have "same_fds (s1\<lparr>fs := f, skwlog_fp := d\<rparr>) (skwlog_open clk b s)"
    using True by (simp add: skwlog_open_def prep op Let_def same_fds_def)
  ultimately show ?thesis by (simp only: log_account_same)
qed (use assms in \<open>simp add: skwlog_open_def\<close>)

lemma skwlog_locked_account:
  assumes "log_account K s"
  shows "log_account K (skwlog_locked clk p s)"
proof -
  let ?s1 = "s\<lparr>fs := px_write (skwlog_fp s) p (fs s), skwlog_rev_length := skwlog_rev_length s + of_nat (length p)\<rparr>"
  have "same_fds s ?s1" by (simp add: same_fds_def)
  with assms have 1: "log_account K ?s1" by (simp only: log_account_same)
  let ?s2 = "?s1\<lparr>skwlog_rev_length := 0, fs := px_close (skwlog_fp ?s1) (fs ?s1), skwlog_fp := -1\<rparr>"
  have "same_fds (?s1\<lparr>fs := px_close (skwlog_fp ?s1) (fs ?s1), skwlog_fp := -1\<rparr>) ?s2" by (simp add: same_fds_def)
  with account_close_skwlog [OF 1] have "log_account K ?s2" by (simp only: log_account_same)
  then have "log_account K (skwlog_open clk True ?s2)" by (rule skwlog_open_account) simp
  with 1 show ?thesis unfolding skwlog_locked_def Let_def by (simp only: if_splits) simp
qed

lemma skwlog_write_account: "log_account K s \<Longrightarrow> log_account K (skwlog_write clk p s)"
  by (simp add: skwlog_write_def skwlog_locked_account)

lemma skwlog_time_account: "log_account K s \<Longrightarrow> log_account K (skwlog_print_current_time clk s)"
  by (simp add: skwlog_print_current_time_def skwlog_write_account)

lemma skwlog_reopen_account:
  assumes "log_account K s"
  shows "log_account K (skwlog_reopen clk b s)"
proof -
  let ?s1 = "s\<lparr>skwlog_rev_length := 0\<rparr>"
  let ?s2 = "if skwlog_fp ?s1 \<noteq> -1 then ?s1\<lparr>fs := px_close (skwlog_fp ?s1) (fs ?s1)\<rparr> else ?s1"
  have 1: "log_account K ?s1"
    using assms log_account_same [of s ?s1 K] by (simp add: same_fds_def)
  have "log_account K (skwlog_open clk b ?s2)"
  proof (cases "skwlog_fp s = -1")
    case True
    then show ?thesis using skwlog_open_account [OF 1] by simp
  next
    case False
    then have "btcp_log_en s" using assms by (simp add: log_account_def)
    moreover have "log_account K (skwlog_open clk b (?s1\<lparr>fs := px_close (skwlog_fp ?s1) (fs ?s1), skwlog_fp := -1\<rparr>))"
      by (rule skwlog_open_account [OF account_close_skwlog [OF 1]]) simp
    ultimately show ?thesis
      using False skwlog_open_fp [of "?s1\<lparr>fs := px_close (skwlog_fp ?s1) (fs ?s1)\<rparr>" clk b "-1"] by simp
  qed
  then show ?thesis
    unfolding skwlog_reopen_def Let_def using skwlog_time_account by (simp only: split: if_split) simp
qed

lemma skwlog_init_account:
  assumes "log_account K s" "skwlog_fp s = -1"
  shows "log_account K (skwlog_init clk s)"
proof -
  let ?s1 = "s\<lparr>skwlog_fp := -1, skwlog_rev_length := 0, skwlog_cnts := 0\<rparr>"
  have 1: "log_account K ?s1"
    using assms log_account_same [of s ?s1 K] by (simp add: same_fds_def)
  have "log_account K (skwlog_open clk True ?s1)" by (rule skwlog_open_account [OF 1]) simp
  with 1 skwlog_time_account show ?thesis
    unfolding skwlog_init_def Let_def by (simp only: split: if_split) simp
qed

lemma skwlog_close_account:
  assumes "log_account K s"
  shows "log_account K (skwlog_close s)"
proof -
  have "same_fds (s\<lparr>fs := px_close (skwlog_fp s) (fs s), skwlog_fp := -1\<rparr>) (skwlog_close s)"
    by (simp add: same_fds_def skwlog_close_def)
  with account_close_skwlog [OF assms] show ?thesis by (simp only: log_account_same)
qed

section \<open>The snoop log\<close>

text \<open>The CP log never touches the snoop log's descriptor and switch.\<close>

lemma skwlog_prepare_other:
  "hci_btsnoop_fd (fst (skwlog_prepare clk b s)) = hci_btsnoop_fd s"
  "btsnoop_log_en (fst (skwlog_prepare clk b s)) = btsnoop_log_en s"
  by (simp_all add: skwlog_prepare_def Let_def split: prod.split)

lemma skwlog_open_other:
  "hci_btsnoop_fd (skwlog_open clk b s) = hci_btsnoop_fd s" "btsnoop_log_en (skwlog_open clk b s) = btsnoop_log_en s"
  using skwlog_prepare_other [of clk b s] by (cases "skwlog_prepare clk b s"; simp add: skwlog_open_def Let_def split: prod.split)+

lemma skwlog_reopen_other:
  "hci_btsnoop_fd (skwlog_reopen clk b s) = hci_btsnoop_fd s" "btsnoop_log_en (skwlog_reopen clk b s) = btsnoop_log_en s"
  by (simp_all add: skwlog_reopen_def Let_def skwlog_print_current_time_def skwlog_write_def skwlog_locked_def skwlog_open_other)

lemma skwlog_init_other: "hci_btsnoop_fd (skwlog_init clk s) = hci_btsnoop_fd s"
  by (simp add: skwlog_init_def Let_def skwlog_print_current_time_def skwlog_write_def skwlog_locked_def skwlog_open_other)

lemma skw_btsnoop_rotate_account:
  assumes "log_account K s" "skw_btsnoop_rotate clk s = (s', b)"
  shows "log_account K s'" "hci_btsnoop_fd s' = hci_btsnoop_fd s" "btsnoop_log_en s' = btsnoop_log_en s"
proof -
  define P where "P t \<longleftrightarrow> log_account K t \<and> hci_btsnoop_fd t = hci_btsnoop_fd s \<and> btsnoop_log_en t = btsnoop_log_en s" for t
  have keep: "P t" if "same_fds s t" for t
    using assms(1) log_account_same [OF that, of K] that by (simp add: same_fds_def P_def)
  have reopen: "P (skwlog_reopen clk c t)" if "same_fds s t" for c t
    using skwlog_reopen_account [of K t clk c] keep [OF that] by (simp add: P_def skwlog_reopen_other)
  obtain d f1 where look: "px_look (skw_btsnoop_path s) (fs s) = (d, f1)" by (cases "px_look (skw_btsnoop_path s) (fs s)")
  note fds = look_fds [OF look log_account_stdio [OF assms(1)]]
  consider (unsaved) "\<not> btsnoop_save_log s" | (new) "btsnoop_save_log s" "\<not> 0 < d"
    | (big) "btsnoop_save_log s" "0 < d" "skwlog_slice s" "c_int (px_size d f1) > 1024 * 1024 * 1024"
    | (small) "btsnoop_save_log s" "0 < d" "skwlog_slice s" "\<not> c_int (px_size d f1) > 1024 * 1024 * 1024"
    | (dated) "btsnoop_save_log s" "0 < d" "\<not> skwlog_slice s" by blast
  then have "P s'"
  proof cases
    case unsaved
    then show ?thesis
      using assms(2) by (auto simp: skw_btsnoop_rotate_def same_fds_def intro!: keep)
  next
    case new
    then show ?thesis
      using assms(2) fds(2) reopen [of "s\<lparr>fs := f1\<rparr>"] keep [of "s\<lparr>fs := f1\<rparr>"]
      by (cases "skwlog_slice s") (auto simp: skw_btsnoop_rotate_def look same_fds_def)
  next
    case big
    let ?s1 = "s\<lparr>fs := px_close d f1\<rparr>" and ?p = "skw_btsnoop_path s"
    obtain r f2 where ren: "px_rename ?p (btsnoop_last_path ?s1) (px_remove (btsnoop_last_path ?s1) (fs ?s1)) = (r, f2)"
      by (cases "px_rename ?p (btsnoop_last_path ?s1) (px_remove (btsnoop_last_path ?s1) (fs ?s1))")
    have "same_fds s (?s1\<lparr>fs := f2\<rparr>)"
      using px_fds_renamed [OF ren] fds(1) big(2) by (simp add: same_fds_def)
    moreover have "s' = ?s1\<lparr>fs := f2\<rparr> \<or> s' = skwlog_reopen clk True (?s1\<lparr>fs := f2\<rparr>)"
      using assms(2) big ren by (simp add: skw_btsnoop_rotate_def look Let_def split: if_splits)
    ultimately show ?thesis using keep reopen by metis
  next
    case small
    let ?s2 = "s\<lparr>fs := px_close d f1, btsnoop_rev_length := word_of_int (c_int (px_size d f1))\<rparr>"
    have "same_fds s ?s2" using fds(1) small(2) by (simp add: same_fds_def)
    moreover have "s' = skwlog_reopen clk (c_int (px_size d f1) \<le> 16) ?s2"
      using assms(2) small by (simp add: skw_btsnoop_rotate_def look Let_def)
    ultimately show ?thesis using reopen by metis
  next
    case dated
    let ?s1 = "s\<lparr>fs := px_close d f1\<rparr>"
    let ?s2 = "?s1\<lparr>fs := snd (px_rename (skw_btsnoop_path s) (btsnoop_dated_path clk ?s1) (fs ?s1)), btsnoop_cnts := btsnoop_cnts ?s1 + 1\<rparr>"
    have "same_fds s ?s1" "same_fds s ?s2" using fds(1) dated(2) by (simp_all add: same_fds_def)
    moreover have "s' = ?s2 \<or> s' = ?s1"
      using assms(2) dated by (simp add: skw_btsnoop_rotate_def look Let_def split: if_splits)
    ultimately show ?thesis using keep by metis
  qed
  then show "log_account K s'" "hci_btsnoop_fd s' = hci_btsnoop_fd s" "btsnoop_log_en s' = btsnoop_log_en s"
    by (simp_all add: P_def)
qed

lemma skw_btsnoop_open_account:
  assumes "log_account K s"
  shows "log_account K (skw_btsnoop_open clk s)"
proof -
  let ?s0 = "s\<lparr>btsnoop_rev_length := 0\<rparr>"
  have 0: "log_account K ?s0"
    using assms log_account_same [of s ?s0 K] by (simp add: same_fds_def)
  show ?thesis
  proof (cases "hci_btsnoop_fd s \<noteq> -1 \<or> \<not> btsnoop_log_en s")
    case True
    then show ?thesis using 0 by (simp add: skw_btsnoop_open_def)
  next
    case False
    obtain s1 b where rot: "skw_btsnoop_rotate clk ?s0 = (s1, b)" by (cases "skw_btsnoop_rotate clk ?s0")
    note r = skw_btsnoop_rotate_account [OF 0 rot]
    obtain d f where op: "px_open_append (skw_btsnoop_path s1) (fs s1) = (d, f)" by (cases "px_open_append (skw_btsnoop_path s1) (fs s1)")
    have en: "hci_btsnoop_fd s1 = -1" "btsnoop_log_en s1" using False r(2,3) by simp_all
    have entered: "log_account K (s1\<lparr>fs := f, hci_btsnoop_fd := d\<rparr>)"
      by (rule account_enter_snoop [OF r(1) en(1) open_append_handed_out [OF op log_account_stdio [OF r(1)]] en(2)])
    show ?thesis
    proof (cases b)
      case None
      then show ?thesis using False rot r(1) by (simp add: skw_btsnoop_open_def)
    next
      case (Some new_file)
      then have "same_fds (s1\<lparr>fs := f, hci_btsnoop_fd := d\<rparr>) (skw_btsnoop_open clk s)"
        using False rot op by (simp add: skw_btsnoop_open_def same_fds_def)
      with entered show ?thesis by (simp only: log_account_same)
    qed
  qed
qed

lemma skw_btsnoop_init_account: "log_account K s \<Longrightarrow> log_account K (skw_btsnoop_init clk s)"
  unfolding skw_btsnoop_init_def using log_account_same [of s "s\<lparr>btsnoop_cnts := 0\<rparr>" K]
  by (intro skw_btsnoop_open_account) (simp add: same_fds_def)

lemma skw_btsnoop_write_account: "log_account K s \<Longrightarrow> log_account K (skw_btsnoop_write bs s)"
  using log_account_same [of s "skw_btsnoop_write bs s" K] by (simp add: same_fds_def skw_btsnoop_write_def)

lemma skw_btsnoop_close_account:
  assumes "log_account K s"
  shows "log_account K (skw_btsnoop_close s)"
proof -
  have "same_fds (s\<lparr>fs := px_close (hci_btsnoop_fd s) (fs s), hci_btsnoop_fd := -1\<rparr>) (skw_btsnoop_close s)"
    by (simp add: same_fds_def skw_btsnoop_close_def)
  with account_close_snoop [OF assms] show ?thesis by (simp only: log_account_same)
qed

section \<open>The threads, and the library\<close>

text \<open>Every step of a thread keeps the account, the two steps of a rotation included; so does every schedule.\<close>

lemma thread_step_account:
  assumes "log_account K (shared m)" "thread_step i m = Inr m'"
  shows "log_account K (shared m')"
proof -
  let ?s = "shared m"
  have rev: "log_account K (?s\<lparr>btsnoop_rev_length := r\<rparr>)" for r
    using assms(1) log_account_same [of ?s "?s\<lparr>btsnoop_rev_length := r\<rparr>" K] by (simp add: same_fds_def)
  note steps = assms(1) rev skwlog_locked_account [OF assms(1)] skw_btsnoop_write_account [OF assms(1)]
    account_close_snoop [OF assms(1)] skw_btsnoop_open_account [OF assms(1)]
  show ?thesis
    using assms(2) steps unfolding thread_step_def Let_def
    by (cases "pc (threads m ! i)")
      (auto split: if_splits list.splits log_op.splits sum.splits option.splits prod.splits)
qed

lemma run_threads_account: "run_threads sched m = Inr m' \<Longrightarrow> log_account K (shared m) \<Longrightarrow> log_account K (shared m')"
proof (induction sched m rule: run_threads.induct)
  case (2 i sched m)
  then show ?case by (auto split: sum.splits intro: thread_step_account)
qed simp

lemma stack_conf_fds:
  assumes "load_skwbt_stack_conf conf_file (s, f) = Inr (s', f')"
  shows "fs s' = fs s" "hci_btsnoop_fd s' = hci_btsnoop_fd s" "skwlog_fp s' = skwlog_fp s"
proof -
  have "fs s' = fs s \<and> hci_btsnoop_fd s' = hci_btsnoop_fd s \<and> skwlog_fp s' = skwlog_fp s"
  proof (cases conf_file)
    case (Some content)
    then show ?thesis
      using assms switch_loop_switched [of "conf_lines content" "(s, f)"] conf_lines_short [of _ content]
      by (auto simp: load_skwbt_stack_conf_def switched_def)
  qed (use assms in \<open>simp add: load_skwbt_stack_conf_def\<close>)
  then show "fs s' = fs s" "hci_btsnoop_fd s' = hci_btsnoop_fd s" "skwlog_fp s' = skwlog_fp s" by simp_all
qed

text \<open>A library whose logs are closed, in a process that has descriptor 0 open.\<close>

definition logs_closed :: "logs \<Rightarrow> bool" where
  "logs_closed s \<longleftrightarrow> 0 \<in> px_fds (fs s) \<and> hci_btsnoop_fd s = -1 \<and> skwlog_fp s = -1"

text \<open>\<open>init\<close> starts the account, whatever is on disk and whichever opens fail; \<open>cleanup\<close> ends it.\<close>

lemma vendor_init_account:
  assumes "logs_closed (v_logs v)" "vendor_init conf_file clk1 clk2 rnd True local_bdaddr v = Inr (r, v')"
  shows "log_account (px_fds (fs (v_logs v))) (v_logs v')"
proof -
  let ?K = "px_fds (fs (v_logs v))"
  obtain s f where stack: "load_skwbt_stack_conf conf_file (v_logs v, v_flags v) = Inr (s, f)"
    using assms(2) by (auto simp: vendor_init_def split: sum.splits)
  note c = stack_conf_fds [OF stack]
  have fp: "skwlog_fp s = -1" and "log_account ?K s"
    using assms(1) log_account_none [of s ?K] c by (simp_all add: logs_closed_def)
  note 1 = skwlog_init_account [OF this(2,1), of clk1]
  let ?s2 = "if btsnoop_log_en (skwlog_init clk1 s) then skw_btsnoop_init clk2 (skwlog_init clk1 s) else skwlog_init clk1 s"
  have 2: "log_account ?K ?s2"
    using 1 skw_btsnoop_init_account [OF 1, of clk2] by simp
  have "v_logs v' = ?s2\<lparr>fs := fst (skw_addr_gen_init (skw_btsnoop_path ?s2) rnd (fs ?s2) (v_addr v))\<rparr>"
    using assms(2) stack by (auto simp: vendor_init_def Let_def split: sum.splits prod.splits)
  then have "same_fds ?s2 (v_logs v')"
    using addr_fds [OF log_account_stdio [OF 2]] by (simp add: same_fds_def)
  with 2 show ?thesis by (simp only: log_account_same)
qed

lemma vendor_cleanup_account:
  assumes "log_account K (v_logs v)"
  shows "px_fds (fs (v_logs (vendor_cleanup v))) = K" "hci_btsnoop_fd (v_logs (vendor_cleanup v)) = -1"
    "skwlog_fp (v_logs (vendor_cleanup v)) = -1" "\<not> btsnoop_log_en (v_logs (vendor_cleanup v))"
proof -
  let ?s1 = "if btsnoop_log_en (v_logs v) then skw_btsnoop_close (v_logs v) else v_logs v"
  have 1: "log_account K ?s1"
    using assms skw_btsnoop_close_account [OF assms] by simp
  have h: "hci_btsnoop_fd ?s1 = -1"
    using assms by (auto simp: log_account_def skw_btsnoop_close_def)
  have eq: "v_logs (vendor_cleanup v) = (skwlog_close ?s1)\<lparr>btsnoop_log_en := False\<rparr>"
    by (simp add: vendor_cleanup_def Let_def)
  have e: "hci_btsnoop_fd (skwlog_close ?s1) = -1" "skwlog_fp (skwlog_close ?s1) = -1"
    using h by (simp_all add: skwlog_close_def)
  from log_account_none [OF e] skwlog_close_account [OF 1] have "px_fds (fs (skwlog_close ?s1)) = K" by simp
  with e show "px_fds (fs (v_logs (vendor_cleanup v))) = K" "hci_btsnoop_fd (v_logs (vendor_cleanup v)) = -1"
    "skwlog_fp (v_logs (vendor_cleanup v)) = -1" "\<not> btsnoop_log_en (v_logs (vendor_cleanup v))"
    unfolding eq by simp_all
qed

end
