(* ===== verification/Startup.thy ===== *)
theory Startup
  imports Descriptors
begin

text \<open>
  From \<open>init\<close> to \<open>cleanup\<close>: what \<open>init\<close> of \<open>bt_vendor_skw.c\<close> makes of the logs on a system where their files do not exist
  yet, whichever modes the configuration sets, what is on disk when the traffic of all threads has been
  logged and \<open>cleanup\<close> has closed them, and that the process has the descriptors it had before.
\<close>

section \<open>The CP log\<close>

text \<open>Opening the CP log and writing the time packet, where the file does not exist.\<close>

definition skwlog_started :: "clock \<Rightarrow> logs \<Rightarrow> logs" where
  "skwlog_started clk s = skwlog_print_current_time clk (skwlog_open clk True s)"

lemma skwlog_started_fresh:
  assumes "btcp_log_en s" "cplog_inv s" "px_content (fs s) (skwlog_path s) = None" "skwlog_rev_length s = 0"
  shows "cplog_step s (skwlog_started clk s)" "0 < skwlog_fp (skwlog_started clk s)"
    "px_content (fs (skwlog_started clk s)) = (px_content (fs s))(skwlog_path s \<mapsto> skwlog_header @ skwlog_time_packet clk)"
    "unat (skwlog_rev_length (skwlog_started clk s)) = 12" "0 < skwlog_fp (skwlog_open clk True s)"
proof -
  let ?o = "skwlog_open clk True s"
  have ok: "cplog_ok s" using assms(2) by (simp add: cplog_inv_def)
  note o = skwlog_open_fresh [OF assms(1) ok assms(3), of clk True]
  note st = skwlog_open_step [OF cplog_inv_ready [OF assms(2)] assms(1), of clk True]
  show "cplog_step s (skwlog_started clk s)"
    using cplog_step_trans [OF st(1) skwlog_write_step [OF cplog_stepD(9) [OF st(1)]]]
    by (simp add: skwlog_started_def skwlog_print_current_time_def)
  have frame: "skwlog_path ?o = skwlog_path s" "btcp_log_en ?o" "skwlog_rev_length ?o = 0"
    using assms(1,4) skwlog_prepare_missing [OF assms(3), of clk True]
    by (simp_all add: skwlog_open_def Let_def split: prod.split)
  have lim: "unat (skwlog_rev_length ?o) + length (concat [skwlog_time_packet clk]) < unat SKWLOG_LIMIT"
    by (simp add: frame skwlog_time_packet_def SKWLOG_LIMIT_def)
  have c: "px_content (fs ?o) (skwlog_path ?o) = Some skwlog_header"
    by (simp add: o(1) frame)
  have eq: "skwlog_started clk s = ?o\<lparr>fs := px_write (skwlog_fp ?o) (skwlog_time_packet clk) (fs ?o),
      skwlog_rev_length := skwlog_rev_length ?o + of_nat (length (skwlog_time_packet clk))\<rparr>"
    using skwlog_write_all [OF o(2,3) frame(2) c lim, of clk] by (simp add: skwlog_started_def skwlog_print_current_time_def)
  show "0 < skwlog_fp (skwlog_started clk s)" "0 < skwlog_fp ?o"
    using o(3) by (simp_all add: eq)
  have "px_ok (fs ?o)" "px_linked (fs ?o) (skwlog_fp ?o) (skwlog_path ?o)"
    using o(2,3) by (simp_all add: cplog_ok_def)
  from px_write_content [OF this c]
  show "px_content (fs (skwlog_started clk s)) = (px_content (fs s))(skwlog_path s \<mapsto> skwlog_header @ skwlog_time_packet clk)"
    by (simp add: eq o(1) frame)
  show "unat (skwlog_rev_length (skwlog_started clk s)) = 12"
    by (simp add: eq frame skwlog_time_packet_def)
qed

lemma skwlog_init_started:
  assumes "btcp_log_en s" "cplog_inv (s\<lparr>skwlog_fp := -1, skwlog_rev_length := 0, skwlog_cnts := 0\<rparr>)"
    "px_content (fs s) (skwlog_path s) = None"
  shows "skwlog_init clk s =
    (if \<not> btsnoop_save_log s \<or> \<not> skwlog_slice s
     then skwlog_started clk (s\<lparr>skwlog_fp := -1, skwlog_rev_length := 0, skwlog_cnts := 0\<rparr>)
     else s\<lparr>skwlog_fp := -1, skwlog_rev_length := 0, skwlog_cnts := 0\<rparr>)"
  using assms skwlog_started_fresh(5) [OF _ assms(2)] by (simp add: skwlog_init_def Let_def skwlog_started_def)

lemma skwlog_reopen_started:
  assumes "skwlog_fp s = -1" "btcp_log_en s" "cplog_inv s" "px_content (fs s) (skwlog_path s) = None" "skwlog_rev_length s = 0"
  shows "skwlog_reopen clk True s = skwlog_started clk s"
proof -
  have "s\<lparr>skwlog_rev_length := 0\<rparr> = s" using assms(5) by simp
  then show ?thesis
    using assms(1) skwlog_started_fresh(5) [OF assms(2-5), of clk]
    unfolding skwlog_reopen_def Let_def by (simp only: skwlog_started_def if_True simp_thms if_False)
qed

section \<open>Both logs\<close>

lemma px_rename_missing: "px_content f p = None \<Longrightarrow> px_rename p q f = (-1, f\<lparr>errno := ENOENT\<rparr>)"
  by (simp add: px_rename_def px_content_def split: option.splits)

text \<open>The start of the logging state: neither file exists, and the logs share no path.\<close>

definition logs_fresh :: "logs \<Rightarrow> bool" where
  "logs_fresh s \<longleftrightarrow> px_ok (fs s) \<and> px_stdio (fs s) \<and> \<not> denied (fs s) (skw_btsnoop_path s) \<and> \<not> denied (fs s) (skwlog_path s) \<and>
     hci_btsnoop_fd s = -1 \<and> btsnoop_log_en s \<and> btcp_log_en s \<and>
     px_content (fs s) (skw_btsnoop_path s) = None \<and> px_content (fs s) (skwlog_path s) = None \<and>
     snoop_files s \<inter> skwlog_files s = {}"

text \<open>
  \<open>skw_btsnoop_init\<close> without a snoop file: the header is written, and with slicing and saving the CP log is
  started here.
\<close>

lemma skw_btsnoop_init_fresh:
  assumes "snoop_ready s" "hci_btsnoop_fd s = -1" "btsnoop_log_en s" "px_content (fs s) (skw_btsnoop_path s) = None"
    and t_def: "t = s\<lparr>btsnoop_cnts := 0, btsnoop_rev_length := 0, fs := (fs s)\<lparr>errno := ENOENT\<rparr>\<rparr>"
  shows "skw_btsnoop_init clk s = snoop_finish (if btsnoop_save_log s \<and> skwlog_slice s then skwlog_reopen clk True t else t, Some True)"
    "snoop_ready t"
proof -
  let ?s = "s\<lparr>btsnoop_cnts := 0, btsnoop_rev_length := 0\<rparr>"
  have keep: "fs_keeps (snoop_files s) (fs s) ((fs s)\<lparr>errno := ENOENT\<rparr>)"
    using snoop_ready_fsD(1,2) [OF assms(1)] by (rule fs_keeps_errno)
  have rdy: "snoop_ready (s\<lparr>fs := (fs s)\<lparr>errno := ENOENT\<rparr>, btsnoop_cnts := 0\<rparr>)"
    by (rule snoop_ready_keeps(2) [OF assms(1) keep])
  have "t = (s\<lparr>fs := (fs s)\<lparr>errno := ENOENT\<rparr>, btsnoop_cnts := 0\<rparr>)\<lparr>fs := (fs s)\<lparr>errno := ENOENT\<rparr>, btsnoop_rev_length := 0\<rparr>"
    by (simp add: t_def)
  then show "snoop_ready t"
    using snoop_ready_keeps(3) [OF rdy fs_keeps_refl [OF snoop_ready_fsD(1,2) [OF rdy]], of 0] by simp
  have "skw_btsnoop_rotate clk ?s = (if btsnoop_save_log s \<and> skwlog_slice s then skwlog_reopen clk True t else t, Some True)"
    using assms(4) by (simp add: skw_btsnoop_rotate_def px_look_missing px_rename_missing t_def Let_def)
  then show "skw_btsnoop_init clk s = snoop_finish (if btsnoop_save_log s \<and> skwlog_slice s then skwlog_reopen clk True t else t, Some True)"
    using skw_btsnoop_open_eq [of "s\<lparr>btsnoop_cnts := 0\<rparr>" clk] assms(2,3) by (simp add: skw_btsnoop_init_def)
qed

lemma snoop_finish_logs:
  assumes "snoop_ready u" "btsnoop_log_en u" "px_content (fs u) (skw_btsnoop_path u) = None" "btsnoop_rev_length u = 0"
    "btcp_log_en u" "0 < skwlog_fp u" "px_content (fs u) (skwlog_path u) = Some c" "unat (skwlog_rev_length u) = 12"
    and "n < unat SNOOP_LIMIT" "12 + m < unat SKWLOG_LIMIT"
  shows "logs_open (snoop_finish (u, Some True)) btsnoop_header c n m"
    "skw_btsnoop_path (snoop_finish (u, Some True)) = skw_btsnoop_path u" "skwlog_path (snoop_finish (u, Some True)) = skwlog_path u"
proof -
  note fin = snoop_finish_open [OF assms(1,2), of True]
  have ne: "skwlog_path u \<noteq> skw_btsnoop_path u"
    using snoop_path_not_skwlog [OF assms(1) snoop_names(1)] skwlog_names_files(1) [of u] by metis
  have frame: "skw_btsnoop_path (snoop_finish (u, Some True)) = skw_btsnoop_path u"
    "skwlog_path (snoop_finish (u, Some True)) = skwlog_path u" "skwlog_fp (snoop_finish (u, Some True)) = skwlog_fp u"
    "btcp_log_en (snoop_finish (u, Some True)) = btcp_log_en u"
    "btsnoop_rev_length (snoop_finish (u, Some True)) = btsnoop_rev_length u"
    "skwlog_rev_length (snoop_finish (u, Some True)) = skwlog_rev_length u"
    by (simp_all add: snoop_finish_def split: prod.split)
  then show "skw_btsnoop_path (snoop_finish (u, Some True)) = skw_btsnoop_path u" "skwlog_path (snoop_finish (u, Some True)) = skwlog_path u"
    by simp_all
  show "logs_open (snoop_finish (u, Some True)) btsnoop_header c n m"
    using assms(3-10) fin(1,2,4) ne unfolding logs_open_def frame by simp
qed

text \<open>Initialisation of both logs: whichever modes are set, each file is started with its own header.\<close>

lemma logs_started:
  assumes fresh: "logs_fresh s" and n: "n < unat SNOOP_LIMIT" "12 + m < unat SKWLOG_LIMIT"
  shows "\<exists>clk. logs_open (skw_btsnoop_init clk2 (skwlog_init clk1 s)) btsnoop_header (skwlog_header @ skwlog_time_packet clk) n m \<and>
    clk = (if btsnoop_save_log s \<and> skwlog_slice s then clk2 else clk1) \<and> btsnoop_log_en (skwlog_init clk1 s) \<and>
    skw_btsnoop_path (skw_btsnoop_init clk2 (skwlog_init clk1 s)) = skw_btsnoop_path s \<and>
    skwlog_path (skw_btsnoop_init clk2 (skwlog_init clk1 s)) = skwlog_path s \<and>
    denied (fs (skw_btsnoop_init clk2 (skwlog_init clk1 s))) = denied (fs s)"
proof -
  let ?s0 = "s\<lparr>skwlog_fp := -1, skwlog_rev_length := 0, skwlog_cnts := 0\<rparr>" and ?s1 = "skwlog_init clk1 s"
  let ?t = "?s1\<lparr>btsnoop_cnts := 0, btsnoop_rev_length := 0, fs := (fs ?s1)\<lparr>errno := ENOENT\<rparr>\<rparr>"
  note f = fresh [unfolded logs_fresh_def]
  have inv0: "cplog_inv ?s0"
    using f by (simp add: cplog_inv_def cplog_ok_def)
  have paths0: "skwlog_path ?s0 = skwlog_path s" "skwlog_files ?s0 = skwlog_files s"
    by (simp_all add: skwlog_files_def)
  have ne: "skw_btsnoop_path s \<notin> skwlog_files s" "skwlog_path s \<noteq> skw_btsnoop_path s"
    using f skwlog_names_files(1) [of s] snoop_names(1) [of s] by (metis disjoint_iff)+
  have init: "?s1 = (if \<not> (btsnoop_save_log s \<and> skwlog_slice s) then skwlog_started clk1 ?s0 else ?s0)"
    using skwlog_init_started [OF _ inv0] f by simp
  have "cplog_step s ?s1"
    using f by (intro skwlog_init_step) (simp add: cplog_ready_def)
  note st = cplog_stepD [OF this]
  have sf: "skwlog_files ?s1 = skwlog_files s" "snoop_files ?s1 = snoop_files s" "skwlog_path ?s1 = skwlog_path s"
    by (simp_all add: skwlog_files_def snoop_files_def skwlog_path_def st)
  have rdy1: "snoop_ready ?s1"
    using f st(9) fs_keepsD(3) [OF st(10)] by (simp add: snoop_ready_def sf st)
  have c1: "px_content (fs ?s1) (skw_btsnoop_path s) = None"
    using fs_keepsD(4) [OF st(10) ne(1)] f by simp
  have en: "btsnoop_log_en ?s1" "btcp_log_en ?s1" "hci_btsnoop_fd ?s1 = -1" "btsnoop_save_log ?s1 = btsnoop_save_log s"
    "skwlog_slice ?s1 = skwlog_slice s" "skw_btsnoop_path ?s1 = skw_btsnoop_path s"
    using f st by simp_all
  have "px_content (fs ?s1) (skw_btsnoop_path ?s1) = None" using c1 by (simp add: en)
  note snoop = skw_btsnoop_init_fresh(1) [OF rdy1 en(3,1) this refl, of clk2] skw_btsnoop_init_fresh(2) [OF rdy1 en(3,1) this refl]
  have t: "skwlog_path ?t = skwlog_path s" "skw_btsnoop_path ?t = skw_btsnoop_path s"
    using sf en by (simp_all add: skwlog_path_def)
  have "snoop_inv (?s1\<lparr>btsnoop_cnts := 0\<rparr>)"
    using snoop_ready_keeps(2) [OF rdy1 fs_keeps_refl [OF snoop_ready_fsD(1,2) [OF rdy1]], of 0] en(3) by (simp add: snoop_inv_def)
  from skw_btsnoop_open_step [OF this, of clk2] have "denied (fs (skw_btsnoop_init clk2 ?s1)) = denied (fs ?s1)"
    unfolding snoop_step_def skw_btsnoop_init_def by (auto dest: fs_keepsD(3))
  then have den: "denied (fs (skw_btsnoop_init clk2 ?s1)) = denied (fs s)"
    using fs_keepsD(3) [OF st(10)] by simp
  show ?thesis
  proof (cases "btsnoop_save_log s \<and> skwlog_slice s")
    case True
    then have s1: "?s1 = ?s0" using init by simp
    have inv: "cplog_inv ?t" using snoop(2) by (simp add: snoop_ready_def)
    have pre: "btcp_log_en ?t" "px_content (fs ?t) (skwlog_path ?t) = None" "skwlog_rev_length ?t = 0" "skwlog_fp ?t = -1"
      using f unfolding t by (simp_all add: s1)
    note started = skwlog_started_fresh [OF pre(1) inv pre(2,3), of clk2]
    have u: "skwlog_reopen clk2 True ?t = skwlog_started clk2 ?t"
      by (rule skwlog_reopen_started [OF pre(4,1) inv pre(2,3)])
    note su = cplog_stepD [OF started(1)]
    let ?u = "skwlog_started clk2 ?t"
    have up: "skwlog_path ?u = skwlog_path s" "skw_btsnoop_path ?u = skw_btsnoop_path s"
      using su t by (simp_all add: skwlog_path_def)
    have "snoop_ready ?u" by (rule snoop_ready_step [OF snoop(2) started(1)])
    moreover have "px_content (fs ?u) (skw_btsnoop_path ?u) = None"
      "px_content (fs ?u) (skwlog_path ?u) = Some (skwlog_header @ skwlog_time_packet clk2)"
      using started(3) c1 ne(2) unfolding up t by simp_all
    ultimately have "logs_open (snoop_finish (?u, Some True)) btsnoop_header (skwlog_header @ skwlog_time_packet clk2) n m"
      "skw_btsnoop_path (snoop_finish (?u, Some True)) = skw_btsnoop_path s" "skwlog_path (snoop_finish (?u, Some True)) = skwlog_path s"
      using snoop_finish_logs [of ?u _ n m] started(2,4) su en n up by simp_all
    then show ?thesis using snoop(1) True en u den by simp
  next
    case False
    then have s1: "?s1 = skwlog_started clk1 ?s0" using init by simp
    have "btcp_log_en ?s0" "px_content (fs ?s0) (skwlog_path ?s0) = None" "skwlog_rev_length ?s0 = 0"
      using f unfolding paths0 by simp_all
    note started = skwlog_started_fresh [OF this(1) inv0 this(2,3), of clk1, folded s1]
    have "px_content (fs ?t) (skw_btsnoop_path ?t) = None"
      "px_content (fs ?t) (skwlog_path ?t) = Some (skwlog_header @ skwlog_time_packet clk1)"
      using started(3) c1 unfolding t paths0 by simp_all
    with snoop_finish_logs [of ?t _ n m] snoop(2) started(2,4) en n have
      "logs_open (snoop_finish (?t, Some True)) btsnoop_header (skwlog_header @ skwlog_time_packet clk1) n m"
      "skw_btsnoop_path (snoop_finish (?t, Some True)) = skw_btsnoop_path ?t" "skwlog_path (snoop_finish (?t, Some True)) = skwlog_path ?t"
      by simp_all
    then show ?thesis using snoop(1) False en den unfolding t by auto
  qed
qed

section \<open>The address beside the logs\<close>

lemma addr_keeps:
  assumes "px_ok f" "px_stdio f" "\<not> denied f (skw_addr_path p)"
  shows "fs_keeps {skw_addr_path p} f (fst (skw_addr_gen_init p rnd f a))"
proof (cases "px_content f (skw_addr_path p)")
  case None
  let ?p = "skw_addr_path p" and ?f1 = "f\<lparr>errno := ENOENT\<rparr>"
  have rd: "px_open_read ?p f = (-1, ?f1)"
    using None by (simp add: px_open_read_def px_content_def)
  have f1: "px_ok ?f1" "px_stdio ?f1" "\<not> denied ?f1 ?p" "px_content ?f1 ?p = None"
    using assms None by simp_all
  obtain d f2 where op: "px_open_append ?p ?f1 = (d, f2)"
    by (cases "px_open_append ?p ?f1")
  have d: "0 < d" "px_linked f2 d ?p"
    using px_open_append_stdio [OF f1(2,3)] px.opn_linked [OF f1(1), of ?p] op by simp_all
  obtain r0 r1 r2 where rnd: "rnd = (r0, r1, r2)" by (cases rnd)
  let ?lap = "map of_nat [r0, r1, r2] :: byte list"
  have eq: "fst (skw_addr_gen_init p rnd f a) = px_close d (px_write d ?lap f2)"
    using rd op d(1) f1(4) by (simp add: skw_addr_gen_init_def Let_def px_open_trunc_missing rnd)
  have k1: "fs_keeps {?p} f ?f1" using assms(1,2) by (rule fs_keeps_errno)
  have k2: "fs_keeps {?p} ?f1 f2" using fs_keeps_open_append [OF f1(1-3), of "{?p}"] op by simp
  note ok2 = fs_keepsD(1,2) [OF k2]
  have k3: "fs_keeps {?p} f2 (px_write d ?lap f2)" using fs_keeps_write [OF ok2 d(2)] by simp
  have k4: "fs_keeps {?p} (px_write d ?lap f2) (px_close d (px_write d ?lap f2))"
    using fs_keeps_close [OF fs_keepsD(1,2) [OF k3] _ _ d(1)] d(2) px.wr_linked by simp
  show ?thesis
    unfolding eq by (rule fs_keeps_trans [OF fs_keeps_trans [OF fs_keeps_trans [OF k1 k2] k3] k4])
next
  case (Some lap)
  obtain d f1 where op: "px_open_read (skw_addr_path p) f = (d, f1)"
    by (cases "px_open_read (skw_addr_path p) f")
  have d: "0 < d" using px_open_read_stdio [OF assms(2,3)] Some op by simp
  have eq: "fst (skw_addr_gen_init p rnd f a) = px_close d f1"
    using op d by (simp add: skw_addr_gen_init_def Let_def)
  from px_peek_keeps [OF assms(1,2) op d] show ?thesis
    unfolding eq by (rule fs_keeps_mono) simp
qed

text \<open>Open logs stay open while other files change.\<close>

lemma logs_open_keeps:
  assumes "logs_open s trace c n m" "fs_keeps P (fs s) f" "P \<inter> (snoop_files s \<union> skwlog_files s) = {}"
  shows "logs_open (s\<lparr>fs := f\<rparr>) trace c n m"
proof -
  note o = logs_openD [OF assms(1)]
  have out: "skw_btsnoop_path s \<notin> P" "skwlog_path s \<notin> P"
    using assms(3) snoop_names(1) skwlog_names_files(1) by (metis Int_iff Un_iff empty_iff)+
  note k = fs_keepsD(1-3) [OF assms(2)] fs_keepsD(4,5) [OF assms(2) out(1)] fs_keepsD(4,5) [OF assms(2) out(2)]
  have "cplog_inv (s\<lparr>fs := f\<rparr>)"
    using o(3) k by (auto simp: cplog_inv_def cplog_ok_def)
  then have "snoop_inv (s\<lparr>fs := f\<rparr>)"
    using o(1) k by (auto simp: snoop_inv_def snoop_ready_def)
  then show ?thesis
    using assms(1) k by (simp add: logs_open_def)
qed

section \<open>A session\<close>

text \<open>
  The state \<open>init\<close> starts from, as the configuration leaves it: no log open or on disk, and the address file, which lies
  beside the snoop file, may be written and is not one of the logs.
\<close>

definition fresh_start :: "logs \<Rightarrow> bool" where
  "fresh_start s \<longleftrightarrow> logs_fresh s \<and> skwlog_fp s = -1 \<and> \<not> denied (fs s) (skw_addr_path (skw_btsnoop_path s)) \<and>
     skw_addr_path (skw_btsnoop_path s) \<notin> snoop_files s \<union> skwlog_files s"

text \<open>
  \<open>init\<close> after the logs have been opened, whatever was on disk before: the address is read or made, and the logs stay open.
\<close>

lemma vendor_init_open:
  assumes "load_skwbt_conf conf_file ((v_conf v)\<lparr>scomm_vnd := scomm_vendor_init\<rparr>) = Inr c"
    "load_skwbt_stack_conf conf_file (v_logs v, v_flags v) = Inr (s, f)"
    and o: "logs_open (skw_btsnoop_init clk2 (skwlog_init clk1 s)) trace cp n m" "btsnoop_log_en (skwlog_init clk1 s)"
      "skw_btsnoop_path (skw_btsnoop_init clk2 (skwlog_init clk1 s)) = skw_btsnoop_path s"
      "skwlog_path (skw_btsnoop_init clk2 (skwlog_init clk1 s)) = skwlog_path s"
      "denied (fs (skw_btsnoop_init clk2 (skwlog_init clk1 s))) = denied (fs s)"
    and addr: "\<not> denied (fs s) (skw_addr_path (skw_btsnoop_path s))"
      "skw_addr_path (skw_btsnoop_path s) \<notin> snoop_files s \<union> skwlog_files s"
  shows "\<exists>v'. vendor_init conf_file clk1 clk2 rnd True local_bdaddr v = Inr (0, v') \<and> logs_open (v_logs v') trace cp n m \<and>
    skw_btsnoop_path (v_logs v') = skw_btsnoop_path s \<and> skwlog_path (v_logs v') = skwlog_path s"
proof -
  let ?s2 = "skw_btsnoop_init clk2 (skwlog_init clk1 s)"
  let ?g = "skw_addr_gen_init (skw_btsnoop_path ?s2) rnd (fs ?s2) (v_addr v)"
  let ?v' = "v\<lparr>v_conf := c, v_flags := f, v_logs := ?s2\<lparr>fs := fst ?g\<rparr>, v_cbacks := True,
      vnd_local_bd_addr := take 6 local_bdaddr, v_addr := snd ?g\<rparr>"
  have init: "vendor_init conf_file clk1 clk2 rnd True local_bdaddr v = Inr (0, ?v')"
    using assms(1,2) o(2) by (simp add: vendor_init_def Let_def split: prod.split)
  note oo = logs_openD [OF o(1)]
  have same: "snoop_files ?s2 = snoop_files s" "skwlog_files ?s2 = skwlog_files s"
    using o(3) by (simp_all add: snoop_files_def skwlog_files_def)
  have "fs_keeps {skw_addr_path (skw_btsnoop_path ?s2)} (fs ?s2) (fst ?g)"
    using addr(1) o(3,5) by (intro addr_keeps [OF oo(4,5)]) simp
  from logs_open_keeps [OF o(1) this] addr(2) have "logs_open (v_logs ?v') trace cp n m"
    unfolding o(3) same by simp
  with init o(3,4) show ?thesis
    by (intro exI [of _ ?v']) simp
qed

lemma vendor_init_logs:
  assumes "load_skwbt_conf conf_file ((v_conf v)\<lparr>scomm_vnd := scomm_vendor_init\<rparr>) = Inr c"
    "load_skwbt_stack_conf conf_file (v_logs v, v_flags v) = Inr (s, f)"
    "fresh_start s" "n < unat SNOOP_LIMIT" "12 + m < unat SKWLOG_LIMIT"
  shows "\<exists>v' clk. vendor_init conf_file clk1 clk2 rnd True local_bdaddr v = Inr (0, v') \<and>
    logs_open (v_logs v') btsnoop_header (skwlog_header @ skwlog_time_packet clk) n m \<and>
    clk = (if btsnoop_save_log s \<and> skwlog_slice s then clk2 else clk1) \<and>
    skw_btsnoop_path (v_logs v') = skw_btsnoop_path s \<and> skwlog_path (v_logs v') = skwlog_path s"
proof -
  have fr: "logs_fresh s" and addr: "\<not> denied (fs s) (skw_addr_path (skw_btsnoop_path s))"
    "skw_addr_path (skw_btsnoop_path s) \<notin> snoop_files s \<union> skwlog_files s"
    using assms(3) by (simp_all add: fresh_start_def)
  from logs_started [OF fr assms(4,5), of clk2 clk1] obtain clk where
    o: "logs_open (skw_btsnoop_init clk2 (skwlog_init clk1 s)) btsnoop_header (skwlog_header @ skwlog_time_packet clk) n m"
    "clk = (if btsnoop_save_log s \<and> skwlog_slice s then clk2 else clk1)" "btsnoop_log_en (skwlog_init clk1 s)"
    "skw_btsnoop_path (skw_btsnoop_init clk2 (skwlog_init clk1 s)) = skw_btsnoop_path s"
    "skwlog_path (skw_btsnoop_init clk2 (skwlog_init clk1 s)) = skwlog_path s"
    "denied (fs (skw_btsnoop_init clk2 (skwlog_init clk1 s))) = denied (fs s)"
    by blast
  from vendor_init_open [OF assms(1,2) o(1,3-6) addr] o(2) show ?thesis by blast
qed

text \<open>The threads and \<open>cleanup\<close>, from open logs on: what was in the files stays, the records and packets are added.\<close>

lemma session_ends:
  assumes "\<forall>ops \<in> set opss. \<forall>cap \<in> set (captures ops). snoop_complete cap"
    and o: "logs_open (v_logs v) trace cp (length (concat (map snoop_sent (concat (map captures opss)))))
      (length (concat (concat (map cp_writes opss))))"
    and "snoop_parse trace = Some recs"
  shows "\<exists>m. run_threads sched (machine_start (v_logs v) opss) = Inr m \<and>
    (machine_done m \<longrightarrow>
      (\<exists>e trace' rs w. e = v_logs (vendor_cleanup (v\<lparr>v_logs := shared m\<rparr>)) \<and>
        hci_btsnoop_fd e = -1 \<and> skwlog_fp e = -1 \<and> \<not> btsnoop_log_en e \<and>
        px_content (fs e) (skw_btsnoop_path (v_logs v)) = Some trace' \<and> snoop_parse trace' = Some (recs @ map snd rs) \<and>
        px_content (fs e) (skwlog_path (v_logs v)) = Some (cp @ concat (map snd w)) \<and>
        (\<forall>i < length opss. of_thread i rs = map snoop_rec (captures (opss ! i)) \<and> of_thread i w = cp_writes (opss ! i)) \<and>
        (\<forall>x \<in> set rs. fst x < length opss) \<and> (\<forall>x \<in> set w. fst x < length opss)))"
proof -
  from threads_run [OF assms(1) o assms(3), of sched] obtain m where
    m: "run_threads sched (machine_start (v_logs v) opss) = Inr m"
    "machine_done m \<longrightarrow> threads_logged (v_logs v) recs cp opss m" by blast
  let ?e = "v_logs (vendor_cleanup (v\<lparr>v_logs := shared m\<rparr>))"
  from run_threads_inv [OF machine_inv_start [OF o] assms(1), of sched] m(1) have "btsnoop_log_en (shared m)"
    by (auto simp: machine_inv_def dest: logs_openD(8))
  then have e: "hci_btsnoop_fd ?e = -1" "skwlog_fp ?e = -1" "\<not> btsnoop_log_en ?e" "px_content (fs ?e) = px_content (fs (shared m))"
    by (simp_all add: vendor_cleanup_def skw_btsnoop_close_def skwlog_close_def Let_def px_close_content)
  have "\<exists>e trace' rs w. e = ?e \<and> hci_btsnoop_fd e = -1 \<and> skwlog_fp e = -1 \<and> \<not> btsnoop_log_en e \<and>
      px_content (fs e) (skw_btsnoop_path (v_logs v)) = Some trace' \<and> snoop_parse trace' = Some (recs @ map snd rs) \<and>
      px_content (fs e) (skwlog_path (v_logs v)) = Some (cp @ concat (map snd w)) \<and>
      (\<forall>i < length opss. of_thread i rs = map snoop_rec (captures (opss ! i)) \<and> of_thread i w = cp_writes (opss ! i)) \<and>
      (\<forall>x \<in> set rs. fst x < length opss) \<and> (\<forall>x \<in> set w. fst x < length opss)" if "machine_done m"
    using m(2) [rule_format, OF that] e
    unfolding threads_logged_def e(4) [symmetric] by (elim exE conjE) (intro exI conjI; (rule refl | assumption))
  with m(1) show ?thesis by blast
qed

text \<open>
  C2: A session from \<open>init\<close> to \<open>cleanup\<close>, on a system without log files, whichever modes the configuration sets.
  \<open>init\<close> succeeds and opens both logs; the threads log their packets in any interleaving, without a fault. If they are
  through when \<open>cleanup\<close> is called, it leaves a snoop file that parses to one whole record for each
  capture, those of each thread in its order, and a CP log made up of its header, the time packet and the
  packets written. Both logs are closed: the process has exactly the open descriptors it had before \<open>init\<close>, so each one the
  session opened, the address file's and those of files only looked at included, has been closed. The time is the one of the CP log's own
  start, or of the snoop log's if saving and slicing are both on. Conditions: the captured packets are whole, and both logs stay below
  the sizes at which they are rotated.
\<close>

theorem session_logged:
  assumes "load_skwbt_conf conf_file ((v_conf v)\<lparr>scomm_vnd := scomm_vendor_init\<rparr>) = Inr c"
    and "load_skwbt_stack_conf conf_file (v_logs v, v_flags v) = Inr (s, f)"
    and "fresh_start s"
    and "\<forall>ops \<in> set opss. \<forall>cap \<in> set (captures ops). snoop_complete cap"
    and "length (concat (map snoop_sent (concat (map captures opss)))) < unat SNOOP_LIMIT"
    and "12 + length (concat (concat (map cp_writes opss))) < unat SKWLOG_LIMIT"
  shows "\<exists>v' m. vendor_init conf_file clk1 clk2 rnd True local_bdaddr v = Inr (0, v') \<and>
    run_threads sched (machine_start (v_logs v') opss) = Inr m \<and>
    (machine_done m \<longrightarrow>
      (\<exists>e trace rs w. e = v_logs (vendor_cleanup (v'\<lparr>v_logs := shared m\<rparr>)) \<and>
        px_fds (fs e) = px_fds (fs (v_logs v)) \<and> hci_btsnoop_fd e = -1 \<and> skwlog_fp e = -1 \<and> \<not> btsnoop_log_en e \<and>
        px_content (fs e) (skw_btsnoop_path s) = Some trace \<and> snoop_parse trace = Some (map snd rs) \<and>
        px_content (fs e) (skwlog_path s) =
          Some (skwlog_header @ skwlog_time_packet (if btsnoop_save_log s \<and> skwlog_slice s then clk2 else clk1) @ concat (map snd w)) \<and>
        (\<forall>i < length opss. of_thread i rs = map snoop_rec (captures (opss ! i)) \<and> of_thread i w = cp_writes (opss ! i)) \<and>
        (\<forall>x \<in> set rs. fst x < length opss) \<and> (\<forall>x \<in> set w. fst x < length opss)))"
proof -
  from vendor_init_logs [OF assms(1-3,5,6), of clk1 clk2 rnd local_bdaddr] obtain v' clk where i:
    "vendor_init conf_file clk1 clk2 rnd True local_bdaddr v = Inr (0, v')"
    "logs_open (v_logs v') btsnoop_header (skwlog_header @ skwlog_time_packet clk)
       (length (concat (map snoop_sent (concat (map captures opss))))) (length (concat (concat (map cp_writes opss))))"
    "clk = (if btsnoop_save_log s \<and> skwlog_slice s then clk2 else clk1)"
    "skw_btsnoop_path (v_logs v') = skw_btsnoop_path s" "skwlog_path (v_logs v') = skwlog_path s" by blast
  have "logs_closed (v_logs v)"
    using assms(3) stack_conf_fds [OF assms(2)] by (simp add: logs_closed_def fresh_start_def logs_fresh_def px_stdio_fds)
  note acc = vendor_init_account [OF this i(1)]
  have fds: "px_fds (fs (v_logs (vendor_cleanup (v'\<lparr>v_logs := shared m\<rparr>)))) = px_fds (fs (v_logs v))"
    if "run_threads sched (machine_start (v_logs v') opss) = Inr m" for m
    using run_threads_account [OF that] acc
    by (intro vendor_cleanup_account(1)) (simp add: machine_start_def)
  from session_ends [OF assms(4) i(2) snoop_parse_header, of sched, unfolded i(3-5) append.simps append_assoc] obtain m where
    m: "run_threads sched (machine_start (v_logs v') opss) = Inr m"
    "machine_done m \<longrightarrow>
      (\<exists>e trace rs w. e = v_logs (vendor_cleanup (v'\<lparr>v_logs := shared m\<rparr>)) \<and>
        hci_btsnoop_fd e = -1 \<and> skwlog_fp e = -1 \<and> \<not> btsnoop_log_en e \<and>
        px_content (fs e) (skw_btsnoop_path s) = Some trace \<and> snoop_parse trace = Some (map snd rs) \<and>
        px_content (fs e) (skwlog_path s) =
          Some (skwlog_header @ skwlog_time_packet (if btsnoop_save_log s \<and> skwlog_slice s then clk2 else clk1) @ concat (map snd w)) \<and>
        (\<forall>i < length opss. of_thread i rs = map snoop_rec (captures (opss ! i)) \<and> of_thread i w = cp_writes (opss ! i)) \<and>
        (\<forall>x \<in> set rs. fst x < length opss) \<and> (\<forall>x \<in> set w. fst x < length opss))" by blast
  with i(1) fds [OF m(1)] show ?thesis by metis
qed

section \<open>Witness\<close>

text \<open>Before the start: the logs enabled, nothing on disk, the configuration file missing.\<close>

definition unstarted :: vendor where
  "unstarted =
     \<lparr>v_conf = \<lparr>skwbt_device_node = [], skwbt_transtype = 0, scomm_vnd = []\<rparr>,
      v_flags = \<lparr>skwdriverlog_en = False, skwbtuartonly = False, skwbtNoSleep = False\<rparr>,
      v_logs = (sample_snoop [] False (-1))\<lparr>
        fs := \<lparr>dir = Map.empty, inode = (\<lambda>i. []), next_ino = 1, fdt = [Some 0], errno = 0, denied = (\<lambda>p. False)\<rparr>, btcp_log_en := True\<rparr>,
      v_kern = \<lparr>kfds = [3], kthreads = [], socket_object_fd = 0, dev_writes = []\<rparr>,
      btboot_fp = -1, v_btpw_fp = 0, v_cbacks = False, vnd_local_bd_addr = [], v_addr = addr_src_init,
      v_hw = \<lparr>state = HW_CFG_INIT, file_offset = 0, nv_fp = None, chip_version = SKW_CHIPID_6160\<rparr>\<rparr>"

lemma unstarted_dir: "log_dir ''/d/b'' = ''/d''"
  by (simp add: log_dir_def is_separator_def eval_nat_numeral)

lemma unstarted_path: "skw_btsnoop_path (v_logs unstarted) = ''/d/b''" "skwlog_path (v_logs unstarted) = ''/d/skwlog.log''"
  by (simp_all add: unstarted_def sample_snoop_def skwlog_path_def unstarted_dir)

lemma unstarted_fresh: "fresh_start (v_logs unstarted)"
proof -
  have "px_ok (fs (v_logs unstarted))"
    by (rule px_okI) (auto simp: unstarted_def split: if_splits)
  moreover have "px_stdio (fs (v_logs unstarted))"
    by (simp add: unstarted_def px_stdio_def fd_ino_def)
  moreover have "snoop_files (v_logs unstarted) \<inter> skwlog_files (v_logs unstarted) = {}"
    "skw_addr_path ''/d/b'' \<notin> snoop_files (v_logs unstarted) \<union> skwlog_files (v_logs unstarted)"
    by (auto simp: snoop_files_def skwlog_files_def unstarted_path unstarted_dir skw_addr_path_def)
  ultimately show ?thesis
    unfolding fresh_start_def logs_fresh_def unstarted_path
    by (simp add: unstarted_def sample_snoop_def px_content_def)
qed

lemma unstarted_fds: "px_fds (fs (v_logs unstarted)) = {0}"
  by (auto simp: px_fds_def fd_ino_def unstarted_def split: if_splits)

theorem session_logged_witness:
  "\<exists>v' m e trace rs w. vendor_init None sample_clock sample_clock (1, 2, 3) True [1, 2, 3, 4, 5, 6] unstarted = Inr (0, v') \<and>
     run_threads (concat sample_rounds) (machine_start (v_logs v') sample_ops) = Inr m \<and> machine_done m \<and>
     e = v_logs (vendor_cleanup (v'\<lparr>v_logs := shared m\<rparr>)) \<and> px_fds (fs e) = {0} \<and> hci_btsnoop_fd e = -1 \<and> skwlog_fp e = -1 \<and>
     px_content (fs e) ''/d/b'' = Some trace \<and> snoop_parse trace = Some (map snd rs) \<and>
     px_content (fs e) ''/d/skwlog.log'' = Some (skwlog_header @ skwlog_time_packet sample_clock @ concat (map snd w)) \<and>
     map snoop_payload (of_thread 0 rs) = [[4, 0x0E, 1, 0]] \<and> map snoop_payload (of_thread 1 rs) = [[1, 3, 0x0C, 0]] \<and>
     of_thread 0 w = [[7, 0, 1, 0, 0xAA]]"
proof -
  let ?n = "length (concat (map snoop_sent (concat (map captures sample_ops))))" and ?k = "length (concat (concat (map cp_writes sample_ops)))"
  obtain c where conf: "load_skwbt_conf None ((v_conf unstarted)\<lparr>scomm_vnd := scomm_vendor_init\<rparr>) = Inr c"
    by (simp add: load_skwbt_conf_def node_strcpy_def store_def BT_COM_PORT_SIZE_def DEVICE_NODE_MAX_LEN_def)
  have stack: "load_skwbt_stack_conf None (v_logs unstarted, v_flags unstarted) = Inr (v_logs unstarted, v_flags unstarted)"
    by (simp add: load_skwbt_stack_conf_def)
  have lim: "?n < unat SNOOP_LIMIT" "12 + ?k < unat SKWLOG_LIMIT"
    by (simp_all add: sample_ops_def snoop_extent_def packet_at_def SNOOP_LIMIT_def SKWLOG_LIMIT_def)
  note hyp = conf stack unstarted_fresh
  from session_logged [OF hyp sample_ops_fit(1) lim, of sample_clock sample_clock "(1, 2, 3)" "[1, 2, 3, 4, 5, 6]" "concat sample_rounds"]
  obtain v' m where s: "vendor_init None sample_clock sample_clock (1, 2, 3) True [1, 2, 3, 4, 5, 6] unstarted = Inr (0, v')"
    "run_threads (concat sample_rounds) (machine_start (v_logs v') sample_ops) = Inr m"
    and fin: "machine_done m \<longrightarrow>
      (\<exists>e trace rs w. e = v_logs (vendor_cleanup (v'\<lparr>v_logs := shared m\<rparr>)) \<and>
        px_fds (fs e) = px_fds (fs (v_logs unstarted)) \<and> hci_btsnoop_fd e = -1 \<and> skwlog_fp e = -1 \<and> \<not> btsnoop_log_en e \<and>
        px_content (fs e) ''/d/b'' = Some trace \<and> snoop_parse trace = Some (map snd rs) \<and>
        px_content (fs e) ''/d/skwlog.log'' = Some (skwlog_header @ skwlog_time_packet sample_clock @ concat (map snd w)) \<and>
        (\<forall>i < length sample_ops. of_thread i rs = map snoop_rec (captures (sample_ops ! i)) \<and> of_thread i w = cp_writes (sample_ops ! i)) \<and>
        (\<forall>x \<in> set rs. fst x < length sample_ops) \<and> (\<forall>x \<in> set w. fst x < length sample_ops))"
    unfolding unstarted_path if_cancel by blast
  from vendor_init_logs [OF hyp lim, of sample_clock sample_clock "(1, 2, 3)" "[1, 2, 3, 4, 5, 6]"] s(1)
  have "logs_open (v_logs v') btsnoop_header (skwlog_header @ skwlog_time_packet sample_clock) ?n ?k"
    by auto
  from start_finishes [OF sample_ops_fit(1) this sample_ops_fit(3,4)] s(2) have m: "machine_done m" by simp
  from fin [rule_format, OF m] obtain e trace rs w where
    r: "e = v_logs (vendor_cleanup (v'\<lparr>v_logs := shared m\<rparr>))" "px_fds (fs e) = {0}" "hci_btsnoop_fd e = -1" "skwlog_fp e = -1"
    "px_content (fs e) ''/d/b'' = Some trace" "snoop_parse trace = Some (map snd rs)"
    "px_content (fs e) ''/d/skwlog.log'' = Some (skwlog_header @ skwlog_time_packet sample_clock @ concat (map snd w))"
    "\<forall>i < length sample_ops. of_thread i rs = map snoop_rec (captures (sample_ops ! i)) \<and> of_thread i w = cp_writes (sample_ops ! i)"
    unfolding unstarted_fds by blast
  note payloads = sample_ops_logged [OF r(8)]
  show ?thesis
    by (intro exI [of _ v'] exI [of _ m] exI [of _ e] exI [of _ trace] exI [of _ rs] exI [of _ w] conjI) (rule s m r payloads)+
qed

end
