(* ===== verification/Resume.thy ===== *)
theory Resume
  imports Startup
begin

text \<open>
  A session after another: with slicing and saving, \<open>init\<close> goes on with the log files the previous process has left, and
  what they hold is kept.
\<close>

section \<open>The CP log goes on\<close>

lemma skwlog_look_existing:
  assumes "cplog_inv s" "px_content (fs s) (skwlog_path s) = Some c"
  obtains d f1 where "px_look (skwlog_path s) (fs s) = (d, f1)" "0 < d" "px_size d f1 = length c"
    "px_ok (px_close d f1)" "px_stdio (px_close d f1)" "denied (px_close d f1) = denied (fs s)"
    "px_content (px_close d f1) = px_content (fs s)"
proof -
  have ok: "px_ok (fs s)" "px_stdio (fs s)" "\<not> denied (fs s) (skwlog_path s)"
    using assms(1) by (simp_all add: cplog_inv_def cplog_ok_def)
  obtain d f1 where look: "px_look (skwlog_path s) (fs s) = (d, f1)"
    by (cases "px_look (skwlog_path s) (fs s)")
  then have op: "px_open_read (skwlog_path s) (fs s) = (d, f1)"
    using px_look_found [OF assms(2)] by simp
  note peek = px_peek [OF ok assms(2) op]
  show ?thesis
    by (rule that [OF look peek(1-4) peek(6,5)])
qed

text \<open>The CP log is opened again: what it holds stays, and its size is the byte count.\<close>

lemma skwlog_open_goes_on:
  assumes "btcp_log_en s" "skwlog_slice s" "cplog_inv s" "px_content (fs s) (skwlog_path s) = Some c"
    and "c \<noteq> []" "length c < unat SKWLOG_LIMIT"
  shows "cplog_step s (skwlog_open clk False s)" "0 < skwlog_fp (skwlog_open clk False s)"
    "px_content (fs (skwlog_open clk False s)) = px_content (fs s)"
    "unat (skwlog_rev_length (skwlog_open clk False s)) = length c"
proof -
  show "cplog_step s (skwlog_open clk False s)" "0 < skwlog_fp (skwlog_open clk False s)"
    using skwlog_open_step [OF cplog_inv_ready [OF assms(3)] assms(1)] by simp_all
  from skwlog_look_existing [OF assms(3,4)] obtain d f1 where look:
    "px_look (skwlog_path s) (fs s) = (d, f1)" "0 < d" "px_size d f1 = length c"
    "px_ok (px_close d f1)" "px_stdio (px_close d f1)" "denied (px_close d f1) = denied (fs s)"
    "px_content (px_close d f1) = px_content (fs s)" .
  have len: "length c < 2 ^ 31" using assms(6) by (simp add: SKWLOG_LIMIT_def)
  let ?f = "px_close d f1"
  have prep: "skwlog_prepare clk False s = (s\<lparr>fs := ?f, skwlog_rev_length := word_of_int (int (length c))\<rparr>, False)"
    using look(1-3) assms(2,5) len by (simp add: skwlog_prepare_def Let_def c_int_small)
  obtain d2 f2 where op: "px_open_append (skwlog_path s) ?f = (d2, f2)"
    by (cases "px_open_append (skwlog_path s) ?f")
  have "0 < d2"
    using px_open_append_stdio [OF look(5), of "skwlog_path s"] assms(3) op look(6) by (simp add: cplog_inv_def cplog_ok_def)
  then have "px_content f2 = px_content ?f"
    using px_open_append_content [OF look(4), of "skwlog_path s"] look(7) assms(4) op by (simp add: fun_upd_idem)
  then show "px_content (fs (skwlog_open clk False s)) = px_content (fs s)"
    "unat (skwlog_rev_length (skwlog_open clk False s)) = length c"
    using assms(1) prep op look(7) len by (simp_all add: skwlog_open_def unat_of_nat_u32)
qed

text \<open>\<open>skwlog_reopen\<close> of a closed log without a new file: the time packet is appended.\<close>

lemma skwlog_reopen_goes_on:
  assumes "skwlog_fp s = -1" "btcp_log_en s" "skwlog_slice s" "cplog_inv s" "px_content (fs s) (skwlog_path s) = Some c"
    and "c \<noteq> []" "length c + 12 < unat SKWLOG_LIMIT"
  shows "cplog_step s (skwlog_reopen clk False s)" "0 < skwlog_fp (skwlog_reopen clk False s)"
    "px_content (fs (skwlog_reopen clk False s)) = (px_content (fs s))(skwlog_path s \<mapsto> c @ skwlog_time_packet clk)"
    "unat (skwlog_rev_length (skwlog_reopen clk False s)) = length c + 12"
proof -
  let ?s = "s\<lparr>skwlog_rev_length := 0\<rparr>" and ?o = "skwlog_open clk False (s\<lparr>skwlog_rev_length := 0\<rparr>)"
  have inv: "cplog_inv ?s" using assms(4) by (simp add: cplog_inv_def cplog_ok_def)
  have pre: "btcp_log_en ?s" "skwlog_slice ?s" "px_content (fs ?s) (skwlog_path ?s) = Some c" "length c < unat SKWLOG_LIMIT"
    using assms by simp_all
  note o = skwlog_open_goes_on [OF pre(1,2) inv pre(3) assms(6) pre(4), of clk]
  note so = cplog_stepD [OF o(1)]
  have t: "length (skwlog_time_packet clk) = 12" by (simp add: skwlog_time_packet_def)
  have ok: "cplog_ok ?o" "btcp_log_en ?o" "skwlog_path ?o = skwlog_path s"
    using so assms(2) by (simp_all add: cplog_inv_def)
  have c: "px_content (fs ?o) (skwlog_path ?o) = Some c" using o(3) ok(3) assms(5) by simp
  have lim: "unat (skwlog_rev_length ?o) + length (concat [skwlog_time_packet clk]) < unat SKWLOG_LIMIT"
    using o(4) t assms(7) by simp
  have re: "skwlog_reopen clk False s = skwlog_print_current_time clk ?o"
    using assms(1) o(2) by (simp add: skwlog_reopen_def Let_def)
  then have eq: "skwlog_reopen clk False s = ?o\<lparr>fs := px_write (skwlog_fp ?o) (skwlog_time_packet clk) (fs ?o),
      skwlog_rev_length := skwlog_rev_length ?o + of_nat (length (skwlog_time_packet clk))\<rparr>"
    using skwlog_write_all [OF ok(1) o(2) ok(2) c lim, of clk] by (simp add: skwlog_print_current_time_def)
  have "cplog_step s ?s"
    using inv fs_keeps_refl assms(4) by (auto simp: cplog_step_def cplog_inv_def cplog_ok_def)
  from cplog_step_trans [OF this cplog_step_trans [OF o(1) skwlog_write_step [OF so(9)]]]
  show "cplog_step s (skwlog_reopen clk False s)"
    by (simp add: re skwlog_print_current_time_def)
  show "0 < skwlog_fp (skwlog_reopen clk False s)" using o(2) by (simp add: eq)
  have "px_ok (fs ?o)" "px_linked (fs ?o) (skwlog_fp ?o) (skwlog_path ?o)"
    using ok(1) o(2) by (simp_all add: cplog_ok_def)
  from px_write_content [OF this c]
  show "px_content (fs (skwlog_reopen clk False s)) = (px_content (fs s))(skwlog_path s \<mapsto> c @ skwlog_time_packet clk)"
    by (simp add: eq o(3) ok(3))
  show "unat (skwlog_rev_length (skwlog_reopen clk False s)) = length c + 12"
    using o(4) assms(7) by (simp add: eq t unat_add_u32 SKWLOG_LIMIT_def)
qed

section \<open>Both logs go on\<close>

text \<open>The logs as a previous process has left them: a snoop file with more than its header, a CP log that is not empty.\<close>

definition logs_left :: "logs \<Rightarrow> byte list \<Rightarrow> byte list \<Rightarrow> bool" where
  "logs_left s trace c \<longleftrightarrow> px_ok (fs s) \<and> px_stdio (fs s) \<and> \<not> denied (fs s) (skw_btsnoop_path s) \<and> \<not> denied (fs s) (skwlog_path s) \<and>
     hci_btsnoop_fd s = -1 \<and> btsnoop_log_en s \<and> btcp_log_en s \<and> btsnoop_save_log s \<and> skwlog_slice s \<and>
     px_content (fs s) (skw_btsnoop_path s) = Some trace \<and> 16 < length trace \<and>
     px_content (fs s) (skwlog_path s) = Some c \<and> c \<noteq> [] \<and> snoop_files s \<inter> skwlog_files s = {}"

lemma logs_go_on:
  assumes left: "logs_left s trace c" and n: "length trace + n < unat SNOOP_LIMIT" "length c + 12 + m < unat SKWLOG_LIMIT"
  shows "logs_open (skw_btsnoop_init clk2 (skwlog_init clk1 s)) trace (c @ skwlog_time_packet clk2) n m"
    "btsnoop_log_en (skwlog_init clk1 s)"
    "skw_btsnoop_path (skw_btsnoop_init clk2 (skwlog_init clk1 s)) = skw_btsnoop_path s"
    "skwlog_path (skw_btsnoop_init clk2 (skwlog_init clk1 s)) = skwlog_path s"
    "denied (fs (skw_btsnoop_init clk2 (skwlog_init clk1 s))) = denied (fs s)"
proof -
  note l = left [unfolded logs_left_def]
  let ?s1 = "s\<lparr>skwlog_fp := -1, skwlog_rev_length := 0, skwlog_cnts := 0\<rparr>"
  let ?s2 = "?s1\<lparr>btsnoop_cnts := 0, btsnoop_rev_length := 0\<rparr>"
  have init: "skwlog_init clk1 s = ?s1"
    using l by (simp add: skwlog_init_def Let_def)
  show "btsnoop_log_en (skwlog_init clk1 s)" using l by (simp add: init)
  have files: "skwlog_files ?s2 = skwlog_files s" "snoop_files ?s2 = snoop_files s" "skwlog_path ?s2 = skwlog_path s"
    by (simp_all add: skwlog_files_def snoop_files_def)
  have rdy: "snoop_ready ?s2"
    using l unfolding snoop_ready_def files by (simp add: cplog_inv_def cplog_ok_def)
  have pre: "px_content (fs ?s2) (skw_btsnoop_path ?s2) = Some trace" using l by simp
  from snoop_look_existing [OF rdy pre] obtain d f1 where look:
    "px_look (skw_btsnoop_path ?s2) (fs ?s2) = (d, f1)" "0 < d" "px_size d f1 = length trace"
    "fs_keeps {} (fs ?s2) (px_close d f1)" "errno (px_close d f1) = errno (fs ?s2)"
    "px_content (px_close d f1) = px_content (fs ?s2)" .
  have lt: "length trace < 2 ^ 30" using n(1) by (simp add: SNOOP_LIMIT_def)
  let ?s3 = "?s2\<lparr>fs := px_close d f1, btsnoop_rev_length := word_of_int (int (length trace))\<rparr>"
  have rot: "skw_btsnoop_rotate clk2 ?s2 = (skwlog_reopen clk2 False ?s3, Some False)"
    using l look(1-3) lt by (simp add: skw_btsnoop_rotate_def Let_def c_int_small)
  have k: "fs_keeps (snoop_files ?s2) (fs ?s2) (px_close d f1)"
    using fs_keeps_mono [OF look(4)] by simp
  have rdy3: "snoop_ready ?s3" by (rule snoop_ready_keeps(3) [OF rdy k])
  then have inv3: "cplog_inv ?s3" by (simp add: snoop_ready_def)
  have r: "skwlog_fp ?s3 = -1" "btcp_log_en ?s3" "skwlog_slice ?s3" "px_content (fs ?s3) (skwlog_path ?s3) = Some c" "c \<noteq> []"
    "length c + 12 < unat SKWLOG_LIMIT"
    using l look(6) n(2) by simp_all
  note re = skwlog_reopen_goes_on [OF r(1-3) inv3 r(4-6), of clk2]
  let ?u = "skwlog_reopen clk2 False ?s3"
  note su = cplog_stepD [OF re(1)]
  have opn: "skw_btsnoop_init clk2 (skwlog_init clk1 s) = snoop_finish (?u, Some False)"
    using skw_btsnoop_open_eq [of "?s1\<lparr>btsnoop_cnts := 0\<rparr>" clk2] l rot by (simp add: skw_btsnoop_init_def init)
  have rdyu: "snoop_ready ?u" by (rule snoop_ready_step [OF rdy3 re(1)])
  have enu: "btsnoop_log_en ?u" "btcp_log_en ?u" using su l by simp_all
  note fin = snoop_finish_open [OF rdyu enu(1), of False]
  have frame: "skw_btsnoop_path (snoop_finish (?u, Some False)) = skw_btsnoop_path s"
    "skwlog_path (snoop_finish (?u, Some False)) = skwlog_path s" "skwlog_fp (snoop_finish (?u, Some False)) = skwlog_fp ?u"
    "btcp_log_en (snoop_finish (?u, Some False)) = btcp_log_en ?u"
    "btsnoop_rev_length (snoop_finish (?u, Some False)) = btsnoop_rev_length ?u"
    "skwlog_rev_length (snoop_finish (?u, Some False)) = skwlog_rev_length ?u"
    using su by (simp_all add: snoop_finish_def split: prod.split)
  show "skw_btsnoop_path (skw_btsnoop_init clk2 (skwlog_init clk1 s)) = skw_btsnoop_path s"
    "skwlog_path (skw_btsnoop_init clk2 (skwlog_init clk1 s)) = skwlog_path s"
    by (simp_all only: opn frame)
  show "denied (fs (skw_btsnoop_init clk2 (skwlog_init clk1 s))) = denied (fs s)"
    using fs_keepsD(3) [OF fin(3)] fs_keepsD(3) [OF su(10)] fs_keepsD(3) [OF k] unfolding opn by simp
  have ne: "skwlog_path s \<noteq> skw_btsnoop_path s"
    using l skwlog_names_files(1) [of s] snoop_names(1) [of s] by (metis disjoint_iff)
  have cu: "px_content (fs ?u) (skw_btsnoop_path s) = Some trace" "px_content (fs ?u) (skwlog_path s) = Some (c @ skwlog_time_packet clk2)"
    using re(3) ne look(6) l by simp_all
  have rev: "unat (btsnoop_rev_length ?u) = length trace"
    using su(8) lt by (simp add: unat_of_nat_u32)
  show "logs_open (skw_btsnoop_init clk2 (skwlog_init clk1 s)) trace (c @ skwlog_time_packet clk2) n m"
    unfolding opn logs_open_def frame
    using fin cu rev re(2,4) enu n ne su by simp
qed

section \<open>A second session\<close>

text \<open>
  C3: Log files outlive the process. With slicing and saving, when a previous process has left a snoop file that parses, with more than
  its header, and a CP log that is not empty, both with room below their limits, \<open>init\<close> opens both again, the threads log in
  any interleaving without a fault, and after \<open>cleanup\<close> the snoop file parses to the old records followed by a
  whole record for each capture, those of each thread in its order, and the CP log is the old one, a time packet and the
  packets written. Nothing that was logged before is lost or changed.
\<close>

theorem session_resumed:
  assumes "load_skwbt_conf conf_file ((v_conf v)\<lparr>scomm_vnd := scomm_vendor_init\<rparr>) = Inr c"
    and "load_skwbt_stack_conf conf_file (v_logs v, v_flags v) = Inr (s, f)"
    and "logs_left s trace cp" and "snoop_parse trace = Some recs"
    and "\<not> denied (fs s) (skw_addr_path (skw_btsnoop_path s))"
    and "skw_addr_path (skw_btsnoop_path s) \<notin> snoop_files s \<union> skwlog_files s"
    and "\<forall>ops \<in> set opss. \<forall>cap \<in> set (captures ops). snoop_complete cap"
    and "length trace + length (concat (map snoop_sent (concat (map captures opss)))) < unat SNOOP_LIMIT"
    and "length cp + 12 + length (concat (concat (map cp_writes opss))) < unat SKWLOG_LIMIT"
  shows "\<exists>v' m. vendor_init conf_file clk1 clk2 rnd True local_bdaddr v = Inr (0, v') \<and>
    run_threads sched (machine_start (v_logs v') opss) = Inr m \<and>
    (machine_done m \<longrightarrow>
      (\<exists>e trace' rs w. e = v_logs (vendor_cleanup (v'\<lparr>v_logs := shared m\<rparr>)) \<and>
        hci_btsnoop_fd e = -1 \<and> skwlog_fp e = -1 \<and> \<not> btsnoop_log_en e \<and>
        px_content (fs e) (skw_btsnoop_path s) = Some trace' \<and> snoop_parse trace' = Some (recs @ map snd rs) \<and>
        px_content (fs e) (skwlog_path s) = Some (cp @ skwlog_time_packet clk2 @ concat (map snd w)) \<and>
        (\<forall>i < length opss. of_thread i rs = map snoop_rec (captures (opss ! i)) \<and> of_thread i w = cp_writes (opss ! i)) \<and>
        (\<forall>x \<in> set rs. fst x < length opss) \<and> (\<forall>x \<in> set w. fst x < length opss)))"
proof -
  note on = logs_go_on [OF assms(3,8,9)]
  from vendor_init_open [OF assms(1,2) on assms(5,6)] obtain v' where i:
    "vendor_init conf_file clk1 clk2 rnd True local_bdaddr v = Inr (0, v')"
    "logs_open (v_logs v') trace (cp @ skwlog_time_packet clk2)
       (length (concat (map snoop_sent (concat (map captures opss))))) (length (concat (concat (map cp_writes opss))))"
    "skw_btsnoop_path (v_logs v') = skw_btsnoop_path s" "skwlog_path (v_logs v') = skwlog_path s" by blast
  from session_ends [OF assms(7) i(2) assms(4), of sched, unfolded i(3,4) append_assoc] i(1)
  show ?thesis by blast
qed

section \<open>Witness\<close>

text \<open>A snoop file with one record, that of a reset command, and a CP log with the time it was started.\<close>

definition left_trace :: "byte list" where
  "left_trace = btsnoop_header @ snoop_record 0 0 [1, 3, 0x0C, 0]"

definition left_behind :: vendor where
  "left_behind = unstarted\<lparr>v_logs := (v_logs unstarted)\<lparr>
     fs := \<lparr>dir = [''/d/b'' \<mapsto> 1, ''/d/skwlog.log'' \<mapsto> 2],
            inode = (\<lambda>i. if i = 1 then left_trace else if i = 2 then skwlog_header @ skwlog_time_packet sample_clock else []),
            next_ino = 3, fdt = [Some 0], errno = 0, denied = (\<lambda>p. False)\<rparr>\<rparr>\<rparr>"

lemma left_trace_parse: "snoop_parse left_trace = Some [snoop_record 0 0 [1, 3, 0x0C, 0]]" "length left_trace = 44"
  using snoop_parse_append [OF snoop_parse_header snoop_record_frame [of "[1, 3, 0x0C, 0]" 0 0]]
  by (simp_all add: left_trace_def snoop_record_def snoop_chunks_def)

lemma left_behind_path: "skw_btsnoop_path (v_logs left_behind) = ''/d/b''" "skwlog_path (v_logs left_behind) = ''/d/skwlog.log''"
  using unstarted_path by (simp_all add: left_behind_def skwlog_path_def)

lemma left_behind_files: "snoop_files (v_logs left_behind) = snoop_files (v_logs unstarted)"
  "skwlog_files (v_logs left_behind) = skwlog_files (v_logs unstarted)"
  by (simp_all add: left_behind_def snoop_files_def skwlog_files_def skwlog_path_def)

lemma left_behind_logs:
  "logs_left (v_logs left_behind) left_trace (skwlog_header @ skwlog_time_packet sample_clock)"
  "\<not> denied (fs (v_logs left_behind)) (skw_addr_path (skw_btsnoop_path (v_logs left_behind)))"
  "skw_addr_path (skw_btsnoop_path (v_logs left_behind)) \<notin> snoop_files (v_logs left_behind) \<union> skwlog_files (v_logs left_behind)"
proof -
  have "px_ok (fs (v_logs left_behind))"
    by (rule px_okI) (auto simp: left_behind_def split: if_splits)
  moreover have "px_stdio (fs (v_logs left_behind))"
    by (simp add: left_behind_def px_stdio_def fd_ino_def)
  moreover have "snoop_files (v_logs left_behind) \<inter> skwlog_files (v_logs left_behind) = {}"
    using unstarted_fresh unfolding left_behind_files by (simp add: fresh_start_def logs_fresh_def)
  ultimately show "logs_left (v_logs left_behind) left_trace (skwlog_header @ skwlog_time_packet sample_clock)"
    unfolding logs_left_def left_behind_path left_trace_parse(2)
    by (simp add: left_behind_def unstarted_def sample_snoop_def px_content_def skwlog_header_def)
  show "\<not> denied (fs (v_logs left_behind)) (skw_addr_path (skw_btsnoop_path (v_logs left_behind)))"
    by (simp add: left_behind_def)
  show "skw_addr_path (skw_btsnoop_path (v_logs left_behind)) \<notin> snoop_files (v_logs left_behind) \<union> skwlog_files (v_logs left_behind)"
    using unstarted_fresh unfolding left_behind_files by (simp add: fresh_start_def left_behind_path unstarted_path)
qed

theorem session_resumed_witness:
  "\<exists>v' m e trace rs w. vendor_init None sample_clock sample_clock (1, 2, 3) True [1, 2, 3, 4, 5, 6] left_behind = Inr (0, v') \<and>
     run_threads (concat sample_rounds) (machine_start (v_logs v') sample_ops) = Inr m \<and> machine_done m \<and>
     e = v_logs (vendor_cleanup (v'\<lparr>v_logs := shared m\<rparr>)) \<and> hci_btsnoop_fd e = -1 \<and> skwlog_fp e = -1 \<and>
     px_content (fs e) ''/d/b'' = Some trace \<and> snoop_parse trace = Some (snoop_record 0 0 [1, 3, 0x0C, 0] # map snd rs) \<and>
     px_content (fs e) ''/d/skwlog.log'' =
       Some (skwlog_header @ skwlog_time_packet sample_clock @ skwlog_time_packet sample_clock @ concat (map snd w)) \<and>
     map snoop_payload (of_thread 0 rs) = [[4, 0x0E, 1, 0]] \<and> map snoop_payload (of_thread 1 rs) = [[1, 3, 0x0C, 0]] \<and>
     of_thread 0 w = [[7, 0, 1, 0, 0xAA]]"
proof -
  let ?cp = "skwlog_header @ skwlog_time_packet sample_clock"
  let ?n = "length (concat (map snoop_sent (concat (map captures sample_ops))))" and ?k = "length (concat (concat (map cp_writes sample_ops)))"
  obtain c where conf: "load_skwbt_conf None ((v_conf left_behind)\<lparr>scomm_vnd := scomm_vendor_init\<rparr>) = Inr c"
    by (simp add: load_skwbt_conf_def node_strcpy_def store_def BT_COM_PORT_SIZE_def DEVICE_NODE_MAX_LEN_def)
  have stack: "load_skwbt_stack_conf None (v_logs left_behind, v_flags left_behind) = Inr (v_logs left_behind, v_flags left_behind)"
    by (simp add: load_skwbt_stack_conf_def)
  have lim: "length left_trace + ?n < unat SNOOP_LIMIT" "length ?cp + 12 + ?k < unat SKWLOG_LIMIT"
    by (simp_all add: left_trace_parse(2) skwlog_header_def skwlog_time_packet_def sample_ops_def snoop_extent_def packet_at_def
      SNOOP_LIMIT_def SKWLOG_LIMIT_def)
  from session_resumed [OF conf stack left_behind_logs(1) left_trace_parse(1) left_behind_logs(2,3) sample_ops_fit(1) lim,
      of sample_clock sample_clock "(1, 2, 3)" "[1, 2, 3, 4, 5, 6]" "concat sample_rounds"]
  obtain v' m where s: "vendor_init None sample_clock sample_clock (1, 2, 3) True [1, 2, 3, 4, 5, 6] left_behind = Inr (0, v')"
    "run_threads (concat sample_rounds) (machine_start (v_logs v') sample_ops) = Inr m"
    and fin: "machine_done m \<longrightarrow>
      (\<exists>e trace rs w. e = v_logs (vendor_cleanup (v'\<lparr>v_logs := shared m\<rparr>)) \<and>
        hci_btsnoop_fd e = -1 \<and> skwlog_fp e = -1 \<and> \<not> btsnoop_log_en e \<and>
        px_content (fs e) ''/d/b'' = Some trace \<and> snoop_parse trace = Some ([snoop_record 0 0 [1, 3, 0x0C, 0]] @ map snd rs) \<and>
        px_content (fs e) ''/d/skwlog.log'' = Some (?cp @ skwlog_time_packet sample_clock @ concat (map snd w)) \<and>
        (\<forall>i < length sample_ops. of_thread i rs = map snoop_rec (captures (sample_ops ! i)) \<and> of_thread i w = cp_writes (sample_ops ! i)) \<and>
        (\<forall>x \<in> set rs. fst x < length sample_ops) \<and> (\<forall>x \<in> set w. fst x < length sample_ops))"
    unfolding left_behind_path by blast
  note on = logs_go_on [OF left_behind_logs(1) lim]
  from vendor_init_open [OF conf stack on left_behind_logs(2,3), where ?clk1.0 = sample_clock and ?clk2.0 = sample_clock
      and rnd = "(1, 2, 3)" and local_bdaddr = "[1, 2, 3, 4, 5, 6]"] s(1)
  have "logs_open (v_logs v') left_trace (?cp @ skwlog_time_packet sample_clock) ?n ?k"
    by (elim exE conjE) (simp only: sum.inject prod.inject)
  from start_finishes [OF sample_ops_fit(1) this sample_ops_fit(3,4)] s(2) have m: "machine_done m" by simp
  from fin [rule_format, OF m] obtain e trace rs w where
    r: "e = v_logs (vendor_cleanup (v'\<lparr>v_logs := shared m\<rparr>))" "hci_btsnoop_fd e = -1" "skwlog_fp e = -1"
    "px_content (fs e) ''/d/b'' = Some trace" "snoop_parse trace = Some (snoop_record 0 0 [1, 3, 0x0C, 0] # map snd rs)"
    "px_content (fs e) ''/d/skwlog.log'' =
       Some (skwlog_header @ skwlog_time_packet sample_clock @ skwlog_time_packet sample_clock @ concat (map snd w))"
    "\<forall>i < length sample_ops. of_thread i rs = map snoop_rec (captures (sample_ops ! i)) \<and> of_thread i w = cp_writes (sample_ops ! i)"
    unfolding append.simps append_assoc by blast
  note payloads = sample_ops_logged [OF r(7)]
  show ?thesis
    by (intro exI [of _ v'] exI [of _ m] exI [of _ e] exI [of _ trace] exI [of _ rs] exI [of _ w] conjI) (rule s m r payloads)+
qed

end
