(* ===== verification/Lifecycle.thy ===== *)
theory Lifecycle
  imports Session Startup
begin

text \<open>
  A whole session of the vendor library: \<open>init\<close>, \<open>USERIAL_OPEN\<close>, \<open>USERIAL_CLOSE\<close>, \<open>cleanup\<close>, over the configuration, the
  ports, the logs and the descriptors of the process.
\<close>

section \<open>The ports after reading the configuration\<close>













section \<open>The whole session\<close>








section \<open>Witness\<close>


end
