(* ===== verification/WifiMask.thy ===== *)
theory WifiMask
  imports Prelude
begin

text \<open>
  The translation of band and interface masks between the numbering of the Android HAL and that of
  the driver, in \<open>wifi_hal/main.cpp\<close>. The HAL's numbers come from \<open>wifi_hal.h\<close>, which is not
  part of the repository, and are a parameter; the driver's are in \<open>main.h\<close>.
\<close>

section \<open>Numbers\<close>

record hal_numbers =
  WLAN_MAC_2_4_BAND :: u32
  WLAN_MAC_5_0_BAND :: u32
  WLAN_MAC_6_0_BAND :: u32
  WLAN_MAC_60_0_BAND :: u32
  WIFI_INTERFACE_TYPE_STA :: nat
  WIFI_INTERFACE_TYPE_AP :: nat
  WIFI_INTERFACE_TYPE_P2P :: nat

definition SKW_BIT :: "nat \<Rightarrow> u32" where
  "SKW_BIT nr = push_bit nr 1"

abbreviation (input) SKW_INVALID :: u32 where "SKW_INVALID \<equiv> -1"

abbreviation (input) SKW_BAND_2GHZ :: nat where "SKW_BAND_2GHZ \<equiv> 0"
abbreviation (input) SKW_BAND_5GHZ :: nat where "SKW_BAND_5GHZ \<equiv> 1"
abbreviation (input) SKW_BAND_6GHZ :: nat where "SKW_BAND_6GHZ \<equiv> 2"
abbreviation (input) SKW_BAND_60GHZ :: nat where "SKW_BAND_60GHZ \<equiv> 3"

abbreviation (input) SKW_MODE_STA :: nat where "SKW_MODE_STA \<equiv> 1"
abbreviation (input) SKW_MODE_AP :: nat where "SKW_MODE_AP \<equiv> 2"
abbreviation (input) SKW_MODE_GC :: nat where "SKW_MODE_GC \<equiv> 3"
abbreviation (input) SKW_MODE_GO :: nat where "SKW_MODE_GO \<equiv> 4"

section \<open>One value\<close>

text \<open>\<open>to_skw_band\<close>, with \<open>None\<close> for \<open>SKW_INVALID\<close>, which is no band.\<close>

definition to_skw_band :: "hal_numbers \<Rightarrow> u32 \<Rightarrow> nat option" where
  "to_skw_band h hal_bw =
     (if hal_bw = WLAN_MAC_2_4_BAND h then Some SKW_BAND_2GHZ
      else if hal_bw = WLAN_MAC_5_0_BAND h then Some SKW_BAND_5GHZ
      else if hal_bw = WLAN_MAC_6_0_BAND h then Some SKW_BAND_6GHZ
      else if hal_bw = WLAN_MAC_60_0_BAND h then Some SKW_BAND_60GHZ
      else None)"

definition to_hal_iface_mode_mask :: "hal_numbers \<Rightarrow> u32 \<Rightarrow> u32" where
  "to_hal_iface_mode_mask h skw_mode_mask =
     (if skw_mode_mask = SKW_BIT SKW_MODE_STA then SKW_BIT (WIFI_INTERFACE_TYPE_STA h)
      else if skw_mode_mask = SKW_BIT SKW_MODE_AP then SKW_BIT (WIFI_INTERFACE_TYPE_AP h)
      else if skw_mode_mask = SKW_BIT SKW_MODE_GC \<or> skw_mode_mask = SKW_BIT SKW_MODE_GO then SKW_BIT (WIFI_INTERFACE_TYPE_P2P h)
      else SKW_INVALID)"

definition to_skw_iface_mode_mask :: "hal_numbers \<Rightarrow> u32 \<Rightarrow> u32" where
  "to_skw_iface_mode_mask h hal_mode_mask =
     (if hal_mode_mask = SKW_BIT (WIFI_INTERFACE_TYPE_STA h) then SKW_BIT SKW_MODE_STA
      else if hal_mode_mask = SKW_BIT (WIFI_INTERFACE_TYPE_AP h) then SKW_BIT SKW_MODE_AP
      else if hal_mode_mask = SKW_BIT (WIFI_INTERFACE_TYPE_P2P h) then SKW_BIT SKW_MODE_GC
      else SKW_INVALID)"

section \<open>The loop over the bits of a mask\<close>

text \<open>
  The loop all three translations have: take the lowest bit of the mask, by way of the mask minus
  one, let the body add to the result, and clear the bit.
\<close>

lemma and_pred_less: "m \<noteq> 0 \<Longrightarrow> unat (m AND (m - 1) :: u32) < unat m"
proof -
  assume m: "m \<noteq> 0"
  have "m AND (m - 1) \<le> m - 1" by (rule word_and_le1)
  also have "m - 1 < m" using m by (simp add: word_less_nat_alt unat_minus_one unat_gt_0)
  finally show ?thesis by (simp add: word_less_nat_alt)
qed

function mask_loop :: "(u32 \<Rightarrow> u32 \<Rightarrow> u32) \<Rightarrow> u32 \<Rightarrow> u32 \<Rightarrow> u32" where
  "mask_loop body m acc =
     (if m = 0 then acc
      else let tmp = m - 1 in mask_loop body (m AND tmp) (body (drop_bit 1 ((tmp XOR m) + 1)) acc))"
  by pat_completeness auto
termination
  by (relation "measure (\<lambda>(body, m, acc). unat m)") (simp_all add: and_pred_less)

declare mask_loop.simps [simp del]

definition to_skw_band_mask :: "hal_numbers \<Rightarrow> u32 \<Rightarrow> u32" where
  "to_skw_band_mask h hal_band_mask =
     mask_loop (\<lambda>b skw_mask. case to_skw_band h b of None \<Rightarrow> skw_mask | Some band \<Rightarrow> skw_mask OR SKW_BIT band) hal_band_mask 0"

definition to_hal_iface_mask :: "hal_numbers \<Rightarrow> u32 \<Rightarrow> u32" where
  "to_hal_iface_mask h skw_iface_mask =
     mask_loop (\<lambda>b hal_mask. let msk = to_hal_iface_mode_mask h b in if msk \<noteq> SKW_INVALID then hal_mask OR msk else hal_mask) skw_iface_mask 0"

definition to_skw_iface_mask :: "hal_numbers \<Rightarrow> u32 \<Rightarrow> u32" where
  "to_skw_iface_mask h hal_iface_mask =
     mask_loop (\<lambda>b skw_mask. let msk = to_skw_iface_mode_mask h b in if msk \<noteq> SKW_INVALID then skw_mask OR msk else skw_mask) hal_iface_mask 0"

section \<open>What the loop does\<close>

text \<open>What the arithmetic makes of bit \<open>k\<close>: the bit alone, except for the highest one, which overflows.\<close>

definition lone_bit :: "nat \<Rightarrow> u32" where
  "lone_bit k = (if k < 31 then SKW_BIT k else 0)"

definition set_bits :: "u32 \<Rightarrow> nat list" where
  "set_bits m = filter (bit m) [0..<32]"

lemma bit_SKW_BIT: "bit (SKW_BIT k) n \<longleftrightarrow> n = k \<and> n < 32"
  by (auto simp: SKW_BIT_def bit_simps)

lemma lowest_bit:
  assumes "(m :: u32) \<noteq> 0"
  obtains k where "k < 32" "bit m k" "\<forall>j < k. \<not> bit m j"
proof -
  have "\<exists>n. bit m n"
  proof (rule ccontr)
    assume "\<not> (\<exists>n. bit m n)"
    then have "m = 0" by (intro bit_eqI) simp
    then show False using assms by simp
  qed
  then obtain n where n: "bit m n" by blast
  define k where "k = (LEAST n. bit m n)"
  have "bit m k" unfolding k_def using n by (rule LeastI)
  moreover have "\<forall>j < k. \<not> bit m j" unfolding k_def using not_less_Least by blast
  moreover have "k < 32" using bit_imp_le_length [OF \<open>bit m k\<close>] by simp
  ultimately show ?thesis by (intro that)
qed

lemma lowest_bit_step:
  assumes k: "k < 32" "bit m k" "\<forall>j < k. \<not> bit m j"
  shows "drop_bit 1 (((m - 1) XOR m) + 1) = lone_bit k" "bit (m AND (m - 1)) n \<longleftrightarrow> bit m n \<and> n \<noteq> k"
proof -
  define hi where "hi = m AND NOT (mask (Suc k))"
  have hi: "bit hi n \<longleftrightarrow> bit m n \<and> k < n" for n
    using bit_imp_le_length [of m n] by (auto simp: hi_def bit_simps)
  have "m = hi OR SKW_BIT k"
    using k by (intro bit_eqI) (auto simp: bit_simps hi bit_SKW_BIT dest: not_less_iff_gr_or_eq [THEN iffD1])
  moreover have "hi OR SKW_BIT k = hi + SKW_BIT k"
    by (rule disjunctive_add [symmetric]) (auto simp: hi bit_SKW_BIT)
  ultimately have m: "m = hi OR SKW_BIT k" "m = hi + SKW_BIT k" by simp_all
  have "m - 1 = hi + mask k"
    using m(2) by (simp add: mask_eq_exp_minus_1 SKW_BIT_def push_bit_eq_mult)
  also have "\<dots> = hi OR mask k"
    by (rule disjunctive_add) (auto simp: hi bit_mask_iff)
  finally have pred: "m - 1 = hi OR mask k" .
  have "(m - 1) XOR m = mask (Suc k)"
    unfolding pred using k(1)
    by (subst m(1), intro bit_eqI) (auto simp: bit_simps hi bit_SKW_BIT)
  then have "((m - 1) XOR m) + 1 = 2 ^ Suc k" by (simp add: mask_eq_exp_minus_1)
  also have "drop_bit 1 (2 ^ Suc k :: u32) = lone_bit k"
    using k(1) by (intro bit_eqI) (auto simp: bit_simps lone_bit_def bit_SKW_BIT)
  finally show "drop_bit 1 (((m - 1) XOR m) + 1) = lone_bit k" .
  show "bit (m AND (m - 1)) n \<longleftrightarrow> bit m n \<and> n \<noteq> k"
    unfolding pred using k by (auto simp: bit_simps hi)
qed

lemma set_bits_step:
  assumes k: "k < 32" "bit m k" "\<forall>j < k. \<not> bit m j"
  shows "set_bits m = k # set_bits (m AND (m - 1))"
proof -
  have split: "[0..<32] = [0..<k] @ k # [Suc k..<32]"
    using k(1) upt_add_eq_append [of 0 k "32 - k"] by (simp add: upt_conv_Cons)
  have "filter (bit m) [0..<k] = []" "filter (bit (m AND (m - 1))) [0..<k] = []"
    using k(3) lowest_bit_step(2) [OF k] by (auto simp: filter_empty_conv)
  moreover have "filter (bit m) [Suc k..<32] = filter (bit (m AND (m - 1))) [Suc k..<32]"
    using lowest_bit_step(2) [OF k] by (intro filter_cong) auto
  ultimately show ?thesis
    unfolding set_bits_def split using k(2) lowest_bit_step(2) [OF k, of k] by simp
qed

lemma mask_loop_fold: "mask_loop body m acc = fold (\<lambda>k. body (lone_bit k)) (set_bits m) acc"
proof (induction body m acc rule: mask_loop.induct)
  case (1 body m acc)
  show ?case
  proof (cases "m = 0")
    case True
    then show ?thesis by (simp add: mask_loop.simps set_bits_def)
  next
    case False
    then obtain k where k: "k < 32" "bit m k" "\<forall>j < k. \<not> bit m j" by (rule lowest_bit)
    show ?thesis
      using False 1 [OF False refl] lowest_bit_step(1) [OF k] by (subst mask_loop.simps) (simp add: set_bits_step [OF k])
  qed
qed

lemma bit_fold_or:
  assumes "\<And>k acc. body k acc = (case f k of None \<Rightarrow> acc | Some w \<Rightarrow> acc OR w)"
  shows "bit (fold body ks acc) n \<longleftrightarrow> bit acc n \<or> (\<exists>k \<in> set ks. \<exists>w. f k = Some w \<and> bit (w :: u32) n)"
  by (induction ks arbitrary: acc) (auto simp: assms bit_or_iff split: option.splits)

lemma set_set_bits: "set (set_bits m) = {k. bit m k}"
  using bit_imp_le_length [of m] by (auto simp: set_bits_def)

section \<open>Translating bit by bit\<close>

text \<open>The reference: the bit of a number, if the mask has it.\<close>

definition when_bit :: "bool \<Rightarrow> nat \<Rightarrow> u32" where
  "when_bit b n = (if b then SKW_BIT n else 0)"

lemma bit_when_bit: "bit (when_bit b n) i \<longleftrightarrow> b \<and> i = n \<and> n < 32"
  by (auto simp: when_bit_def bit_SKW_BIT)

lemma SKW_BIT_eq: "i < 32 \<Longrightarrow> SKW_BIT i = SKW_BIT j \<longleftrightarrow> i = j"
  by (metis bit_SKW_BIT)

lemma lone_bit_eq: "j < 31 \<Longrightarrow> lone_bit k = SKW_BIT j \<longleftrightarrow> k = j"
  using bit_SKW_BIT [of j j] by (auto simp: lone_bit_def SKW_BIT_eq)

lemma SKW_BIT_valid: "SKW_BIT j \<noteq> SKW_INVALID"
proof
  assume "SKW_BIT j = SKW_INVALID"
  then have "bit (SKW_BIT j) 0 \<and> bit (SKW_BIT j) 1" by simp
  then show False by (auto simp: bit_SKW_BIT)
qed

lemma when_bit_or: "when_bit a n OR when_bit b n = when_bit (a \<or> b) n"
  by (simp add: when_bit_def)

text \<open>
  A translation of masks: a loop that adds what \<open>one\<close> makes of each bit, if anything. If that is what a
  table of bit numbers says, the loop gives the bits the table has for those of the mask.
\<close>

locale mask_translation =
  fixes one :: "u32 \<Rightarrow> u32 option" and translate :: "u32 \<Rightarrow> u32"
  assumes translate_loop: "translate m = mask_loop (\<lambda>b acc. case one b of None \<Rightarrow> acc | Some w \<Rightarrow> acc OR w) m 0"
begin

lemma bit_translate: "bit (translate m) n \<longleftrightarrow> (\<exists>k. bit m k \<and> (\<exists>w. one (lone_bit k) = Some w \<and> bit w n))"
  unfolding translate_loop mask_loop_fold
  by (subst bit_fold_or [where f = "\<lambda>k. one (lone_bit k)"]) (auto simp: set_set_bits)

lemma translate_table:
  assumes "\<And>k. one (lone_bit k) = map_option SKW_BIT (map_of tab k)" "distinct (map fst tab)"
  shows "translate m = foldr (\<lambda>(k, n) acc. when_bit (bit m k) n OR acc) tab 0"
proof (rule bit_eqI)
  fix i
  have "bit (foldr (\<lambda>(k, n) acc. when_bit (bit m k) n OR acc) tab 0) i \<longleftrightarrow> (\<exists>(k, n) \<in> set tab. bit m k \<and> bit (SKW_BIT n) i)"
    by (induction tab) (auto simp: bit_or_iff when_bit_def split: if_splits)
  moreover have "(\<exists>w. one (lone_bit k) = Some w \<and> bit w i) \<longleftrightarrow> (\<exists>n. (k, n) \<in> set tab \<and> bit (SKW_BIT n) i)" for k
    using assms(2) by (auto simp: assms(1) map_of_eq_Some_iff)
  ultimately show "bit (translate m) i \<longleftrightarrow> bit (foldr (\<lambda>(k, n) acc. when_bit (bit m k) n OR acc) tab 0) i"
    unfolding bit_translate by auto
qed

end

text \<open>The values of the code that are \<open>SKW_INVALID\<close> add nothing.\<close>

definition valid_mask :: "u32 \<Rightarrow> u32 option" where
  "valid_mask w = (if w \<noteq> SKW_INVALID then Some w else None)"

lemma loop_valid_mask:
  "(\<lambda>b acc. let msk = f b in if msk \<noteq> SKW_INVALID then acc OR msk else acc) =
   (\<lambda>b acc. case valid_mask (f b) of None \<Rightarrow> acc | Some w \<Rightarrow> acc OR w)"
  by (intro ext) (simp add: valid_mask_def Let_def)

lemma loop_bits:
  "(\<lambda>b acc. case map_option SKW_BIT (f b) of None \<Rightarrow> acc | Some w \<Rightarrow> acc OR w) =
   (\<lambda>b acc. case f b of None \<Rightarrow> acc | Some n \<Rightarrow> acc OR SKW_BIT n)"
  by (intro ext) (simp split: option.split)

lemma valid_SKW_BIT: "valid_mask (SKW_BIT j) = Some (SKW_BIT j)" "valid_mask SKW_INVALID = None"
  by (simp_all add: valid_mask_def SKW_BIT_valid)

interpretation band: mask_translation "\<lambda>b. map_option SKW_BIT (to_skw_band h b)" "to_skw_band_mask h" for h
  by unfold_locales (simp only: to_skw_band_mask_def loop_bits)

interpretation hal: mask_translation "\<lambda>b. valid_mask (to_hal_iface_mode_mask h b)" "to_hal_iface_mask h" for h
  by unfold_locales (simp add: to_hal_iface_mask_def loop_valid_mask)

interpretation skw: mask_translation "\<lambda>b. valid_mask (to_skw_iface_mode_mask h b)" "to_skw_iface_mask h" for h
  by unfold_locales (simp add: to_skw_iface_mask_def loop_valid_mask)

section \<open>The translations\<close>

text \<open>
  What \<open>wifi_hal.h\<close> says of the numbers: each band is a bit of its own, and the interface types
  differ and are bit numbers.
\<close>

definition bands_numbered :: "hal_numbers \<Rightarrow> nat \<Rightarrow> nat \<Rightarrow> nat \<Rightarrow> nat \<Rightarrow> bool" where
  "bands_numbered h b0 b1 b2 b3 \<longleftrightarrow>
     WLAN_MAC_2_4_BAND h = SKW_BIT b0 \<and> WLAN_MAC_5_0_BAND h = SKW_BIT b1 \<and> WLAN_MAC_6_0_BAND h = SKW_BIT b2 \<and>
     WLAN_MAC_60_0_BAND h = SKW_BIT b3 \<and> distinct [b0, b1, b2, b3] \<and> (\<forall>b \<in> {b0, b1, b2, b3}. b < 31)"

definition types_numbered :: "hal_numbers \<Rightarrow> bool" where
  "types_numbered h \<longleftrightarrow> distinct [WIFI_INTERFACE_TYPE_STA h, WIFI_INTERFACE_TYPE_AP h, WIFI_INTERFACE_TYPE_P2P h] \<and>
     (\<forall>t \<in> {WIFI_INTERFACE_TYPE_STA h, WIFI_INTERFACE_TYPE_AP h, WIFI_INTERFACE_TYPE_P2P h}. t < 31)"

lemma band_mask_table:
  assumes "bands_numbered h b0 b1 b2 b3"
  shows "to_skw_band_mask h m = when_bit (bit m b0) SKW_BAND_2GHZ OR when_bit (bit m b1) SKW_BAND_5GHZ OR
    when_bit (bit m b2) SKW_BAND_6GHZ OR when_bit (bit m b3) SKW_BAND_60GHZ"
  using assms
  by (subst band.translate_table [where tab = "[(b0, 0), (b1, 1), (b2, 2), (b3, 3)]"])
    (auto simp: to_skw_band_def bands_numbered_def lone_bit_eq or.assoc)

lemma hal_iface_mask_table:
  "to_hal_iface_mask h m = when_bit (bit m SKW_MODE_STA) (WIFI_INTERFACE_TYPE_STA h) OR
    when_bit (bit m SKW_MODE_AP) (WIFI_INTERFACE_TYPE_AP h) OR
    when_bit (bit m SKW_MODE_GC \<or> bit m SKW_MODE_GO) (WIFI_INTERFACE_TYPE_P2P h)"
  by (subst hal.translate_table [where tab = "[(1, WIFI_INTERFACE_TYPE_STA h), (2, WIFI_INTERFACE_TYPE_AP h),
        (3, WIFI_INTERFACE_TYPE_P2P h), (4, WIFI_INTERFACE_TYPE_P2P h)]"])
    (simp_all add: to_hal_iface_mode_mask_def lone_bit_eq valid_SKW_BIT when_bit_or [symmetric] or.assoc)

lemma skw_iface_mask_table:
  assumes "types_numbered h"
  shows "to_skw_iface_mask h m = when_bit (bit m (WIFI_INTERFACE_TYPE_STA h)) SKW_MODE_STA OR
    when_bit (bit m (WIFI_INTERFACE_TYPE_AP h)) SKW_MODE_AP OR when_bit (bit m (WIFI_INTERFACE_TYPE_P2P h)) SKW_MODE_GC"
  using assms
  by (subst skw.translate_table [where tab = "[(WIFI_INTERFACE_TYPE_STA h, 1), (WIFI_INTERFACE_TYPE_AP h, 2), (WIFI_INTERFACE_TYPE_P2P h, 3)]"])
    (auto simp: to_skw_iface_mode_mask_def types_numbered_def lone_bit_eq valid_SKW_BIT or.assoc)

lemmas mask_tables = band_mask_table hal_iface_mask_table skw_iface_mask_table

text \<open>
  C12: The loops over the bits of a mask compute what a table of their bits says, for every mask: each
  band and each interface type of the mask gives the bit of its counterpart, and everything else in
  the mask is dropped. The clients and owners of a peer-to-peer group both become the one type the
  HAL has for them.
\<close>

theorem mask_translations_table:
  assumes "bands_numbered h b0 b1 b2 b3" and "types_numbered h"
  shows "to_skw_band_mask h m =
      when_bit (bit m b0) SKW_BAND_2GHZ OR when_bit (bit m b1) SKW_BAND_5GHZ OR when_bit (bit m b2) SKW_BAND_6GHZ OR
      when_bit (bit m b3) SKW_BAND_60GHZ \<and>
    to_hal_iface_mask h m =
      when_bit (bit m SKW_MODE_STA) (WIFI_INTERFACE_TYPE_STA h) OR when_bit (bit m SKW_MODE_AP) (WIFI_INTERFACE_TYPE_AP h) OR
      when_bit (bit m SKW_MODE_GC \<or> bit m SKW_MODE_GO) (WIFI_INTERFACE_TYPE_P2P h) \<and>
    to_skw_iface_mask h m =
      when_bit (bit m (WIFI_INTERFACE_TYPE_STA h)) SKW_MODE_STA OR when_bit (bit m (WIFI_INTERFACE_TYPE_AP h)) SKW_MODE_AP OR
      when_bit (bit m (WIFI_INTERFACE_TYPE_P2P h)) SKW_MODE_GC"
  using mask_tables(1) [OF assms(1)] mask_tables(2) mask_tables(3) [OF assms(2)] by simp

text \<open>
  Interface masks that go to the driver and back keep the station, access-point and peer-to-peer
  bits and lose all others. The other way, masks of the driver keep stations, access points and
  clients of a group, and an owner of a group comes back as a client.
\<close>

theorem iface_mask_roundtrip:
  assumes "types_numbered h"
  shows "to_hal_iface_mask h (to_skw_iface_mask h m) =
      m AND (SKW_BIT (WIFI_INTERFACE_TYPE_STA h) OR SKW_BIT (WIFI_INTERFACE_TYPE_AP h) OR SKW_BIT (WIFI_INTERFACE_TYPE_P2P h)) \<and>
    to_skw_iface_mask h (to_hal_iface_mask h m) =
      (m AND (SKW_BIT SKW_MODE_STA OR SKW_BIT SKW_MODE_AP OR SKW_BIT SKW_MODE_GC)) OR when_bit (bit m SKW_MODE_GO) SKW_MODE_GC"
proof
  note n = assms [unfolded types_numbered_def]
  show "to_hal_iface_mask h (to_skw_iface_mask h m) =
      m AND (SKW_BIT (WIFI_INTERFACE_TYPE_STA h) OR SKW_BIT (WIFI_INTERFACE_TYPE_AP h) OR SKW_BIT (WIFI_INTERFACE_TYPE_P2P h))"
    using n by (intro bit_eqI) (auto simp: mask_tables(2) mask_tables(3) [OF assms] bit_or_iff bit_and_iff bit_when_bit bit_SKW_BIT)
  show "to_skw_iface_mask h (to_hal_iface_mask h m) =
      (m AND (SKW_BIT SKW_MODE_STA OR SKW_BIT SKW_MODE_AP OR SKW_BIT SKW_MODE_GC)) OR when_bit (bit m SKW_MODE_GO) SKW_MODE_GC"
    using n by (intro bit_eqI) (auto simp: mask_tables(2) mask_tables(3) [OF assms] bit_or_iff bit_and_iff bit_when_bit bit_SKW_BIT)
qed

definition sample_numbers :: hal_numbers where
  "sample_numbers =
     \<lparr>WLAN_MAC_2_4_BAND = 1, WLAN_MAC_5_0_BAND = 2, WLAN_MAC_6_0_BAND = 4, WLAN_MAC_60_0_BAND = 8,
      WIFI_INTERFACE_TYPE_STA = 0, WIFI_INTERFACE_TYPE_AP = 1, WIFI_INTERFACE_TYPE_P2P = 2\<rparr>"

lemma sample_numbered: "bands_numbered sample_numbers 0 1 2 3" "types_numbered sample_numbers"
  by (simp_all add: bands_numbered_def types_numbered_def sample_numbers_def SKW_BIT_def)

theorem mask_translations_table_witness: "to_skw_band_mask sample_numbers 0x13 = 0x3 \<and> to_hal_iface_mask sample_numbers 0x32 = 0x5"
  using mask_translations_table [OF sample_numbered, of "0x13"] mask_translations_table [OF sample_numbered, of "0x32"]
  by (simp add: when_bit_def SKW_BIT_def sample_numbers_def)

theorem iface_mask_roundtrip_witness: "to_hal_iface_mask sample_numbers (to_skw_iface_mask sample_numbers 0x1D) = 0x5"
  using iface_mask_roundtrip [OF sample_numbered(2), of "0x1D"]
  by (simp add: SKW_BIT_def sample_numbers_def)

end
