(* ===== verification/WifiCmd.thy ===== *)
theory WifiCmd
  imports WifiMask
begin

text \<open>
  The netlink commands of the Wi-Fi HAL: \<open>sendMsg\<close> of \<open>wifi_command.cpp\<close>, and the command classes of
  \<open>main.cpp\<close> with their builders and parsers. What libnl makes of a message, its attributes and
  its nested attributes, and the callbacks a receive call makes, are arguments.
\<close>

section \<open>Messages\<close>

datatype wifi_error =
    WIFI_SUCCESS | WIFI_ERROR_UNKNOWN | WIFI_ERROR_NOT_AVAILABLE | WIFI_ERROR_OUT_OF_MEMORY | WIFI_ERROR_TIMED_OUT
  | WIFI_ERROR_NOT_SUPPORTED | WIFI_ERROR_UNINITIALIZED

text \<open>The attributes the code names, of nl80211 and of the generic netlink controller.\<close>

datatype nl80211_attr =
    NL80211_ATTR_IFINDEX | NL80211_ATTR_IFNAME | NL80211_ATTR_WDEV | NL80211_ATTR_VENDOR_ID
  | NL80211_ATTR_VENDOR_SUBCMD | NL80211_ATTR_VENDOR_DATA | CTRL_ATTR_FAMILY_NAME | CTRL_ATTR_MCAST_GROUPS

text \<open>
  A received message as \<open>nla_parse\<close> presents it; a nested payload as \<open>nla_for_each_attr\<close> walks through it;
  and what the builders put into a message.
\<close>

type_synonym attrs = "nl80211_attr \<Rightarrow> byte list option"
type_synonym nested = "byte list \<Rightarrow> (nat \<times> byte list) list"

datatype msg_attr = Put nl80211_attr "byte list" | Nest nl80211_attr "(nat \<times> byte list) list"

definition u32_bytes :: "u32 \<Rightarrow> byte list" where
  "u32_bytes w = [ucast w, ucast (drop_bit 8 w), ucast (drop_bit 16 w), ucast (drop_bit 24 w)]"

definition le32 :: "byte list \<Rightarrow> u32" where
  "le32 bs = ucast (bs ! 0) OR push_bit 8 (ucast (bs ! 1)) OR push_bit 16 (ucast (bs ! 2)) OR push_bit 24 (ucast (bs ! 3))"

lemma le32_u32_bytes: "le32 (u32_bytes w @ r) = w"
proof (rule bit_eqI)
  fix n
  assume "possible_bit TYPE(u32) n"
  then have "n < 32" by simp
  then consider "n < 8" | "8 \<le> n" "n < 16" | "16 \<le> n" "n < 24" | "24 \<le> n" "n < 32" by linarith
  then show "bit (le32 (u32_bytes w @ r)) n \<longleftrightarrow> bit w n"
    by cases (auto simp: le32_def u32_bytes_def bit_simps)
qed

lemma length_u32_bytes [simp]: "length (u32_bytes w) = 4"
  by (simp add: u32_bytes_def)

text \<open>\<open>nla_get_u32\<close> reads four bytes of the payload whatever its length, \<open>nla_get_string\<close> up to the terminator.\<close>

definition nla_get_u32 :: "byte list \<Rightarrow> c_fault + u32" where
  "nla_get_u32 p = (if length p < 4 then Inl OutOfBounds else Inr (le32 p))"

definition nla_get_string :: "byte list \<Rightarrow> byte list" where
  "nla_get_string p = takeWhile (\<lambda>b. b \<noteq> 0) p"

lemma nla_get_u32_bytes [simp]: "nla_get_u32 (u32_bytes w @ r) = Inr w" "nla_get_u32 (u32_bytes w) = Inr w"
  using le32_u32_bytes [of w r] le32_u32_bytes [of w "[]"] by (simp_all add: nla_get_u32_def)

section \<open>Sending a command\<close>

text \<open>
  The callbacks of a command: a message for its parser, the end of a dump, an acknowledgement, an
  error message with its number.
\<close>

datatype cb_call = Cb_valid attrs | Cb_finish | Cb_ack | Cb_error int

type_synonym 's parser = "attrs \<Rightarrow> 's \<Rightarrow> c_fault + (wifi_error \<times> 's)"

text \<open>
  \<open>msgHandler\<close>, \<open>finishHandler\<close>, \<open>ackHandler\<close> and \<open>errorHandler\<close> over the callbacks one \<open>nl_recvmsgs\<close> makes,
  on the variable \<open>err\<close> and the state of the command.
\<close>

fun recv_calls :: "'s parser \<Rightarrow> cb_call list \<Rightarrow> int \<Rightarrow> 's \<Rightarrow> c_fault + (int \<times> 's)" where
  "recv_calls parser [] err st = Inr (err, st)"
| "recv_calls parser (Cb_valid a # cs) err st =
     (case parser a st of Inl e \<Rightarrow> Inl e | Inr (_, st') \<Rightarrow> recv_calls parser cs err st')"
| "recv_calls parser (Cb_finish # cs) err st = recv_calls parser cs 0 st"
| "recv_calls parser (Cb_ack # cs) err st = recv_calls parser cs 0 st"
| "recv_calls parser (Cb_error e # cs) err st = recv_calls parser cs 0 st"

text \<open>The loop of \<open>sendMsg\<close> over its calls of \<open>nl_recvmsgs\<close>; \<open>None\<close> when it still waits for the next one.\<close>

fun recv_loop :: "'s parser \<Rightarrow> cb_call list list \<Rightarrow> int \<Rightarrow> 's \<Rightarrow> c_fault + (int \<times> 's) option" where
  "recv_loop parser [] err st = Inr (if err > 0 then None else Some (err, st))"
| "recv_loop parser (cs # os) err st =
     (if err > 0 then
        (case recv_calls parser cs err st of Inl e \<Rightarrow> Inl e | Inr (err', st') \<Rightarrow> recv_loop parser os err' st')
      else Inr (Some (err, st)))"

text \<open>
  \<open>sendMsg\<close>: whether the callbacks were allocated, what \<open>nl_send_auto_complete\<close> returned, and the receive
  calls.
\<close>

record send_obs =
  cb_alloc :: bool
  nl_sent :: int
  nl_calls :: "cb_call list list"

definition sendMsg :: "'s parser \<Rightarrow> send_obs \<Rightarrow> 's \<Rightarrow> c_fault + (wifi_error \<times> 's) option" where
  "sendMsg parser obs st =
     (if \<not> cb_alloc obs then Inr (Some (WIFI_ERROR_OUT_OF_MEMORY, st))
      else
        (case recv_loop parser (nl_calls obs) (nl_sent obs) st of
           Inl e \<Rightarrow> Inl e
         | Inr None \<Rightarrow> Inr None
         | Inr (Some (err, st')) \<Rightarrow> Inr (Some (if err \<noteq> 0 then WIFI_ERROR_UNKNOWN else WIFI_SUCCESS, st'))))"

text \<open>The calls of a public function around its \<open>send\<close>.\<close>

definition after_send :: "'s parser \<Rightarrow> send_obs \<Rightarrow> 's \<Rightarrow> (wifi_error \<Rightarrow> 's \<Rightarrow> c_fault + 'r) \<Rightarrow> c_fault + 'r option" where
  "after_send parser obs st f =
     (case sendMsg parser obs st of
        Inl e \<Rightarrow> Inl e
      | Inr None \<Rightarrow> Inr None
      | Inr (Some (err, st')) \<Rightarrow> map_sum id Some (f err st'))"

section \<open>Interfaces\<close>

text \<open>The name is the string in the array of \<open>IFNAMSIZ + 1\<close> bytes.\<close>

record interface_info =
  iface_idx :: u32
  wdev_idx :: u32
  iface_name :: "byte list"

definition zero_info :: interface_info where
  "zero_info = \<lparr>iface_idx = 0, wdev_idx = 0, iface_name = []\<rparr>"

definition SKW_NR_IFACE :: nat where "SKW_NR_IFACE = 8"

definition IFNAMSIZ :: nat where "IFNAMSIZ = 16"

definition name_strcpy :: "byte list \<Rightarrow> interface_info \<Rightarrow> c_fault + interface_info" where
  "name_strcpy name i = (if length name < IFNAMSIZ + 1 then Inr (i\<lparr>iface_name := name\<rparr>) else Inl OutOfBounds)"

text \<open>
  \<open>GetInterfacesCommand\<close>: its number of interfaces and its array, whose first element only the
  constructor clears.
\<close>

definition GetInterfaces_init :: "interface_info list \<Rightarrow> nat \<times> interface_info list" where
  "GetInterfaces_init stack = (0, stack[0 := zero_info])"

definition GetInterfaces_parser :: "(nat \<times> interface_info list) parser" where
  "GetInterfaces_parser attr = (\<lambda>(index, ifaces).
     if length ifaces \<le> index then Inl OutOfBounds
     else
       let i = ifaces ! index in
       (case (case attr NL80211_ATTR_IFINDEX of
                Some p \<Rightarrow> map_sum id (\<lambda>w. i\<lparr>iface_idx := w\<rparr>) (nla_get_u32 p)
              | None \<Rightarrow>
                  (case attr NL80211_ATTR_WDEV of
                     Some p \<Rightarrow> map_sum id (\<lambda>w. i\<lparr>wdev_idx := w\<rparr>) (nla_get_u32 p)
                   | None \<Rightarrow> Inl NullDeref)) of
          Inl e \<Rightarrow> Inl e
        | Inr i1 \<Rightarrow>
            (case (case attr NL80211_ATTR_IFNAME of Some p \<Rightarrow> name_strcpy (nla_get_string p) i1 | None \<Rightarrow> Inr i1) of
               Inl e \<Rightarrow> Inl e
             | Inr i2 \<Rightarrow> Inr (WIFI_SUCCESS, (Suc index, ifaces[index := i2])))))"

text \<open>The copying loop of \<open>skw_wifi_get_ifaces\<close>, over the cleared array of the HAL.\<close>

fun copy_ifaces :: "interface_info list \<Rightarrow> c_fault + interface_info list" where
  "copy_ifaces [] = Inr []"
| "copy_ifaces (i # is) =
     (case name_strcpy (iface_name i) zero_info of
        Inl e \<Rightarrow> Inl e
      | Inr j \<Rightarrow> map_sum id (\<lambda>js. j\<lparr>iface_idx := iface_idx i, wdev_idx := wdev_idx i\<rparr> # js) (copy_ifaces is))"

text \<open>\<open>skw_wifi_get_ifaces\<close>: the result and the interfaces the HAL then has.\<close>

definition skw_wifi_get_ifaces :: "interface_info list \<Rightarrow> send_obs \<Rightarrow> c_fault + (wifi_error \<times> interface_info list) option" where
  "skw_wifi_get_ifaces stack obs =
     after_send GetInterfaces_parser obs (GetInterfaces_init stack) (\<lambda>err (index, ifaces).
       if index = 0 then Inr (WIFI_ERROR_UNKNOWN, [])
       else map_sum id (Pair WIFI_SUCCESS) (copy_ifaces (take index ifaces)))"

section \<open>Building commands\<close>

definition OUI_GOOGLE :: u32 where "OUI_GOOGLE = 0x001A11"

definition put_u32 :: "nl80211_attr \<Rightarrow> u32 \<Rightarrow> msg_attr" where
  "put_u32 attribute v = Put attribute (u32_bytes v)"

definition put_iface :: "interface_info \<Rightarrow> msg_attr list" where
  "put_iface i =
     (if wdev_idx i \<noteq> 0 then [put_u32 NL80211_ATTR_WDEV (wdev_idx i)] else [put_u32 NL80211_ATTR_IFINDEX (iface_idx i)])"

definition put_vendor :: "u32 \<Rightarrow> msg_attr list" where
  "put_vendor subcmd = [put_u32 NL80211_ATTR_VENDOR_ID OUI_GOOGLE, put_u32 NL80211_ATTR_VENDOR_SUBCMD subcmd]"

abbreviation (input) SKW_VCMD_GET_CHANNELS :: u32 where "SKW_VCMD_GET_CHANNELS \<equiv> 0x1009"
abbreviation (input) SKW_VCMD_SET_COUNTRY :: u32 where "SKW_VCMD_SET_COUNTRY \<equiv> 0x100E"
abbreviation (input) SKW_VCMD_GET_VERSION :: u32 where "SKW_VCMD_GET_VERSION \<equiv> 0x1403"
abbreviation (input) SKW_VCMD_GET_RING_BUFFERS_STATUS :: u32 where "SKW_VCMD_GET_RING_BUFFERS_STATUS \<equiv> 0x1404"
abbreviation (input) SKW_VCMD_GET_LOGGER_FEATURES :: u32 where "SKW_VCMD_GET_LOGGER_FEATURES \<equiv> 0x1406"
abbreviation (input) SKW_VCMD_GET_APF_CAPABILITIES :: u32 where "SKW_VCMD_GET_APF_CAPABILITIES \<equiv> 0x1800"
abbreviation (input) SKW_VCMD_GET_USABLE_CHANS :: u32 where "SKW_VCMD_GET_USABLE_CHANS \<equiv> 0x2000"

definition GetValidChannels_build :: "interface_info \<Rightarrow> u32 \<Rightarrow> msg_attr list" where
  "GetValidChannels_build i band =
     put_iface i @ put_vendor SKW_VCMD_GET_CHANNELS @ [Nest NL80211_ATTR_VENDOR_DATA [(20, u32_bytes band)]]"

definition SetCountryCode_build :: "interface_info \<Rightarrow> byte list \<Rightarrow> msg_attr list" where
  "SetCountryCode_build i country =
     put_vendor SKW_VCMD_SET_COUNTRY @ put_iface i @ [Nest NL80211_ATTR_VENDOR_DATA [(5, nla_get_string country @ [0])]]"

definition GetVersion_build :: "interface_info \<Rightarrow> nat \<Rightarrow> msg_attr list" where
  "GetVersion_build i subcmd =
     put_vendor SKW_VCMD_GET_VERSION @ put_iface i @ [Nest NL80211_ATTR_VENDOR_DATA [(subcmd, u32_bytes 0)]]"

definition GetRingBuffStatus_build :: "interface_info \<Rightarrow> msg_attr list" where
  "GetRingBuffStatus_build i = put_vendor SKW_VCMD_GET_RING_BUFFERS_STATUS @ put_iface i"

definition GetLoggerFeature_build :: "interface_info \<Rightarrow> msg_attr list" where
  "GetLoggerFeature_build i = put_vendor SKW_VCMD_GET_LOGGER_FEATURES @ put_iface i"

definition GetPacketFilterCapa_build :: "interface_info \<Rightarrow> msg_attr list" where
  "GetPacketFilterCapa_build i = put_vendor SKW_VCMD_GET_APF_CAPABILITIES @ put_iface i"


section \<open>Parsing answers\<close>

text \<open>The loop over the nested attributes of \<open>NL80211_ATTR_VENDOR_DATA\<close>, which the vendor commands share.\<close>

fun each_attr :: "(nat \<Rightarrow> byte list \<Rightarrow> 's \<Rightarrow> c_fault + 's) \<Rightarrow> (nat \<times> byte list) list \<Rightarrow> 's \<Rightarrow> c_fault + 's" where
  "each_attr body [] st = Inr st"
| "each_attr body ((t, p) # nlas) st =
     (case body t p st of Inl e \<Rightarrow> Inl e | Inr st' \<Rightarrow> each_attr body nlas st')"

definition vendor_parser :: "nested \<Rightarrow> (nat \<Rightarrow> byte list \<Rightarrow> 's \<Rightarrow> c_fault + 's) \<Rightarrow> 's parser" where
  "vendor_parser nested body attr st =
     (case attr NL80211_ATTR_VENDOR_DATA of
        None \<Rightarrow> Inr (WIFI_ERROR_NOT_AVAILABLE, st)
      | Some data \<Rightarrow> map_sum id (Pair WIFI_SUCCESS) (each_attr body (nested data) st))"

text \<open>
  \<open>GetValidChannelsCommand\<close>: the caller's array of channels as bytes, and the number. Nothing compares
  either with the size of the array.
\<close>

definition GetValidChannels_init :: "nat \<Rightarrow> byte list \<times> u32" where
  "GetValidChannels_init max_channels = (replicate (max_channels * 4) 0, 0)"

definition GetValidChannels_parser :: "nested \<Rightarrow> (byte list \<times> u32) parser" where
  "GetValidChannels_parser nested = vendor_parser nested (\<lambda>t p (mChannels, nr_channels).
     if t = 36 then map_sum id (Pair mChannels) (nla_get_u32 p)
     else if t = 37 then map_sum id (\<lambda>buf. (buf, nr_channels)) (store mChannels 0 p)
     else Inr (mChannels, nr_channels))"

definition skw_wifi_get_valid_channels :: "nested \<Rightarrow> nat \<Rightarrow> send_obs \<Rightarrow> c_fault + (wifi_error \<times> byte list \<times> u32) option" where
  "skw_wifi_get_valid_channels nested max_channels obs =
     after_send (GetValidChannels_parser nested) obs (GetValidChannels_init max_channels) (\<lambda>err st. Inr (err, st))"

text \<open>\<open>strncpy\<close> of a string: padded with terminators, without one when the string is too long.\<close>

definition strncpy :: "nat \<Rightarrow> byte list \<Rightarrow> byte list" where
  "strncpy n s = take n (nla_get_string s @ replicate n 0)"

definition SKW_BUFF_SIZE :: nat where "SKW_BUFF_SIZE = 256"

definition GetVersion_parser :: "byte list parser" where
  "GetVersion_parser attr buff =
     (case attr NL80211_ATTR_VENDOR_DATA of
        Some data \<Rightarrow> Inr (WIFI_SUCCESS, strncpy SKW_BUFF_SIZE data)
      | None \<Rightarrow> Inr (WIFI_SUCCESS, buff))"

text \<open>
  The versions: of the firmware whatever the result, of the driver only on success; \<open>buffer\<close> is the
  caller's buffer of \<open>buffer_size\<close> bytes.
\<close>

definition skw_wifi_get_firmware_version :: "byte list \<Rightarrow> send_obs \<Rightarrow> c_fault + (wifi_error \<times> byte list) option" where
  "skw_wifi_get_firmware_version buffer obs =
     after_send GetVersion_parser obs (replicate SKW_BUFF_SIZE 0) (\<lambda>err buff. Inr (err, strncpy (length buffer) buff))"

definition skw_wifi_get_driver_version :: "byte list \<Rightarrow> send_obs \<Rightarrow> c_fault + (wifi_error \<times> byte list) option" where
  "skw_wifi_get_driver_version buffer obs =
     after_send GetVersion_parser obs (replicate SKW_BUFF_SIZE 0)
       (\<lambda>err buff. Inr (err, if err = WIFI_SUCCESS then strncpy (length buffer) buff else buffer))"

text \<open>
  \<open>GetRingBuffStatus\<close>: the caller's array of statuses, of \<open>status_size\<close> bytes each, the position in it,
  and the number reported. Every message starts at the front of the array.
\<close>

definition GetRingBuffStatus_parser :: "nat \<Rightarrow> nested \<Rightarrow> (byte list list \<times> nat) parser" where
  "GetRingBuffStatus_parser status_size nested attr = (\<lambda>(mStatus, num).
     map_sum id (\<lambda>(e, (mStatus', num', i)). (e, (mStatus', num')))
       (vendor_parser nested (\<lambda>t p (mStatus, num, i).
          if t = 13 then
            (if length p = status_size then
               (if i < length mStatus then Inr (mStatus[i := p], Suc i, Suc i) else Inl OutOfBounds)
             else Inr (mStatus, num, i))
          else if t = 14 then map_sum id (\<lambda>_. (mStatus, num, i)) (nla_get_u32 p)
          else Inr (mStatus, num, i)) attr (mStatus, num, 0)))"

definition skw_wifi_get_ring_buffers_status ::
    "nat \<Rightarrow> nested \<Rightarrow> byte list list \<Rightarrow> send_obs \<Rightarrow> c_fault + (wifi_error \<times> byte list list \<times> nat) option" where
  "skw_wifi_get_ring_buffers_status status_size nested status obs =
     after_send (GetRingBuffStatus_parser status_size nested) obs (status, 0) (\<lambda>err st. Inr (WIFI_SUCCESS, st))"

definition GetLoggerFeature_parser :: "u32 parser" where
  "GetLoggerFeature_parser attr mFeatures =
     (case attr NL80211_ATTR_VENDOR_DATA of
        None \<Rightarrow> Inr (WIFI_ERROR_NOT_AVAILABLE, mFeatures)
      | Some data \<Rightarrow> map_sum id (Pair WIFI_SUCCESS) (nla_get_u32 data))"

definition skw_wifi_get_logger_supported_feature_set :: "send_obs \<Rightarrow> c_fault + (wifi_error \<times> u32) option" where
  "skw_wifi_get_logger_supported_feature_set obs =
     after_send GetLoggerFeature_parser obs 0 (\<lambda>err mFeatures. Inr (WIFI_SUCCESS, mFeatures))"

definition GetPacketFilterCapa_parser :: "nested \<Rightarrow> (u32 \<times> u32) parser" where
  "GetPacketFilterCapa_parser nested = vendor_parser nested (\<lambda>t p (mVersion, mLength).
     if t = 0 then map_sum id (\<lambda>w. (w, mLength)) (nla_get_u32 p)
     else if t = 1 then map_sum id (\<lambda>w. (mVersion, w)) (nla_get_u32 p)
     else Inr (mVersion, mLength))"

definition skw_wifi_get_packet_filter_capabilities :: "nested \<Rightarrow> send_obs \<Rightarrow> c_fault + (wifi_error \<times> u32 \<times> u32) option" where
  "skw_wifi_get_packet_filter_capabilities nested obs =
     after_send (GetPacketFilterCapa_parser nested) obs (0, 0) (\<lambda>err st. Inr (WIFI_SUCCESS, st))"

definition skw_wifi_set_country_code :: "send_obs \<Rightarrow> c_fault + wifi_error option" where
  "skw_wifi_set_country_code obs = after_send (\<lambda>attr st. Inr (WIFI_SUCCESS, st)) obs () (\<lambda>err st. Inr err)"

section \<open>Usable channels\<close>

text \<open>
  \<open>struct skw_usable_chan_info\<close>, of which the code sets two fields and leaves the others as they are on
  the stack, and \<open>struct skw_usable_chan\<close>, twelve bytes.
\<close>

record skw_usable_chan_info =
  band_mask :: u32
  filter_mask :: u32
  iface_mode_mask :: u32
  info_flags :: u32
  info_resvd :: u32

definition info_bytes :: "skw_usable_chan_info \<Rightarrow> byte list" where
  "info_bytes info =
     u32_bytes (band_mask info) @ u32_bytes (filter_mask info) @ u32_bytes (iface_mode_mask info) @
     u32_bytes (info_flags info) @ u32_bytes (info_resvd info)"

definition GetUsableChannels_build :: "interface_info \<Rightarrow> skw_usable_chan_info \<Rightarrow> msg_attr list" where
  "GetUsableChannels_build i info =
     put_iface i @ put_vendor SKW_VCMD_GET_USABLE_CHANS @ [Put NL80211_ATTR_VENDOR_DATA (info_bytes info)]"

text \<open>The copy of the answer, without contents if its allocation fails.\<close>

definition GetUsableChannels_parser :: "bool \<Rightarrow> byte list parser" where
  "GetUsableChannels_parser malloc_ok attr mChanData =
     (case attr NL80211_ATTR_VENDOR_DATA of
        None \<Rightarrow> Inr (WIFI_ERROR_NOT_AVAILABLE, mChanData)
      | Some data \<Rightarrow> Inr (WIFI_SUCCESS, if malloc_ok then data else []))"

datatype wifi_channel_width =
    WIFI_CHAN_WIDTH_20 | WIFI_CHAN_WIDTH_40 | WIFI_CHAN_WIDTH_80 | WIFI_CHAN_WIDTH_160 | WIFI_CHAN_WIDTH_80P80
  | WIFI_CHAN_WIDTH_INVALID

definition to_hal_band_width :: "u16 \<Rightarrow> wifi_channel_width" where
  "to_hal_band_width skw_bw =
     (if skw_bw = 0 then WIFI_CHAN_WIDTH_20
      else if skw_bw = 1 then WIFI_CHAN_WIDTH_40
      else if skw_bw = 2 then WIFI_CHAN_WIDTH_80
      else if skw_bw = 4 then WIFI_CHAN_WIDTH_160
      else if skw_bw = 3 then WIFI_CHAN_WIDTH_80P80
      else WIFI_CHAN_WIDTH_INVALID)"

record wifi_usable_channel =
  freq :: u32
  width :: wifi_channel_width
  modes :: u32

definition CHAN_SIZE :: nat where "CHAN_SIZE = 12"

definition chan_at :: "hal_numbers \<Rightarrow> byte list \<Rightarrow> nat \<Rightarrow> wifi_usable_channel" where
  "chan_at h data i =
     (let b = CHAN_SIZE * i in
      \<lparr>freq = ucast (le16 (data ! b) (data ! (b + 1))),
       width = to_hal_band_width (le16 (data ! (b + 2)) (data ! (b + 3))),
       modes = to_hal_iface_mask h (ucast (le16 (data ! (b + 4)) (data ! (b + 5))))\<rparr>)"

text \<open>The loop that fills the caller's array.\<close>

fun fill_channels :: "hal_numbers \<Rightarrow> byte list \<Rightarrow> nat \<Rightarrow> nat \<Rightarrow> wifi_usable_channel list \<Rightarrow> c_fault + wifi_usable_channel list" where
  "fill_channels h data i 0 channels = Inr channels"
| "fill_channels h data i (Suc n) channels =
     (if length channels \<le> i \<or> length data < CHAN_SIZE * Suc i then Inl OutOfBounds
      else fill_channels h data (Suc i) n (channels[i := chan_at h data i]))"

text \<open>
  \<open>skw_wifi_get_usable_channels\<close>: the request, and the result with the number of channels; \<open>info\<close> is
  the structure as it lies on the stack.
\<close>

definition usable_request :: "hal_numbers \<Rightarrow> interface_info \<Rightarrow> skw_usable_chan_info \<Rightarrow> u32 \<Rightarrow> u32 \<Rightarrow> msg_attr list" where
  "usable_request h i info bands ifaces =
     GetUsableChannels_build i (info\<lparr>band_mask := to_skw_band_mask h bands, iface_mode_mask := to_skw_iface_mask h ifaces\<rparr>)"

definition skw_wifi_get_usable_channels ::
    "hal_numbers \<Rightarrow> bool \<Rightarrow> u32 \<Rightarrow> send_obs \<Rightarrow> wifi_usable_channel list \<Rightarrow> c_fault + (wifi_error \<times> u32 \<times> wifi_usable_channel list) option" where
  "skw_wifi_get_usable_channels h malloc_ok max_size obs channels =
     after_send (GetUsableChannels_parser malloc_ok) obs [] (\<lambda>err data.
       let nr_chan = of_nat (length data div CHAN_SIZE) :: u32;
           size = (if nr_chan > max_size then max_size else nr_chan)
       in map_sum id (\<lambda>chans. (WIFI_SUCCESS, size, chans)) (fill_channels h data 0 (unat size) channels))"

section \<open>Multicast groups\<close>

text \<open>\<open>strncmp\<close> on at most \<open>n\<close> bytes, equal or not.\<close>

fun strncmp_eq :: "nat \<Rightarrow> byte list \<Rightarrow> byte list \<Rightarrow> bool" where
  "strncmp_eq (Suc n) (x # xs) (y # ys) \<longleftrightarrow> x = y \<and> (x = 0 \<or> strncmp_eq n xs ys)"
| "strncmp_eq _ _ _ \<longleftrightarrow> True"

text \<open>
  \<open>GetMulticastId\<close>: the first group whose attributes 1 and 2 (\<open>CTRL_ATTR_MCAST_GRP_NAME\<close> and \<open>_ID\<close>) are
  present and whose name compares equal.
\<close>

definition GetMulticastId_build :: "byte list \<Rightarrow> msg_attr list" where
  "GetMulticastId_build nl80211 = [Put CTRL_ATTR_FAMILY_NAME (nla_get_string nl80211 @ [0])]"

definition parse_attr :: "(nat \<times> byte list) list \<Rightarrow> nat \<Rightarrow> byte list option" where
  "parse_attr nlas t = map_of (rev nlas) t"

fun find_group :: "nested \<Rightarrow> byte list \<Rightarrow> (nat \<times> byte list) list \<Rightarrow> int \<Rightarrow> c_fault + int" where
  "find_group nested grp [] mId = Inr mId"
| "find_group nested grp ((_, mcgrp) # nlas) mId =
     (case (parse_attr (nested mcgrp) 1, parse_attr (nested mcgrp) 2) of
        (Some name, Some gid) \<Rightarrow>
          if strncmp_eq (length name) name (nla_get_string grp @ [0]) then map_sum id sint (nla_get_u32 gid)
          else find_group nested grp nlas mId
      | _ \<Rightarrow> find_group nested grp nlas mId)"

definition GetMulticastId_parser :: "nested \<Rightarrow> byte list \<Rightarrow> int parser" where
  "GetMulticastId_parser nested grp attr mId =
     (case attr CTRL_ATTR_MCAST_GROUPS of
        None \<Rightarrow> Inr (WIFI_ERROR_UNKNOWN, mId)
      | Some groups \<Rightarrow> map_sum id (Pair WIFI_SUCCESS) (find_group nested grp (nested groups) mId))"

definition skw_get_multicast_id :: "nested \<Rightarrow> byte list \<Rightarrow> send_obs \<Rightarrow> c_fault + int option" where
  "skw_get_multicast_id nested grp obs =
     after_send (GetMulticastId_parser nested grp) obs (-1) (\<lambda>err mId. Inr mId)"

text \<open>\<open>skw_add_membership\<close>: its result, and the group that was joined, by \<open>nl_socket_add_membership\<close>'s result.\<close>

definition skw_add_membership :: "nested \<Rightarrow> byte list \<Rightarrow> send_obs \<Rightarrow> int \<Rightarrow> c_fault + (int \<times> int list) option" where
  "skw_add_membership nested grp obs joined =
     map_sum id (map_option (\<lambda>gid. if gid < 0 then (gid, []) else (joined, if joined < 0 then [] else [gid])))
       (skw_get_multicast_id nested grp obs)"

end
