(* ===== verification/WifiHal.thy ===== *)
theory WifiHal
  imports WifiCmd
begin

text \<open>
  The Wi-Fi HAL around its commands: what a command reports, what the parsers leave behind, and the
  life of the HAL from \<open>skw_wifi_initialize\<close> to the end of its event loop.
\<close>

section \<open>What a command reports\<close>

fun answers :: "cb_call \<Rightarrow> bool" where
  "answers (Cb_valid a) = False"
| "answers _ = True"

lemma recv_calls_err: "recv_calls parser cs err st = Inr (err', st') \<Longrightarrow> err' = (if \<exists>c \<in> set cs. answers c then 0 else err)"
  by (induction parser cs err st rule: recv_calls.induct) (auto split: sum.splits)

text \<open>A parser that runs into no fault.\<close>

definition faultless :: "'s parser \<Rightarrow> bool" where
  "faultless parser \<longleftrightarrow> (\<forall>a st. \<exists>r. parser a st = Inr r)"

lemma recv_calls_total:
  "faultless parser \<Longrightarrow> \<exists>err' st'. recv_calls parser cs err st = Inr (err', st')"
proof (induction parser cs err st rule: recv_calls.induct)
  case (2 parser a cs err st)
  then obtain e st' where "parser a st = Inr (e, st')" unfolding faultless_def by (metis surj_pair)
  with 2 show ?case by simp
qed auto

lemma recv_loop_done: "recv_loop parser os err st = Inr (Some (err', st')) \<Longrightarrow> err' = (if err > 0 then 0 else err)"
proof (induction parser os err st rule: recv_loop.induct)
  case (1 parser err st)
  then show ?case by (auto split: if_splits)
next
  case (2 parser cs os err st)
  show ?case
  proof (cases "err > 0")
    case True
    with 2(2) obtain e1 st1 where "recv_calls parser cs err st = Inr (e1, st1)" "recv_loop parser os e1 st1 = Inr (Some (err', st'))"
      by (auto split: sum.splits)
    with 2(1) [OF True this(1) refl this(2)] recv_calls_err [OF this(1)] True show ?thesis by (auto split: if_splits)
  qed (use 2(2) in simp)
qed

lemma recv_loop_returns:
  assumes "faultless parser"
  shows "(\<exists>err' st'. recv_loop parser os err st = Inr (Some (err', st'))) \<longleftrightarrow> err \<le> 0 \<or> (\<exists>cs \<in> set os. \<exists>c \<in> set cs. answers c)"
proof (induction os arbitrary: err st)
  case Nil
  then show ?case by auto
next
  case (Cons cs os)
  obtain e1 st1 where "recv_calls parser cs err st = Inr (e1, st1)" using recv_calls_total [OF assms] by blast
  with recv_calls_err [OF this] Cons [of e1 st1] show ?case by (cases "err > 0") auto
qed

text \<open>
  C19: What a command reports. Once it was sent, it comes back exactly when a finish, acknowledgement or
  error message arrives, and then it reports success, even if the only answer of the kernel is an
  error: a country code that the driver rejects was set successfully as far as the caller can tell.
  An error is reported only when the sending itself fails.
\<close>

theorem send_reports_success:
  assumes "cb_alloc obs" and "faultless parser"
  shows "((\<exists>r st'. sendMsg parser obs st = Inr (Some (r, st'))) \<longleftrightarrow>
      nl_sent obs \<le> 0 \<or> (\<exists>cs \<in> set (nl_calls obs). \<exists>c \<in> set cs. answers c)) \<and>
    (\<forall>r st'. sendMsg parser obs st = Inr (Some (r, st')) \<longrightarrow>
      r = (if nl_sent obs < 0 then WIFI_ERROR_UNKNOWN else WIFI_SUCCESS)) \<and>
    (\<forall>e. 0 < nl_sent obs \<longrightarrow> nl_calls obs = [[Cb_error e]] \<longrightarrow> skw_wifi_set_country_code obs = Inr (Some WIFI_SUCCESS))"
proof (intro conjI allI impI)
  show "(\<exists>r st'. sendMsg parser obs st = Inr (Some (r, st'))) \<longleftrightarrow>
      nl_sent obs \<le> 0 \<or> (\<exists>cs \<in> set (nl_calls obs). \<exists>c \<in> set cs. answers c)"
    using assms(1) recv_loop_returns [OF assms(2), of "nl_calls obs" "nl_sent obs" st]
    by (auto simp: sendMsg_def split: sum.splits option.splits)
  show "r = (if nl_sent obs < 0 then WIFI_ERROR_UNKNOWN else WIFI_SUCCESS)"
    if "sendMsg parser obs st = Inr (Some (r, st'))" for r st'
    using that assms(1) recv_loop_done [of parser "nl_calls obs" "nl_sent obs" st]
    by (auto simp: sendMsg_def split: sum.splits option.splits)
  show "skw_wifi_set_country_code obs = Inr (Some WIFI_SUCCESS)" if "0 < nl_sent obs" "nl_calls obs = [[Cb_error e]]" for e
    using that assms(1) by (simp add: skw_wifi_set_country_code_def after_send_def sendMsg_def)
qed

definition sent_with :: "cb_call list list \<Rightarrow> send_obs" where
  "sent_with os = \<lparr>cb_alloc = True, nl_sent = 36, nl_calls = os\<rparr>"

lemma sent_with_simps [simp]: "cb_alloc (sent_with os)" "nl_sent (sent_with os) = 36" "nl_calls (sent_with os) = os"
  by (simp_all add: sent_with_def)

theorem send_reports_success_witness: "skw_wifi_set_country_code (sent_with [[Cb_error (-95)]]) = Inr (Some WIFI_SUCCESS)"
proof -
  have "faultless (\<lambda>attr st. Inr (WIFI_SUCCESS, st :: unit))" by (simp add: faultless_def)
  from send_reports_success [OF _ this, of "sent_with [[Cb_error (-95)]]"] show ?thesis by simp
qed

section \<open>A dump\<close>

text \<open>The messages of a dump go to the parser one after the other, however they are split over the receive calls.\<close>

fun parse_all :: "'s parser \<Rightarrow> attrs list \<Rightarrow> 's \<Rightarrow> c_fault + 's" where
  "parse_all parser [] st = Inr st"
| "parse_all parser (a # as) st = (case parser a st of Inl e \<Rightarrow> Inl e | Inr (_, st') \<Rightarrow> parse_all parser as st')"

lemma recv_calls_append:
  "recv_calls parser (cs @ ds) err st = (case recv_calls parser cs err st of Inl e \<Rightarrow> Inl e | Inr (err', st') \<Rightarrow> recv_calls parser ds err' st')"
  by (induction parser cs err st rule: recv_calls.induct) (auto split: sum.splits)

lemma recv_calls_valid:
  "recv_calls parser (map Cb_valid as) err st = map_sum id (Pair err) (parse_all parser as st)"
  by (induction parser as st rule: parse_all.induct) (auto split: sum.splits)

lemma recv_loop_dump:
  assumes "concat os = xs @ [c]" "answers c" "\<forall>x \<in> set xs. \<not> answers x" "err > 0"
  shows "recv_loop parser os err st = map_sum id (\<lambda>(_, st'). Some (0, st')) (recv_calls parser xs err st)"
  using assms(1,3,4)
proof (induction os arbitrary: xs err st)
  case (Cons cs os)
  have fin: "recv_calls parser [c] e s = Inr (0, s)" for e s using assms(2) by (cases c) simp_all
  show ?case
  proof (cases "concat os = []")
    case True
    have "cs = xs @ [c]" using Cons.prems(1) unfolding concat.simps True by simp
    moreover have "recv_loop parser os 0 s = Inr (Some (0, s))" for s by (cases os) simp_all
    ultimately show ?thesis
      using Cons.prems(3) fin by (auto simp: recv_calls_append split: sum.splits)
  next
    case False
    then have "concat os = butlast (concat os) @ [c]" "xs = cs @ butlast (concat os)"
      using Cons.prems(1) by (metis append_butlast_last_id concat.simps(2) last_appendR last_snoc,
        metis butlast_append butlast_snoc concat.simps(2))
    then obtain ys where ys: "concat os = ys @ [c]" "xs = cs @ ys" by blast
    then have quiet: "\<forall>x \<in> set ys. \<not> answers x" "\<not> (\<exists>x \<in> set cs. answers x)" using Cons.prems(2) by auto
    show ?thesis
    proof (cases "recv_calls parser cs err st")
      case (Inr r)
      then obtain s1 where "recv_calls parser cs err st = Inr (err, s1)"
        using recv_calls_err quiet(2) by (metis surj_pair)
      then show ?thesis using Cons.IH [OF ys(1) quiet(1) Cons.prems(3)] Cons.prems(3) ys(2) by (simp add: recv_calls_append)
    qed (use Cons.prems(3) ys(2) in \<open>simp add: recv_calls_append\<close>)
  qed
qed simp

lemma after_send_dump:
  assumes "cb_alloc obs" "0 < nl_sent obs" "concat (nl_calls obs) = map Cb_valid as @ [c]" "answers c"
  shows "after_send parser obs st f =
    (case parse_all parser as st of Inl e \<Rightarrow> Inl e | Inr st' \<Rightarrow> map_sum id Some (f WIFI_SUCCESS st'))"
proof -
  have "recv_loop parser (nl_calls obs) (nl_sent obs) st = map_sum id (\<lambda>st'. Some (0, st')) (parse_all parser as st)"
    by (subst recv_loop_dump [OF assms(3,4) _ assms(2)]) (auto simp: recv_calls_valid sum.map_comp o_def id_def)
  then show ?thesis
    using assms(1) by (auto simp: after_send_def sendMsg_def split: sum.splits)
qed

section \<open>Multicast groups\<close>

lemma strncmp_name: "0 \<notin> set name \<Longrightarrow> 0 \<notin> set grp \<Longrightarrow> strncmp_eq (Suc (length name)) (name @ [0]) (grp @ [0]) \<longleftrightarrow> name = grp"
proof (induction name arbitrary: grp)
  case Nil
  then show ?case by (cases grp) auto
next
  case (Cons x name)
  then show ?case by (cases grp) auto
qed

text \<open>An attribute of \<open>CTRL_ATTR_MCAST_GROUPS\<close> with the name and the number of a group.\<close>

definition group_attr :: "nested \<Rightarrow> nat \<times> byte list \<Rightarrow> byte list \<times> u32 \<Rightarrow> bool" where
  "group_attr nested nla g \<longleftrightarrow> 0 \<notin> set (fst g) \<and>
     parse_attr (nested (snd nla)) 1 = Some (fst g @ [0]) \<and> parse_attr (nested (snd nla)) 2 = Some (u32_bytes (snd g))"

lemma find_group_first:
  assumes "list_all2 (group_attr nested) nlas gs" "0 \<notin> set grp"
  shows "find_group nested grp nlas mId = Inr (case find (\<lambda>g. fst g = grp) gs of None \<Rightarrow> mId | Some g \<Rightarrow> sint (snd g))"
  using assms(1)
proof (induction rule: list_all2_induct)
  case (Cons nla nlas g gs)
  have "nla_get_string grp = grp"
    using assms(2) unfolding nla_get_string_def by (simp add: takeWhile_eq_all_conv) metis
  then show ?case
    using Cons strncmp_name [OF _ assms(2), of "fst g"] by (cases nla) (simp add: group_attr_def)
qed simp

text \<open>
  C21: Joining a multicast group. When the controller answers with its groups and acknowledges, in however many receive calls,
  the HAL joins exactly the first group of the name asked for, under the number in the answer, and returns the
  result of joining it; without such a group, or under a number beyond \<open>INT_MAX\<close>, it joins none and returns a
  negative number.
\<close>

theorem multicast_group_joined:
  assumes "attr CTRL_ATTR_MCAST_GROUPS = Some groups" and "list_all2 (group_attr nested) (nested groups) gs"
    and "0 \<notin> set grp" and "concat os = [Cb_valid attr, c]" and "answers c"
  shows "skw_add_membership nested grp (sent_with os) joined =
    Inr (Some (case find (\<lambda>g. fst g = grp) gs of
        None \<Rightarrow> (-1, [])
      | Some (_, gid) \<Rightarrow> if sint gid < 0 then (sint gid, []) else (joined, if joined < 0 then [] else [sint gid])))"
proof -
  let ?id = "case find (\<lambda>g. fst g = grp) gs of None \<Rightarrow> -1 | Some g \<Rightarrow> sint (snd g)"
  have "concat os = [Cb_valid attr] @ [c]" using assms(4) by simp
  from recv_loop_dump [OF this assms(5), where parser = "GetMulticastId_parser nested grp" and err = 36 and st = "-1"]
  have "recv_loop (GetMulticastId_parser nested grp) os 36 (-1) = Inr (Some (0, ?id))"
    using assms(1) find_group_first [OF assms(2,3)] by (simp add: GetMulticastId_parser_def)
  then have "skw_get_multicast_id nested grp (sent_with os) = Inr (Some ?id)"
    by (simp add: skw_get_multicast_id_def after_send_def sendMsg_def)
  then show ?thesis
    by (simp add: skw_add_membership_def split: option.split)
qed

theorem multicast_group_joined_witness:
  "\<exists>nested attr. skw_add_membership nested [0x73, 0x63, 0x61, 0x6E] (sent_with [[Cb_valid attr], [Cb_ack]]) 0 = Inr (Some (0, [5]))"
proof -
  let ?entry = "\<lambda>name gid. [(1, name @ [0]), (2, u32_bytes gid)]"
  let ?nested = "\<lambda>p. if p = [0] then [(1, [1]), (2, [2])] else if p = [1] then ?entry [0x6D, 0x6C, 0x6D, 0x65] 4 else ?entry [0x73, 0x63, 0x61, 0x6E] 5"
  let ?attr = "(\<lambda>_. None)(CTRL_ATTR_MCAST_GROUPS := Some [0])"
  let ?gs = "[([0x6D, 0x6C, 0x6D, 0x65], 4), ([0x73, 0x63, 0x61, 0x6E], 5)] :: (byte list \<times> u32) list"
  have "list_all2 (group_attr ?nested) (?nested [0]) ?gs"
    by (simp add: group_attr_def parse_attr_def)
  from multicast_group_joined [OF _ this, of ?attr "[0x73, 0x63, 0x61, 0x6E]" "[[Cb_valid ?attr], [Cb_ack]]" Cb_ack 0]
  show ?thesis by (intro exI [of _ ?nested] exI [of _ ?attr]) simp
qed

section \<open>Interfaces\<close>

text \<open>
  A message of the interface dump as the kernel sends it: the number of the wireless device, 64 bits wide, in
  every one; index and name only if the device has a network interface.
\<close>

record iface_msg =
  m_netdev :: "(u32 \<times> byte list) option"
  m_wdev :: u64

definition u64_bytes :: "u64 \<Rightarrow> byte list" where
  "u64_bytes w = u32_bytes (ucast w) @ u32_bytes (ucast (drop_bit 32 w))"

definition iface_attrs :: "iface_msg \<Rightarrow> attrs" where
  "iface_attrs m =
     (case m_netdev m of
        None \<Rightarrow> [NL80211_ATTR_WDEV \<mapsto> u64_bytes (m_wdev m)]
      | Some (index, name) \<Rightarrow>
          [NL80211_ATTR_IFINDEX \<mapsto> u32_bytes index, NL80211_ATTR_IFNAME \<mapsto> name @ [0], NL80211_ATTR_WDEV \<mapsto> u64_bytes (m_wdev m)])"

text \<open>
  What the parser makes of an element: index and name of the interface, or the low half of the device number; and
  the interface the HAL gets for the \<open>k\<close>-th message.
\<close>

definition iface_set :: "iface_msg \<Rightarrow> interface_info \<Rightarrow> interface_info" where
  "iface_set m i =
     (case m_netdev m of
        None \<Rightarrow> i\<lparr>wdev_idx := ucast (m_wdev m)\<rparr>
      | Some (index, name) \<Rightarrow> i\<lparr>iface_idx := index, iface_name := name\<rparr>)"

definition iface_of :: "interface_info list \<Rightarrow> nat \<Rightarrow> iface_msg \<Rightarrow> interface_info" where
  "iface_of stack k m = iface_set m (if k = 0 then zero_info else stack ! k)"

definition name_ok :: "byte list \<Rightarrow> bool" where
  "name_ok n \<longleftrightarrow> 0 \<notin> set n \<and> length n \<le> IFNAMSIZ"

definition msg_ok :: "iface_msg \<Rightarrow> bool" where
  "msg_ok m = (case m_netdev m of None \<Rightarrow> True | Some (_, name) \<Rightarrow> name_ok name)"

lemma nla_get_string_terminated: "0 \<notin> set n \<Longrightarrow> nla_get_string (n @ 0 # r) = n"
  unfolding nla_get_string_def by (subst takeWhile_append2) auto

lemma GetInterfaces_parser_step:
  assumes "msg_ok m"
  shows "GetInterfaces_parser (iface_attrs m) (k, ifs) =
    (if k < length ifs then Inr (WIFI_SUCCESS, (Suc k, ifs[k := iface_set m (ifs ! k)])) else Inl OutOfBounds)"
proof (cases "m_netdev m")
  case None
  then show ?thesis
    by (simp add: GetInterfaces_parser_def iface_attrs_def iface_set_def u64_bytes_def)
next
  case (Some d)
  with assms show ?thesis
    by (cases d)
      (simp add: GetInterfaces_parser_def iface_attrs_def iface_set_def msg_ok_def name_ok_def nla_get_string_terminated name_strcpy_def)
qed

lemma parse_ifaces:
  assumes "\<forall>m \<in> set ms. msg_ok m"
  shows "k + length ms \<le> length ifs \<Longrightarrow> \<exists>ifs'. parse_all GetInterfaces_parser (map iface_attrs ms) (k, ifs) = Inr (k + length ms, ifs') \<and>
      length ifs' = length ifs \<and>
      (\<forall>j < length ifs. ifs' ! j = (if k \<le> j \<and> j < k + length ms then iface_set (ms ! (j - k)) (ifs ! j) else ifs ! j))"
    and "length ifs < k + length ms \<Longrightarrow> k \<le> length ifs \<Longrightarrow> parse_all GetInterfaces_parser (map iface_attrs ms) (k, ifs) = Inl OutOfBounds"
proof -
  show "\<exists>ifs'. parse_all GetInterfaces_parser (map iface_attrs ms) (k, ifs) = Inr (k + length ms, ifs') \<and> length ifs' = length ifs \<and>
      (\<forall>j < length ifs. ifs' ! j = (if k \<le> j \<and> j < k + length ms then iface_set (ms ! (j - k)) (ifs ! j) else ifs ! j))"
    if "k + length ms \<le> length ifs"
    using assms that
  proof (induction ms arbitrary: k ifs)
    case Nil
    then show ?case by auto
  next
    case (Cons m ms)
    let ?ifs = "ifs[k := iface_set m (ifs ! k)]"
    have "parse_all GetInterfaces_parser (map iface_attrs (m # ms)) (k, ifs) = parse_all GetInterfaces_parser (map iface_attrs ms) (Suc k, ?ifs)"
      using Cons.prems by (simp add: GetInterfaces_parser_step)
    moreover obtain ifs' where "parse_all GetInterfaces_parser (map iface_attrs ms) (Suc k, ?ifs) = Inr (Suc k + length ms, ifs')" "length ifs' = length ?ifs"
      "\<forall>j < length ?ifs. ifs' ! j = (if Suc k \<le> j \<and> j < Suc k + length ms then iface_set (ms ! (j - Suc k)) (?ifs ! j) else ?ifs ! j)"
      using Cons.IH [of "Suc k" ?ifs] Cons.prems by auto
    ultimately show ?case
      by (intro exI [of _ ifs']) (auto simp: nth_Cons' nth_list_update Suc_le_eq not_less dest: le_antisym)
  qed
  show "parse_all GetInterfaces_parser (map iface_attrs ms) (k, ifs) = Inl OutOfBounds" if "length ifs < k + length ms" "k \<le> length ifs"
    using assms that
  proof (induction ms arbitrary: k ifs)
    case (Cons m ms)
    then show ?case by (cases "k < length ifs") (simp_all add: GetInterfaces_parser_step)
  qed simp
qed

lemma copy_ifaces_all: "\<forall>i \<in> set is. length (iface_name i) \<le> IFNAMSIZ \<Longrightarrow> copy_ifaces is = Inr is"
  by (induction "is") (auto simp: name_strcpy_def zero_info_def)

lemma iface_of_name:
  assumes "msg_ok m" "k < length stack" "\<forall>i \<in> set stack. length (iface_name i) \<le> IFNAMSIZ"
  shows "length (iface_name (iface_of stack k m)) \<le> IFNAMSIZ"
  using assms by (auto simp: iface_of_def iface_set_def msg_ok_def name_ok_def zero_info_def split: option.split)

text \<open>
  C13: Asking for the interfaces. The kernel's messages all carry the number of the wireless device, and index
  and name where there is a network interface. With at most eight, the HAL gets them in the order of the dump, with
  their names and indices, however the messages are split over the receive calls; a device without an interface
  is known by the low half of its number. But only the first
  element of the array they are collected in is cleared: the parser leaves the device number of an interface alone, so that
  all others keep the one that happens to be on the stack, and commands to them then name a device by it instead of the interface
  by its own index. A ninth message is stored behind the end of the array. (The names left on the stack are
  taken to be terminated.)
\<close>

theorem get_ifaces_result:
  assumes "cb_alloc obs" and "0 < nl_sent obs"
    and "concat (nl_calls obs) = map (\<lambda>m. Cb_valid (iface_attrs m)) ms @ [Cb_finish]"
    and "\<forall>m \<in> set ms. msg_ok m" and "length stack = SKW_NR_IFACE" and "\<forall>i \<in> set stack. length (iface_name i) \<le> IFNAMSIZ"
  shows "(length ms \<le> SKW_NR_IFACE \<longrightarrow> skw_wifi_get_ifaces stack obs =
      Inr (Some (if ms = [] then (WIFI_ERROR_UNKNOWN, [])
        else (WIFI_SUCCESS, map (\<lambda>k. iface_of stack k (ms ! k)) [0..<length ms])))) \<and>
    (SKW_NR_IFACE < length ms \<longrightarrow> skw_wifi_get_ifaces stack obs = Inl OutOfBounds) \<and>
    (\<forall>k m. put_iface (iface_of stack k m) =
      (case m_netdev m of
         Some (index, _) \<Rightarrow>
           if k = 0 \<or> wdev_idx (stack ! k) = 0 then [put_u32 NL80211_ATTR_IFINDEX index]
           else [put_u32 NL80211_ATTR_WDEV (wdev_idx (stack ! k))]
       | None \<Rightarrow>
           if (ucast (m_wdev m) :: u32) = 0 then [put_u32 NL80211_ATTR_IFINDEX (if k = 0 then 0 else iface_idx (stack ! k))]
           else [put_u32 NL80211_ATTR_WDEV (ucast (m_wdev m))]))"
proof (intro conjI impI)
  have calls: "concat (nl_calls obs) = map Cb_valid (map iface_attrs ms) @ [Cb_finish]"
    using assms(3) by simp
  have fin: "answers Cb_finish" by simp
  note run = after_send_dump [OF assms(1,2) calls fin, of GetInterfaces_parser "(0, stack[0 := zero_info])"]
  let ?ifs = "stack[0 := zero_info]"
  have len: "length ?ifs = SKW_NR_IFACE" using assms(5) by simp
  show "skw_wifi_get_ifaces stack obs = Inr (Some (if ms = [] then (WIFI_ERROR_UNKNOWN, [])
        else (WIFI_SUCCESS, map (\<lambda>k. iface_of stack k (ms ! k)) [0..<length ms])))" if "length ms \<le> SKW_NR_IFACE"
  proof -
    from parse_ifaces(1) [OF assms(4), of 0 ?ifs] that len obtain ifs' where
      ifs': "parse_all GetInterfaces_parser (map iface_attrs ms) (0, ?ifs) = Inr (length ms, ifs')" "length ifs' = SKW_NR_IFACE"
      "\<forall>j < SKW_NR_IFACE. ifs' ! j = (if j < length ms then iface_set (ms ! j) (?ifs ! j) else ?ifs ! j)"
      by auto
    have "take (length ms) ifs' = map (\<lambda>k. iface_of stack k (ms ! k)) [0..<length ms]"
      using ifs'(2,3) that assms(5) by (intro nth_equalityI) (auto simp: iface_of_def nth_list_update SKW_NR_IFACE_def)
    moreover have "copy_ifaces (map (\<lambda>k. iface_of stack k (ms ! k)) [0..<length ms]) = Inr (map (\<lambda>k. iface_of stack k (ms ! k)) [0..<length ms])"
      using assms(4-6) that by (intro copy_ifaces_all) (auto intro: iface_of_name)
    ultimately show ?thesis
      using ifs'(1) unfolding skw_wifi_get_ifaces_def GetInterfaces_init_def run by simp
  qed
  show "skw_wifi_get_ifaces stack obs = Inl OutOfBounds" if "SKW_NR_IFACE < length ms"
    using parse_ifaces(2) [OF assms(4), of ?ifs 0] that len
    unfolding skw_wifi_get_ifaces_def GetInterfaces_init_def run by simp
qed (simp add: put_iface_def iface_of_def iface_set_def zero_info_def split: option.split)

definition sample_stack :: "interface_info list" where
  "sample_stack = replicate 8 \<lparr>iface_idx = 7, wdev_idx = 0x7FFE, iface_name = []\<rparr>"

definition sample_netdev :: "u32 \<Rightarrow> byte list \<Rightarrow> u64 \<Rightarrow> iface_msg" where
  "sample_netdev index name wdev = \<lparr>m_netdev = Some (index, name), m_wdev = wdev\<rparr>"

text \<open>Two interfaces and a device without one, \<open>wlan\<close>, \<open>p2p\<close> and \<open>p2p-dev\<close> in a real system.\<close>

theorem get_ifaces_result_witness:
  "skw_wifi_get_ifaces sample_stack
     (sent_with [[Cb_valid (iface_attrs (sample_netdev 3 [0x77, 0x30] 1))],
        [Cb_valid (iface_attrs (sample_netdev 4 [0x70, 0x30] 2)), Cb_valid (iface_attrs \<lparr>m_netdev = None, m_wdev = 0x100000005\<rparr>), Cb_finish]]) =
   Inr (Some (WIFI_SUCCESS, [\<lparr>iface_idx = 3, wdev_idx = 0, iface_name = [0x77, 0x30]\<rparr>,
     \<lparr>iface_idx = 4, wdev_idx = 0x7FFE, iface_name = [0x70, 0x30]\<rparr>, \<lparr>iface_idx = 7, wdev_idx = 5, iface_name = []\<rparr>]))"
proof -
  let ?ms = "[sample_netdev 3 [0x77, 0x30] 1, sample_netdev 4 [0x70, 0x30] 2, \<lparr>m_netdev = None, m_wdev = 0x100000005\<rparr>]"
  let ?obs = "sent_with [[Cb_valid (iface_attrs (sample_netdev 3 [0x77, 0x30] 1))],
    [Cb_valid (iface_attrs (sample_netdev 4 [0x70, 0x30] 2)), Cb_valid (iface_attrs \<lparr>m_netdev = None, m_wdev = 0x100000005\<rparr>), Cb_finish]]"
  have h: "concat (nl_calls ?obs) = map (\<lambda>m. Cb_valid (iface_attrs m)) ?ms @ [Cb_finish]" "\<forall>m \<in> set ?ms. msg_ok m"
    "length sample_stack = SKW_NR_IFACE" "\<forall>i \<in> set sample_stack. length (iface_name i) \<le> IFNAMSIZ" "length ?ms \<le> SKW_NR_IFACE"
    by (simp_all add: msg_ok_def name_ok_def IFNAMSIZ_def sample_stack_def SKW_NR_IFACE_def sample_netdev_def)
  have "cb_alloc ?obs" "0 < nl_sent ?obs" by simp_all
  from get_ifaces_result [OF this h(1-4)] h(5)
  have "skw_wifi_get_ifaces sample_stack ?obs = Inr (Some (WIFI_SUCCESS, map (\<lambda>k. iface_of sample_stack k (?ms ! k)) [0..<length ?ms]))"
    by (simp only: simp_thms list.distinct if_False)
  then show ?thesis
    by (simp add: iface_of_def iface_set_def sample_stack_def sample_netdev_def zero_info_def take_bit_eq_mod)
qed

section \<open>Channels\<close>

lemma after_send_one:
  assumes "cb_alloc obs" "0 < nl_sent obs" "nl_calls obs = [[Cb_valid a, Cb_ack]]"
  shows "after_send parser obs st f = (case parser a st of Inl e \<Rightarrow> Inl e | Inr (_, st') \<Rightarrow> map_sum id Some (f WIFI_SUCCESS st'))"
  using after_send_dump [OF assms(1,2), of "[a]" Cb_ack parser st f] assms(3) by (auto split: sum.splits)

lemma fill_channels_run:
  "length channels = i + n + m \<Longrightarrow> CHAN_SIZE * (i + n) \<le> length data \<Longrightarrow>
     fill_channels h data i n channels = Inr (take i channels @ map (chan_at h data) [i..<i + n] @ drop (i + n) channels)"
proof (induction n arbitrary: i channels)
  case (Suc n)
  let ?c = "channels[i := chan_at h data i]"
  have "CHAN_SIZE * Suc i \<le> length data" using Suc.prems(2) by (simp add: CHAN_SIZE_def)
  then have "fill_channels h data i (Suc n) channels = fill_channels h data (Suc i) n ?c"
    using Suc.prems(1) by simp
  also have "\<dots> = Inr (take (Suc i) ?c @ map (chan_at h data) [Suc i..<Suc i + n] @ drop (Suc i + n) ?c)"
    using Suc.prems by (intro Suc.IH) simp_all
  also have "take (Suc i) ?c = take i channels @ [chan_at h data i]"
    using Suc.prems(1) by (simp add: take_Suc_conv_app_nth)
  also have "drop (Suc i + n) ?c = drop (i + Suc n) channels" by simp
  finally have "fill_channels h data i (Suc n) channels =
      Inr ((take i channels @ [chan_at h data i]) @ map (chan_at h data) [Suc i..<Suc i + n] @ drop (i + Suc n) channels)" .
  moreover have "[i..<i + Suc n] = i # [Suc i..<Suc i + n]"
    using upt_conv_Cons [of i "i + Suc n"] by (simp only: add_Suc_right add_Suc less_add_Suc1)
  ultimately show ?case by (simp only: list.map append.simps append_assoc)
qed simp

text \<open>
  C20: The usable channels. Whatever the driver answers, as many channels are reported as it sent whole
  entries for, but no more than the caller's array holds; they are converted one by one, the rest of
  the array stays as it is, and neither array is left. A failing allocation or an answer without
  data gives an empty list.
\<close>

theorem usable_channels_clamped:
  assumes "cb_alloc obs" and "0 < nl_sent obs" and "nl_calls obs = [[Cb_valid a, Cb_ack]]"
    and "length channels = unat max_size" and "data = (case a NL80211_ATTR_VENDOR_DATA of Some d \<Rightarrow> if malloc_ok then d else [] | None \<Rightarrow> [])"
    and "length data < 2 ^ 32" and "n = min (unat max_size) (length data div CHAN_SIZE)"
  shows "skw_wifi_get_usable_channels h malloc_ok max_size obs channels =
    Inr (Some (WIFI_SUCCESS, of_nat n, map (chan_at h data) [0..<n] @ drop n channels))"
proof -
  let ?nr = "of_nat (length data div CHAN_SIZE) :: u32"
  have nr: "unat ?nr = length data div CHAN_SIZE"
    using assms(6) by (intro unat_of_nat_u32) (auto simp: CHAN_SIZE_def intro: le_less_trans [OF div_le_dividend])
  have size: "(if ?nr > max_size then max_size else ?nr) = of_nat n"
    using nr assms(7) by (cases "?nr > max_size") (simp_all add: word_less_nat_alt min_def)
  have "unat (of_nat n :: u32) = n"
    using unsigned_less [of max_size, where ?'a = nat] assms(7) by (intro unat_of_nat_u32) simp
  moreover have "CHAN_SIZE * n \<le> length data"
    using assms(7) by (simp add: CHAN_SIZE_def)
  then have "fill_channels h data 0 n channels = Inr (map (chan_at h data) [0..<n] @ drop n channels)"
    using fill_channels_run [of channels 0 n "length channels - n" data h] assms(4,7) by simp
  moreover have "\<exists>e. GetUsableChannels_parser malloc_ok a [] = Inr (e, data)"
    by (auto simp: GetUsableChannels_parser_def assms(5) split: option.splits)
  ultimately show ?thesis
    using size by (auto simp: skw_wifi_get_usable_channels_def after_send_one [OF assms(1-3)] Let_def)
qed


definition sample_answer :: attrs where
  "sample_answer = [NL80211_ATTR_VENDOR_DATA \<mapsto> [0x6C, 0x09, 0, 0, 0x02, 0, 0, 0, 0, 0, 0, 0, 0x3C, 0x14, 2, 0, 0x1E, 0, 0, 0, 0, 0, 0, 0, 0xFF]]"

theorem usable_channels_clamped_witness:
  "skw_wifi_get_usable_channels sample_numbers True 1 (sent_with [[Cb_valid sample_answer, Cb_ack]])
     [\<lparr>freq = 0, width = WIFI_CHAN_WIDTH_INVALID, modes = 0\<rparr>] =
   Inr (Some (WIFI_SUCCESS, 1, [\<lparr>freq = 0x096C, width = WIFI_CHAN_WIDTH_20, modes = 1\<rparr>]))"
proof -
  let ?obs = "sent_with [[Cb_valid sample_answer, Cb_ack]]"
  let ?c = "[\<lparr>freq = 0, width = WIFI_CHAN_WIDTH_INVALID, modes = 0\<rparr>]"
  obtain d where d: "sample_answer NL80211_ATTR_VENDOR_DATA = Some d"
    "d = [0x6C, 0x09, 0, 0, 0x02, 0, 0, 0, 0, 0, 0, 0, 0x3C, 0x14, 2, 0, 0x1E, 0, 0, 0, 0, 0, 0, 0, 0xFF]"
    by (simp add: sample_answer_def)
  have mode: "to_hal_iface_mask sample_numbers 2 = 1"
    by (simp add: mask_tables(2) when_bit_def SKW_BIT_def) (simp add: sample_numbers_def)
  have "chan_at sample_numbers d 0 = \<lparr>freq = 0x096C, width = WIFI_CHAN_WIDTH_20, modes = 1\<rparr>"
    unfolding d(2) using mode by (simp add: chan_at_def le16_def to_hal_band_width_def)
  moreover have "1 = min (unat (1 :: u32)) (length d div CHAN_SIZE)" "length d < 2 ^ 32"
    by (simp_all add: d(2) CHAN_SIZE_def)
  ultimately show ?thesis
    using usable_channels_clamped [of ?obs sample_answer ?c 1 d True 1 sample_numbers] d(1) by simp
qed

text \<open>
  The valid channels. The answer's list of channels is copied over the caller's array at its full
  length, whatever the size the caller gave: a list that fits is followed by the cleared rest of the
  array, a longer one overflows it; and the number that is reported is the driver's own, which nothing
  compares with either.
\<close>

theorem valid_channels_unbounded:
  assumes "cb_alloc obs" and "0 < nl_sent obs" and "nl_calls obs = [[Cb_valid a, Cb_ack]]"
    and "a NL80211_ATTR_VENDOR_DATA = Some d" and "nested d = [(36, u32_bytes nr), (37, chans)]"
  shows "skw_wifi_get_valid_channels nested max_channels obs =
    (if length chans \<le> 4 * max_channels
     then Inr (Some (WIFI_SUCCESS, chans @ replicate (4 * max_channels - length chans) 0, nr))
     else Inl OutOfBounds)"
  using assms(4,5)
  by (simp add: skw_wifi_get_valid_channels_def after_send_one [OF assms(1-3)] GetValidChannels_parser_def GetValidChannels_init_def
      vendor_parser_def store_def overwrite_def mult.commute)

theorem valid_channels_unbounded_witness:
  "skw_wifi_get_valid_channels (\<lambda>d. [(36, u32_bytes 2), (37, u32_bytes 2412 @ u32_bytes 2437)]) 1
     (sent_with [[Cb_valid sample_answer, Cb_ack]]) = Inl OutOfBounds"
proof -
  have "\<exists>d. sample_answer NL80211_ATTR_VENDOR_DATA = Some d" by (simp add: sample_answer_def)
  then show ?thesis
    using valid_channels_unbounded [of "sent_with [[Cb_valid sample_answer, Cb_ack]]" sample_answer _
        "\<lambda>d. [(36, u32_bytes 2), (37, u32_bytes 2412 @ u32_bytes 2437)]" 2 "u32_bytes 2412 @ u32_bytes 2437" 1] by auto
qed

section \<open>The life of the HAL\<close>

text \<open>
  What the process holds for the HAL: netlink sockets, descriptors and \<open>hal_info\<close> structures. And the
  structure, as far as its life goes.
\<close>

record process =
  nl_socks :: "nat list"
  sock_fds :: "int list"
  hal_infos :: nat

record hal_info =
  nl_hal :: "nat option"
  nl_event :: "nat option"
  family_nl80211 :: int
  exit_socks :: "int \<times> int"
  joined_groups :: "int list"
  cleaned_up_handler :: bool
  hal_exit :: bool

definition nl_socket_free :: "nat \<Rightarrow> process \<Rightarrow> process" where
  "nl_socket_free s P = P\<lparr>nl_socks := remove1 s (nl_socks P)\<rparr>"

text \<open>\<open>skw_create_socket\<close>: the socket that is allocated, if any, and whether it connects.\<close>

record sock_obs =
  sock_alloc :: "nat option"
  sock_connects :: bool

definition skw_create_socket :: "sock_obs \<Rightarrow> process \<Rightarrow> nat option \<times> process" where
  "skw_create_socket ob P =
     (case sock_alloc ob of
        None \<Rightarrow> (None, P)
      | Some s \<Rightarrow>
          let P1 = P\<lparr>nl_socks := s # nl_socks P\<rparr> in
          if sock_connects ob then (Some s, P1) else (None, nl_socket_free s P1))"

definition skw_wifi_hal_init :: "sock_obs \<Rightarrow> int \<Rightarrow> hal_info \<Rightarrow> process \<Rightarrow> wifi_error \<times> hal_info \<times> process" where
  "skw_wifi_hal_init ob family hal P =
     (case skw_create_socket ob P of
        (None, P1) \<Rightarrow> (WIFI_ERROR_UNKNOWN, hal\<lparr>nl_hal := None\<rparr>, P1)
      | (Some s, P1) \<Rightarrow>
          let hal1 = hal\<lparr>nl_hal := Some s, family_nl80211 := family\<rparr> in
          if family < 0 then (WIFI_ERROR_UNKNOWN, hal1, nl_socket_free s P1) else (WIFI_SUCCESS, hal1, P1))"

text \<open>The four memberships of the event socket, whose results are ignored.\<close>

definition c_bytes :: "string \<Rightarrow> byte list" where
  "c_bytes s = map of_char s"

fun join_groups :: "nested \<Rightarrow> (byte list \<times> send_obs \<times> int) list \<Rightarrow> c_fault + int list option" where
  "join_groups nested [] = Inr (Some [])"
| "join_groups nested ((grp, obs, joined) # gs) =
     (case skw_add_membership nested grp obs joined of
        Inl e \<Rightarrow> Inl e
      | Inr None \<Rightarrow> Inr None
      | Inr (Some (_, ids)) \<Rightarrow> map_sum id (map_option (append ids)) (join_groups nested gs))"

definition skw_wifi_event_init ::
    "nested \<Rightarrow> sock_obs \<Rightarrow> (send_obs \<times> int) list \<Rightarrow> hal_info \<Rightarrow> process \<Rightarrow> c_fault + (wifi_error \<times> hal_info \<times> process) option" where
  "skw_wifi_event_init nested ob joins hal P =
     (case skw_create_socket ob P of
        (None, P1) \<Rightarrow> Inr (Some (WIFI_ERROR_UNKNOWN, hal\<lparr>nl_event := None\<rparr>, P1))
      | (Some s, P1) \<Rightarrow>
          map_sum id (map_option (\<lambda>ids. (WIFI_SUCCESS, hal\<lparr>nl_event := Some s, joined_groups := ids\<rparr>, P1)))
            (join_groups nested (zip [c_bytes ''scan'', c_bytes ''mlme'', c_bytes ''vendor'', c_bytes ''regulatory''] joins)))"

definition skw_wifi_hal_deinit :: "hal_info \<Rightarrow> process \<Rightarrow> process" where
  "skw_wifi_hal_deinit hal P = (case nl_hal hal of None \<Rightarrow> P | Some s \<Rightarrow> nl_socket_free s P)"

definition skw_wifi_event_deinit :: "hal_info \<Rightarrow> process \<Rightarrow> process" where
  "skw_wifi_event_deinit hal P = (case nl_event hal of None \<Rightarrow> P | Some s \<Rightarrow> nl_socket_free s P)"

text \<open>\<open>skw_wifi_initialize\<close> and what its calls return.\<close>

record init_obs =
  io_malloc :: bool
  io_pair :: "(int \<times> int) option"
  io_hal :: sock_obs
  io_family :: int
  io_event :: sock_obs
  io_joins :: "(send_obs \<times> int) list"

definition skw_wifi_initialize :: "nested \<Rightarrow> init_obs \<Rightarrow> process \<Rightarrow> c_fault + (wifi_error \<times> hal_info option \<times> process) option" where
  "skw_wifi_initialize nested ob P =
     (if \<not> io_malloc ob then Inr (Some (WIFI_ERROR_OUT_OF_MEMORY, None, P))
      else
        let P1 = P\<lparr>hal_infos := Suc (hal_infos P)\<rparr>;
            free = (\<lambda>P. P\<lparr>hal_infos := hal_infos P - 1\<rparr>) in
        (case io_pair ob of
           None \<Rightarrow> Inr (Some (WIFI_ERROR_UNKNOWN, None, free P1))
         | Some (s0, s1) \<Rightarrow>
             let hal = \<lparr>nl_hal = None, nl_event = None, family_nl80211 = 0, exit_socks = (s0, s1), joined_groups = [],
                        cleaned_up_handler = False, hal_exit = False\<rparr>;
                 P2 = P1\<lparr>sock_fds := s0 # s1 # sock_fds P1\<rparr> in
             (case skw_wifi_hal_init (io_hal ob) (io_family ob) hal P2 of
                (err, hal1, P3) \<Rightarrow>
                  if err \<noteq> WIFI_SUCCESS then Inr (Some (err, None, free P3))
                  else
                    (case skw_wifi_event_init nested (io_event ob) (io_joins ob) hal1 P3 of
                       Inl e \<Rightarrow> Inl e
                     | Inr None \<Rightarrow> Inr None
                     | Inr (Some (err, hal2, P4)) \<Rightarrow>
                         if err \<noteq> WIFI_SUCCESS then Inr (Some (err, None, free (skw_wifi_hal_deinit hal2 P4)))
                         else Inr (Some (WIFI_SUCCESS, Some hal2, P4))))))"

text \<open>\<open>skw_wifi_deinitialize\<close>, with whether the handler is called, and \<open>skw_wifi_cleanup\<close>.\<close>

definition skw_wifi_deinitialize :: "hal_info \<Rightarrow> process \<Rightarrow> bool \<times> process" where
  "skw_wifi_deinitialize hal P =
     (let P1 = skw_wifi_event_deinit hal (skw_wifi_hal_deinit hal P);
          P2 = (if fst (exit_socks hal) \<noteq> 0 then P1\<lparr>sock_fds := remove1 (fst (exit_socks hal)) (sock_fds P1)\<rparr> else P1);
          P3 = (if snd (exit_socks hal) \<noteq> 0 then P2\<lparr>sock_fds := remove1 (snd (exit_socks hal)) (sock_fds P2)\<rparr> else P2)
      in (cleaned_up_handler hal, P3\<lparr>hal_infos := hal_infos P3 - 1\<rparr>))"

definition skw_wifi_cleanup :: "bool \<Rightarrow> hal_info \<Rightarrow> hal_info" where
  "skw_wifi_cleanup clean_handler hal = hal\<lparr>cleaned_up_handler := clean_handler, hal_exit := True\<rparr>"

text \<open>
  \<open>skw_wifi_event_loop\<close>: for each poll, whether it reports the event socket readable, and the state
  of the HAL when the loop condition is tested. The result: the number of receive calls, whether the
  handler was called, and the process; \<open>None\<close> while the loop goes on.
\<close>

fun skw_wifi_event_loop :: "(bool \<times> hal_info) list \<Rightarrow> process \<Rightarrow> (nat \<times> bool \<times> process) option" where
  "skw_wifi_event_loop [] P = None"
| "skw_wifi_event_loop ((readable, hal) # os) P =
     map_option (\<lambda>(n, r). (if readable then Suc n else n, r))
       (if hal_exit hal then Some (0, skw_wifi_deinitialize hal P) else skw_wifi_event_loop os P)"


lemma event_loop_runs:
  assumes "\<not> hal_exit hal" "hal_exit hal'"
  shows "skw_wifi_event_loop (map (\<lambda>r. (r, hal)) polls @ [(final, hal')]) P =
    Some (length (filter id (polls @ [final])), skw_wifi_deinitialize hal' P)"
  by (induction polls) (auto simp: assms split: option.splits)

text \<open>The initialisation that cannot get one of its parts, and the one that gets all of them.\<close>

definition hal_parts :: "init_obs \<Rightarrow> nat \<Rightarrow> nat \<Rightarrow> bool" where
  "hal_parts ob s e \<longleftrightarrow> io_malloc ob \<and> sock_alloc (io_hal ob) = Some s \<and> sock_connects (io_hal ob) \<and> \<not> io_family ob < 0 \<and>
     sock_alloc (io_event ob) = Some e \<and> sock_connects (io_event ob)"

lemma initialize_fails:
  assumes "skw_wifi_initialize nested ob P = Inr (Some (err, h, P1))"
    and "\<And>s0 s1. io_pair ob = Some (s0, s1) \<Longrightarrow> s0 \<noteq> 0 \<and> s1 \<noteq> 0"
    and "io_pair ob = None \<or> \<not> (\<exists>s e. hal_parts ob s e)"
  shows "err \<noteq> WIFI_SUCCESS" "h = None"
    "P1 = P\<lparr>sock_fds := (case io_pair ob of Some (s0, s1) \<Rightarrow> if io_malloc ob then [s0, s1] else [] | None \<Rightarrow> []) @ sock_fds P\<rparr>"
proof -
  have "err \<noteq> WIFI_SUCCESS \<and> h = None \<and>
    P1 = P\<lparr>sock_fds := (case io_pair ob of Some (s0, s1) \<Rightarrow> if io_malloc ob then [s0, s1] else [] | None \<Rightarrow> []) @ sock_fds P\<rparr>"
  proof (cases "io_malloc ob")
    case False
    then show ?thesis using assms(1) by (cases "io_pair ob") (auto simp: skw_wifi_initialize_def)
  next
    case malloc: True
    show ?thesis
    proof (cases "io_pair ob")
      case None
      then show ?thesis using assms(1) malloc by (auto simp: skw_wifi_initialize_def)
    next
      case (Some p)
      then show ?thesis
        using assms malloc
        by (cases p) (auto simp: hal_parts_def skw_wifi_initialize_def skw_wifi_hal_init_def skw_wifi_event_init_def skw_create_socket_def
            nl_socket_free_def skw_wifi_hal_deinit_def Let_def split: option.splits if_splits)
    qed
  qed
  then show "err \<noteq> WIFI_SUCCESS" "h = None"
    "P1 = P\<lparr>sock_fds := (case io_pair ob of Some (s0, s1) \<Rightarrow> if io_malloc ob then [s0, s1] else [] | None \<Rightarrow> []) @ sock_fds P\<rparr>"
    by simp_all
qed

lemma initialize_succeeds:
  assumes "skw_wifi_initialize nested ob P = Inr (Some (err, h, P1))"
    and "io_pair ob = Some (s0, s1)" "s0 \<noteq> 0" "s1 \<noteq> 0" "hal_parts ob s e" "e \<noteq> s"
  obtains ids where "err = WIFI_SUCCESS"
    "h = Some \<lparr>nl_hal = Some s, nl_event = Some e, family_nl80211 = io_family ob, exit_socks = (s0, s1),
       joined_groups = ids, cleaned_up_handler = False, hal_exit = False\<rparr>"
    "P1 = P\<lparr>hal_infos := Suc (hal_infos P), sock_fds := s0 # s1 # sock_fds P, nl_socks := e # s # nl_socks P\<rparr>"
  using assms
  by (auto simp: hal_parts_def skw_wifi_initialize_def skw_wifi_hal_init_def skw_wifi_event_init_def skw_create_socket_def
      Let_def map_sum_def split: option.splits if_splits sum.splits)

text \<open>
  C17: The life of the HAL. If the initialisation succeeds, then after any number of polls a call of
  \<open>skw_wifi_cleanup\<close> ends the event loop with its next poll; every readable poll was received once,
  the handler of the caller is called if there is one, and the process holds exactly what it held
  before. If the initialisation fails, the netlink sockets and the structure are given back, but
  once the pair of exit sockets was created both its descriptors are lost.
\<close>

theorem hal_gives_back:
  assumes "skw_wifi_initialize nested ob P = Inr (Some (err, h, P1))"
    and "\<And>s0 s1. io_pair ob = Some (s0, s1) \<Longrightarrow> s0 \<noteq> 0 \<and> s1 \<noteq> 0"
    and "sock_alloc (io_event ob) \<noteq> sock_alloc (io_hal ob)"
  shows "(err \<noteq> WIFI_SUCCESS \<longrightarrow> h = None \<and>
      P1 = P\<lparr>sock_fds := (case io_pair ob of Some (s0, s1) \<Rightarrow> if io_malloc ob then [s0, s1] else [] | None \<Rightarrow> []) @ sock_fds P\<rparr>) \<and>
    (err = WIFI_SUCCESS \<longrightarrow> (\<exists>hal. h = Some hal \<and> (\<forall>polls final clean.
      skw_wifi_event_loop (map (\<lambda>r. (r, hal)) polls @ [(final, skw_wifi_cleanup clean hal)]) P1 =
        Some (length (filter id (polls @ [final])), clean, P))))"
proof (cases "io_pair ob = None \<or> \<not> (\<exists>s e. hal_parts ob s e)")
  case True
  from initialize_fails [OF assms(1,2) this] show ?thesis by simp
next
  case False
  then obtain s0 s1 s e where p: "io_pair ob = Some (s0, s1)" "hal_parts ob s e" by auto
  with assms(2,3) have n: "s0 \<noteq> 0" "s1 \<noteq> 0" "e \<noteq> s" by (auto simp: hal_parts_def)
  obtain ids where h: "err = WIFI_SUCCESS"
    "h = Some \<lparr>nl_hal = Some s, nl_event = Some e, family_nl80211 = io_family ob, exit_socks = (s0, s1),
       joined_groups = ids, cleaned_up_handler = False, hal_exit = False\<rparr>"
    "P1 = P\<lparr>hal_infos := Suc (hal_infos P), sock_fds := s0 # s1 # sock_fds P, nl_socks := e # s # nl_socks P\<rparr>"
    by (rule initialize_succeeds [OF assms(1) p(1) n(1,2) p(2) n(3)])
  then show ?thesis
    using n by (auto simp: event_loop_runs skw_wifi_cleanup_def skw_wifi_deinitialize_def skw_wifi_hal_deinit_def
        skw_wifi_event_deinit_def nl_socket_free_def Let_def)
qed

text \<open>\<open>skw_wifi_wait_for_driver_ready\<close>: its result and the number of sleeps; \<open>access i\<close> is whether the \<open>i\<close>-th look finds the device.\<close>

fun wait_loop :: "(nat \<Rightarrow> bool) \<Rightarrow> nat \<Rightarrow> nat \<Rightarrow> wifi_error \<times> nat" where
  "wait_loop access i 0 = (WIFI_ERROR_TIMED_OUT, i)"
| "wait_loop access i (Suc count) = (if access i then (WIFI_SUCCESS, i) else wait_loop access (Suc i) count)"

definition skw_wifi_wait_for_driver_ready :: "(nat \<Rightarrow> bool) \<Rightarrow> wifi_error \<times> nat" where
  "skw_wifi_wait_for_driver_ready access = wait_loop access 0 ((10000 * 1000) div 100000)"

lemma wait_loop_result:
  "wait_loop access i n = (if \<exists>j < n. access (i + j) then (WIFI_SUCCESS, i + (LEAST j. access (i + j))) else (WIFI_ERROR_TIMED_OUT, i + n))"
proof (induction n arbitrary: i)
  case (Suc n)
  show ?case
  proof (cases "access i")
    case True
    then have "(LEAST j. access (i + j)) = 0" by (intro Least_equality) simp_all
    with True show ?thesis by auto
  next
    case False
    have ex: "(\<exists>j < Suc n. access (i + j)) \<longleftrightarrow> (\<exists>j < n. access (Suc i + j))"
      using False by (auto simp: less_Suc_eq_0_disj)
    show ?thesis
    proof (cases "\<exists>j < n. access (Suc i + j)")
      case True
      then obtain j where "access (i + Suc j)" by auto
      then have "(LEAST j. access (i + j)) = Suc (LEAST j. access (i + Suc j))"
        using False by (intro Least_Suc [of "\<lambda>j. access (i + j)" "Suc j"]) simp_all
      with Suc [of "Suc i"] False True ex show ?thesis by simp
    next
      case False
      with Suc [of "Suc i"] \<open>\<not> access i\<close> ex show ?thesis by auto
    qed
  qed
qed simp

text \<open>
  Waiting for the driver ends: after at most a hundred looks, with success as soon as one finds the
  device, having slept once for every look before, and with a time-out only after all hundred failed.
\<close>

theorem wait_for_driver_ready_ends:
  "skw_wifi_wait_for_driver_ready access =
     (if \<exists>j < 100. access j then (WIFI_SUCCESS, LEAST j. access j) else (WIFI_ERROR_TIMED_OUT, 100))"
  by (simp add: skw_wifi_wait_for_driver_ready_def wait_loop_result)


theorem wait_for_driver_ready_ends_witness: "skw_wifi_wait_for_driver_ready (\<lambda>j. j = 7) = (WIFI_SUCCESS, 7)"
proof -
  have "(LEAST j. j = (7 :: nat)) = 7" by (rule Least_equality) simp_all
  moreover have "\<exists>j < 100. j = (7 :: nat)" by (intro exI [of _ 7]) simp
  ultimately show ?thesis using wait_for_driver_ready_ends [of "\<lambda>j. j = 7"] by simp
qed

text \<open>The event socket cannot be had; and everything works, with the groups answered one by one.\<close>

definition sample_init :: "nat option \<Rightarrow> init_obs" where
  "sample_init event =
     \<lparr>io_malloc = True, io_pair = Some (5, 6), io_hal = \<lparr>sock_alloc = Some 1, sock_connects = True\<rparr>, io_family = 28,
      io_event = \<lparr>sock_alloc = event, sock_connects = True\<rparr>, io_joins = replicate 4 (sent_with [[Cb_ack]], 0)\<rparr>"

theorem hal_gives_back_witness:
  "skw_wifi_initialize (\<lambda>d. []) (sample_init None) \<lparr>nl_socks = [], sock_fds = [3], hal_infos = 0\<rparr> =
     Inr (Some (WIFI_ERROR_UNKNOWN, None, \<lparr>nl_socks = [], sock_fds = [5, 6, 3], hal_infos = 0\<rparr>)) \<and>
   (\<exists>hal P1. skw_wifi_initialize (\<lambda>d. []) (sample_init (Some 2)) \<lparr>nl_socks = [], sock_fds = [3], hal_infos = 0\<rparr> =
     Inr (Some (WIFI_SUCCESS, Some hal, P1)) \<and>
     skw_wifi_event_loop [(True, hal), (False, skw_wifi_cleanup True hal)] P1 = Some (1, True, \<lparr>nl_socks = [], sock_fds = [3], hal_infos = 0\<rparr>))"
proof -
  let ?P = "\<lparr>nl_socks = [], sock_fds = [3], hal_infos = 0\<rparr> :: process"
  have pair: "\<And>s0 s1. io_pair (sample_init None) = Some (s0, s1) \<Longrightarrow> s0 \<noteq> 0 \<and> s1 \<noteq> 0"
    "\<And>s0 s1. io_pair (sample_init (Some 2)) = Some (s0, s1) \<Longrightarrow> s0 \<noteq> 0 \<and> s1 \<noteq> 0"
    by (auto simp: sample_init_def)
  have alloc: "sock_alloc (io_event (sample_init None)) \<noteq> sock_alloc (io_hal (sample_init None))"
    "sock_alloc (io_event (sample_init (Some 2))) \<noteq> sock_alloc (io_hal (sample_init (Some 2)))"
    by (simp_all add: sample_init_def)
  obtain P0 where fails: "skw_wifi_initialize (\<lambda>d. []) (sample_init None) ?P = Inr (Some (WIFI_ERROR_UNKNOWN, None, P0))"
    by (simp add: skw_wifi_initialize_def sample_init_def skw_wifi_hal_init_def skw_wifi_event_init_def skw_create_socket_def)
  obtain h P1 where works: "skw_wifi_initialize (\<lambda>d. []) (sample_init (Some 2)) ?P = Inr (Some (WIFI_SUCCESS, h, P1))"
    by (simp add: skw_wifi_initialize_def sample_init_def skw_wifi_hal_init_def skw_wifi_event_init_def skw_create_socket_def
        eval_nat_numeral skw_add_membership_def skw_get_multicast_id_def after_send_def sendMsg_def)
  from hal_gives_back [OF works pair(2) alloc(2)] obtain hal where "h = Some hal" "skw_wifi_event_loop (map (\<lambda>r. (r, hal)) [True] @
      [(False, skw_wifi_cleanup True hal)]) P1 = Some (length (filter id ([True] @ [False])), True, ?P)"
    by blast
  moreover have "P0 = \<lparr>nl_socks = [], sock_fds = [5, 6, 3], hal_infos = 0\<rparr>"
    using hal_gives_back [OF fails pair(1) alloc(1)] by (simp add: sample_init_def)
  ultimately show ?thesis using fails works by simp
qed

end
