(* ===== verification/WifiMsg.thy ===== *)
theory WifiMsg
  imports WifiHal
begin

text \<open>
  How the commands of the Wi-Fi HAL are put into messages: the class \<open>WifiCommand\<close> of \<open>wifi_command.h\<close> and
  \<open>wifi_command.cpp\<close>, its constructor and its \<open>put\<close> functions, and the builders of \<open>main.cpp\<close> as sequences of
  their calls. libnl's functions on messages are an argument; \<open>libnl_laws\<close> states what its
  documentation says of them.
\<close>

section \<open>Messages of libnl\<close>

text \<open>An attribute by its name, or by the number the code passes; what a message holds.\<close>

datatype attr_id = Named nl80211_attr | Number nat

datatype nl_attr = Attr attr_id "byte list" | Nested attr_id "(attr_id \<times> byte list) list"

datatype nl_cmd = NL80211_CMD_GET_INTERFACE | NL80211_CMD_VENDOR | CTRL_CMD_GETFAMILY

text \<open>\<open>genlmsg_put\<close> with family, flags and command, \<open>nla_put\<close>, \<open>nla_nest_start\<close> (whether it returned an attribute) and \<open>nla_nest_end\<close>.\<close>

record 'm libnl =
  genlmsg_put :: "int \<Rightarrow> nat \<Rightarrow> nl_cmd \<Rightarrow> 'm \<Rightarrow> 'm"
  nla_put :: "attr_id \<Rightarrow> byte list \<Rightarrow> 'm \<Rightarrow> int \<times> 'm"
  nla_nest_start :: "attr_id \<Rightarrow> 'm \<Rightarrow> bool \<times> 'm"
  nla_nest_end :: "'m \<Rightarrow> 'm"

text \<open>The family, flags and command of a message, its attributes, and the nest that is open, if any; the bytes an attribute takes.\<close>

record nl_view =
  msg_header :: "(int \<times> nat \<times> nl_cmd) option"
  closed_attrs :: "nl_attr list"
  open_nest :: "(attr_id \<times> (attr_id \<times> byte list) list) option"

definition nla_total_size :: "nat \<Rightarrow> nat" where
  "nla_total_size n = (4 + n + 3) div 4 * 4"

definition add_attr :: "attr_id \<Rightarrow> byte list \<Rightarrow> nl_view \<Rightarrow> nl_view" where
  "add_attr a p V =
     (case open_nest V of
        None \<Rightarrow> V\<lparr>closed_attrs := closed_attrs V @ [Attr a p]\<rparr>
      | Some (t, ps) \<Rightarrow> V\<lparr>open_nest := Some (t, ps @ [(a, p)])\<rparr>)"

text \<open>The generic header, behind the netlink header a new message already has.\<close>

definition GENL_HDRLEN :: nat where "GENL_HDRLEN = 4"

text \<open>
  What the documentation of libnl says of its functions, over a view of the message and the room behind its end:
  a header or an attribute that fits is appended, an attribute to the open nest if there is one; an attribute that does
  not fit leaves the message as it is, and the result is negative. Nothing is said of a header that does not fit.
\<close>

definition libnl_laws :: "'m libnl \<Rightarrow> ('m \<Rightarrow> nl_view) \<Rightarrow> ('m \<Rightarrow> nat) \<Rightarrow> bool" where
  "libnl_laws nl msg_view room \<longleftrightarrow>
     (\<forall>a p m. nla_total_size (length p) \<le> room m \<longrightarrow>
        (\<exists>m'. nla_put nl a p m = (0, m') \<and> msg_view m' = add_attr a p (msg_view m) \<and> room m' = room m - nla_total_size (length p))) \<and>
     (\<forall>a p m. room m < nla_total_size (length p) \<longrightarrow> (\<exists>r < 0. nla_put nl a p m = (r, m))) \<and>
     (\<forall>a m. open_nest (msg_view m) = None \<longrightarrow> nla_total_size 0 \<le> room m \<longrightarrow>
        (\<exists>m'. nla_nest_start nl a m = (True, m') \<and> msg_view m' = (msg_view m)\<lparr>open_nest := Some (a, [])\<rparr> \<and>
           room m' = room m - nla_total_size 0)) \<and>
     (\<forall>a m. room m < nla_total_size 0 \<longrightarrow> nla_nest_start nl a m = (False, m)) \<and>
     (\<forall>a x ps m. open_nest (msg_view m) = Some (a, x # ps) \<longrightarrow>
        msg_view (nla_nest_end nl m) = (msg_view m)\<lparr>closed_attrs := closed_attrs (msg_view m) @ [Nested a (x # ps)], open_nest := None\<rparr> \<and>
        room (nla_nest_end nl m) = room m) \<and>
     (\<forall>fam fl c m. GENL_HDRLEN \<le> room m \<longrightarrow>
        msg_view (genlmsg_put nl fam fl c m) = (msg_view m)\<lparr>msg_header := Some (fam, fl, c)\<rparr> \<and>
        room (genlmsg_put nl fam fl c m) = room m - GENL_HDRLEN)"

section \<open>The command class\<close>

text \<open>\<open>WifiCommand\<close>: the socket, and the message, none if its allocation failed.\<close>

record 'm wifi_command =
  cmd_sock :: "nat option"
  cmd_msg :: "'m option"

text \<open>The constructor; \<open>alloc\<close> is what \<open>nlmsg_alloc\<close> returned.\<close>

definition WifiCommand_init :: "'m libnl \<Rightarrow> 'm option \<Rightarrow> nat option \<Rightarrow> int \<Rightarrow> nat \<Rightarrow> nl_cmd \<Rightarrow> 'm wifi_command" where
  "WifiCommand_init nl alloc sk family_id flags nl80211_cmd =
     \<lparr>cmd_sock = sk, cmd_msg = map_option (genlmsg_put nl family_id flags nl80211_cmd) alloc\<rparr>"

text \<open>A call of \<open>nla_put\<close> on the message of a command; a null message is dereferenced.\<close>

definition put_payload :: "'m libnl \<Rightarrow> attr_id \<Rightarrow> byte list \<Rightarrow> 'm wifi_command \<Rightarrow> c_fault + (int \<times> 'm wifi_command)" where
  "put_payload nl attribute p c =
     (case cmd_msg c of
        None \<Rightarrow> Inl NullDeref
      | Some m \<Rightarrow> (case nla_put nl attribute p m of (r, m') \<Rightarrow> Inr (r, c\<lparr>cmd_msg := Some m'\<rparr>)))"

text \<open>The bytes of a word in memory.\<close>

definition word_bytes :: "nat \<Rightarrow> 'a::len word \<Rightarrow> byte list" where
  "word_bytes n w = map (\<lambda>i. ucast (drop_bit (8 * i) w)) [0..<n]"

definition command_put_s8 where "command_put_s8 nl attribute (v :: int) = put_payload nl attribute (word_bytes 1 (word_of_int v :: byte))"
definition command_put_u8 where "command_put_u8 nl attribute (v :: byte) = put_payload nl attribute (word_bytes 1 v)"
definition command_put_s16 where "command_put_s16 nl attribute (v :: int) = put_payload nl attribute (word_bytes 2 (word_of_int v :: u16))"
definition command_put_u16 where "command_put_u16 nl attribute (v :: u16) = put_payload nl attribute (word_bytes 2 v)"
definition command_put_s32 where "command_put_s32 nl attribute (v :: int) = put_payload nl attribute (word_bytes 4 (word_of_int v :: u32))"
definition command_put_u32 where "command_put_u32 nl attribute (v :: u32) = put_payload nl attribute (word_bytes 4 v)"
definition command_put_s64 where "command_put_s64 nl attribute (v :: int) = put_payload nl attribute (word_bytes 8 (word_of_int v :: u64))"
definition command_put_u64 where "command_put_u64 nl attribute (v :: u64) = put_payload nl attribute (word_bytes 8 v)"

text \<open>\<open>put_data\<close> with a size, \<open>put_string\<close> with the terminator, \<open>put_addr\<close> with the six bytes of an address.\<close>

definition command_put_data :: "'m libnl \<Rightarrow> attr_id \<Rightarrow> nat \<Rightarrow> byte list \<Rightarrow> 'm wifi_command \<Rightarrow> c_fault + (int \<times> 'm wifi_command)" where
  "command_put_data nl attribute n data c = (if length data < n then Inl OutOfBounds else put_payload nl attribute (take n data) c)"

definition command_put_string :: "'m libnl \<Rightarrow> attr_id \<Rightarrow> byte list \<Rightarrow> 'm wifi_command \<Rightarrow> c_fault + (int \<times> 'm wifi_command)" where
  "command_put_string nl attribute s = put_payload nl attribute (nla_get_string s @ [0])"

definition command_put_addr :: "'m libnl \<Rightarrow> attr_id \<Rightarrow> byte list \<Rightarrow> 'm wifi_command \<Rightarrow> c_fault + (int \<times> 'm wifi_command)" where
  "command_put_addr nl attribute a c = (if length a < 6 then Inl OutOfBounds else put_payload nl attribute (take 6 a) c)"

text \<open>\<open>attr_start\<close>, whose result tells if there is an attribute, and \<open>attr_end\<close>, which dereferences it.\<close>

definition attr_start :: "'m libnl \<Rightarrow> 'm wifi_command \<Rightarrow> c_fault + (bool \<times> 'm wifi_command)" where
  "attr_start nl c =
     (case cmd_msg c of
        None \<Rightarrow> Inl NullDeref
      | Some m \<Rightarrow> (case nla_nest_start nl (Named NL80211_ATTR_VENDOR_DATA) m of (ok, m') \<Rightarrow> Inr (ok, c\<lparr>cmd_msg := Some m'\<rparr>)))"

definition attr_end :: "'m libnl \<Rightarrow> bool \<Rightarrow> 'm wifi_command \<Rightarrow> c_fault + 'm wifi_command" where
  "attr_end nl attribute c =
     (case cmd_msg c of
        None \<Rightarrow> Inl NullDeref
      | Some m \<Rightarrow> if \<not> attribute then Inl NullDeref else Inr (c\<lparr>cmd_msg := Some (nla_nest_end nl m)\<rparr>))"

section \<open>The builders\<close>

type_synonym 'm step = "'m wifi_command \<Rightarrow> c_fault + 'm wifi_command"

text \<open>Calls one after the other; the results of the \<open>put\<close> functions are not looked at.\<close>

fun run_steps :: "'m step list \<Rightarrow> 'm step" where
  "run_steps [] c = Inr c"
| "run_steps (f # fs) c = (case f c of Inl e \<Rightarrow> Inl e | Inr c' \<Rightarrow> run_steps fs c')"

definition ignoring :: "('m wifi_command \<Rightarrow> c_fault + (int \<times> 'm wifi_command)) \<Rightarrow> 'm step" where
  "ignoring f c = map_sum id snd (f c)"

definition in_nest :: "'m libnl \<Rightarrow> 'm step \<Rightarrow> 'm step" where
  "in_nest nl body c =
     (case attr_start nl c of
        Inl e \<Rightarrow> Inl e
      | Inr (data, c1) \<Rightarrow> (case body c1 of Inl e \<Rightarrow> Inl e | Inr c2 \<Rightarrow> attr_end nl data c2))"

definition iface_step :: "'m libnl \<Rightarrow> interface_info \<Rightarrow> 'm step" where
  "iface_step nl i =
     (if wdev_idx i \<noteq> 0 then ignoring (command_put_u32 nl (Named NL80211_ATTR_WDEV) (wdev_idx i))
      else ignoring (command_put_u32 nl (Named NL80211_ATTR_IFINDEX) (iface_idx i)))"

definition vendor_steps :: "'m libnl \<Rightarrow> u32 \<Rightarrow> 'm step list" where
  "vendor_steps nl subcmd =
     [ignoring (command_put_u32 nl (Named NL80211_ATTR_VENDOR_ID) OUI_GOOGLE),
      ignoring (command_put_u32 nl (Named NL80211_ATTR_VENDOR_SUBCMD) subcmd)]"

definition GetValidChannels_steps :: "'m libnl \<Rightarrow> interface_info \<Rightarrow> u32 \<Rightarrow> 'm step list" where
  "GetValidChannels_steps nl i band =
     [iface_step nl i] @ vendor_steps nl SKW_VCMD_GET_CHANNELS @ [in_nest nl (ignoring (command_put_u32 nl (Number 20) band))]"

definition SetCountryCode_steps :: "'m libnl \<Rightarrow> interface_info \<Rightarrow> byte list \<Rightarrow> 'm step list" where
  "SetCountryCode_steps nl i country =
     vendor_steps nl SKW_VCMD_SET_COUNTRY @ [iface_step nl i, in_nest nl (ignoring (command_put_string nl (Number 5) country))]"

definition GetVersion_steps :: "'m libnl \<Rightarrow> interface_info \<Rightarrow> nat \<Rightarrow> 'm step list" where
  "GetVersion_steps nl i subcmd =
     vendor_steps nl SKW_VCMD_GET_VERSION @ [iface_step nl i, in_nest nl (ignoring (command_put_u32 nl (Number subcmd) 0))]"

definition GetRingBuffStatus_steps :: "'m libnl \<Rightarrow> interface_info \<Rightarrow> 'm step list" where
  "GetRingBuffStatus_steps nl i = vendor_steps nl SKW_VCMD_GET_RING_BUFFERS_STATUS @ [iface_step nl i]"

definition GetLoggerFeature_steps :: "'m libnl \<Rightarrow> interface_info \<Rightarrow> 'm step list" where
  "GetLoggerFeature_steps nl i = vendor_steps nl SKW_VCMD_GET_LOGGER_FEATURES @ [iface_step nl i]"

definition GetPacketFilterCapa_steps :: "'m libnl \<Rightarrow> interface_info \<Rightarrow> 'm step list" where
  "GetPacketFilterCapa_steps nl i = vendor_steps nl SKW_VCMD_GET_APF_CAPABILITIES @ [iface_step nl i]"

definition GetUsableChannels_steps :: "'m libnl \<Rightarrow> interface_info \<Rightarrow> skw_usable_chan_info \<Rightarrow> 'm step list" where
  "GetUsableChannels_steps nl i info =
     [iface_step nl i] @ vendor_steps nl SKW_VCMD_GET_USABLE_CHANS @
     [ignoring (command_put_data nl (Named NL80211_ATTR_VENDOR_DATA) 20 (info_bytes info))]"

definition GetMulticastId_steps :: "'m libnl \<Rightarrow> byte list \<Rightarrow> 'm step list" where
  "GetMulticastId_steps nl nl80211 = [ignoring (command_put_string nl (Named CTRL_ATTR_FAMILY_NAME) nl80211)]"

text \<open>\<open>GetInterfacesCommand\<close> puts nothing into its message.\<close>

definition GetInterfaces_steps :: "'m libnl \<Rightarrow> 'm step list" where
  "GetInterfaces_steps nl = []"

text \<open>The commands of the HAL, their builders, and what these are to put into the message.\<close>

datatype hal_command =
    Interfaces | Valid_channels u32 | Country_code "byte list" | Version nat | Ring_status | Logger_features | Packet_filter
  | Usable_channels skw_usable_chan_info | Multicast_id "byte list"

fun command_steps :: "'m libnl \<Rightarrow> interface_info \<Rightarrow> hal_command \<Rightarrow> 'm step list" where
  "command_steps nl i Interfaces = GetInterfaces_steps nl"
| "command_steps nl i (Valid_channels band) = GetValidChannels_steps nl i band"
| "command_steps nl i (Country_code country) = SetCountryCode_steps nl i country"
| "command_steps nl i (Version subcmd) = GetVersion_steps nl i subcmd"
| "command_steps nl i Ring_status = GetRingBuffStatus_steps nl i"
| "command_steps nl i Logger_features = GetLoggerFeature_steps nl i"
| "command_steps nl i Packet_filter = GetPacketFilterCapa_steps nl i"
| "command_steps nl i (Usable_channels info) = GetUsableChannels_steps nl i info"
| "command_steps nl i (Multicast_id family) = GetMulticastId_steps nl family"

fun command_attrs :: "interface_info \<Rightarrow> hal_command \<Rightarrow> msg_attr list" where
  "command_attrs i Interfaces = []"
| "command_attrs i (Valid_channels band) = GetValidChannels_build i band"
| "command_attrs i (Country_code country) = SetCountryCode_build i country"
| "command_attrs i (Version subcmd) = GetVersion_build i subcmd"
| "command_attrs i Ring_status = GetRingBuffStatus_build i"
| "command_attrs i Logger_features = GetLoggerFeature_build i"
| "command_attrs i Packet_filter = GetPacketFilterCapa_build i"
| "command_attrs i (Usable_channels info) = GetUsableChannels_build i info"
| "command_attrs i (Multicast_id family) = GetMulticastId_build family"

section \<open>The requests\<close>

text \<open>\<open>getSock\<close> and \<open>getFamily\<close>, over the \<open>hal_info\<close> the handle of the interface points to.\<close>

definition getSock :: "hal_info \<Rightarrow> nat option" where
  "getSock hal = nl_hal hal"

definition getFamily :: "hal_info \<Rightarrow> int" where
  "getFamily hal = family_nl80211 hal"

text \<open>The constructors of the command classes: that of the base class, and the fields of their own.\<close>

definition GetInterfacesCommand_new where
  "GetInterfacesCommand_new nl alloc sk family_id flags nl80211_cmd stack =
     (WifiCommand_init nl alloc sk family_id flags nl80211_cmd, GetInterfaces_init stack)"

definition GetValidChannelsCommand_new where
  "GetValidChannelsCommand_new nl alloc sk family_id flags nl80211_cmd max_chans =
     (WifiCommand_init nl alloc sk family_id flags nl80211_cmd, GetValidChannels_init max_chans)"

definition SetCountryCodeCommand_new where
  "SetCountryCodeCommand_new nl alloc sk family_id flags nl80211_cmd = (WifiCommand_init nl alloc sk family_id flags nl80211_cmd, ())"

definition GetVersionCommand_new where
  "GetVersionCommand_new nl alloc sk family_id flags nl80211_cmd =
     (WifiCommand_init nl alloc sk family_id flags nl80211_cmd, replicate SKW_BUFF_SIZE (0 :: byte))"

definition GetRingBuffStatus_new where
  "GetRingBuffStatus_new nl alloc sk family_id flags nl80211_cmd (status :: byte list list) =
     (WifiCommand_init nl alloc sk family_id flags nl80211_cmd, (status, 0 :: nat))"

definition GetLoggerFeature_new where
  "GetLoggerFeature_new nl alloc sk family_id flags nl80211_cmd = (WifiCommand_init nl alloc sk family_id flags nl80211_cmd, 0 :: u32)"

definition GetPacketFilterCapa_new where
  "GetPacketFilterCapa_new nl alloc sk family_id flags nl80211_cmd =
     (WifiCommand_init nl alloc sk family_id flags nl80211_cmd, (0 :: u32, 0 :: u32))"

definition GetUsableChannels_new where
  "GetUsableChannels_new nl alloc sk family_id flags nl80211_cmd = (WifiCommand_init nl alloc sk family_id flags nl80211_cmd, [] :: byte list)"

definition GetMulticastId_new where
  "GetMulticastId_new nl alloc sk family_id flags nl80211_cmd = (WifiCommand_init nl alloc sk family_id flags nl80211_cmd, -1 :: int)"

text \<open>
  How the functions of the HAL construct their commands; a multicast group is looked up over the socket \<open>sk\<close> that is to
  join it, in the family \<open>ctrl\<close> that \<open>genl_ctrl_resolve\<close> found. And the request with its attributes, before it is sent.
\<close>

abbreviation (input) NLM_F_DUMP :: nat where "NLM_F_DUMP \<equiv> 0x300"

fun command_new :: "'m libnl \<Rightarrow> 'm option \<Rightarrow> hal_info \<Rightarrow> nat option \<Rightarrow> int \<Rightarrow> hal_command \<Rightarrow> 'm wifi_command" where
  "command_new nl alloc hal sk ctrl Interfaces =
     fst (GetInterfacesCommand_new nl alloc (nl_hal hal) (family_nl80211 hal) NLM_F_DUMP NL80211_CMD_GET_INTERFACE [])"
| "command_new nl alloc hal sk ctrl (Valid_channels band) =
     fst (GetValidChannelsCommand_new nl alloc (getSock hal) (getFamily hal) 0 NL80211_CMD_VENDOR 0)"
| "command_new nl alloc hal sk ctrl (Country_code country) = fst (SetCountryCodeCommand_new nl alloc (getSock hal) (getFamily hal) 0 NL80211_CMD_VENDOR)"
| "command_new nl alloc hal sk ctrl (Version subcmd) = fst (GetVersionCommand_new nl alloc (getSock hal) (getFamily hal) 0 NL80211_CMD_VENDOR)"
| "command_new nl alloc hal sk ctrl Ring_status = fst (GetRingBuffStatus_new nl alloc (getSock hal) (getFamily hal) 0 NL80211_CMD_VENDOR [])"
| "command_new nl alloc hal sk ctrl Logger_features = fst (GetLoggerFeature_new nl alloc (getSock hal) (getFamily hal) 0 NL80211_CMD_VENDOR)"
| "command_new nl alloc hal sk ctrl Packet_filter = fst (GetPacketFilterCapa_new nl alloc (getSock hal) (getFamily hal) 0 NL80211_CMD_VENDOR)"
| "command_new nl alloc hal sk ctrl (Usable_channels info) =
     fst (GetUsableChannels_new nl alloc (nl_hal hal) (family_nl80211 hal) 0 NL80211_CMD_VENDOR)"
| "command_new nl alloc hal sk ctrl (Multicast_id family) = fst (GetMulticastId_new nl alloc sk ctrl 0 CTRL_CMD_GETFAMILY)"

definition hal_request where
  "hal_request nl alloc hal sk ctrl i cmd = run_steps (command_steps nl i cmd) (command_new nl alloc hal sk ctrl cmd)"

text \<open>What is to become of a command: the socket it is sent on, and the header of its message.\<close>

definition command_sock :: "hal_info \<Rightarrow> nat option \<Rightarrow> hal_command \<Rightarrow> nat option" where
  "command_sock hal sk cmd = (case cmd of Multicast_id _ \<Rightarrow> sk | _ \<Rightarrow> nl_hal hal)"

definition command_header :: "hal_info \<Rightarrow> int \<Rightarrow> hal_command \<Rightarrow> int \<times> nat \<times> nl_cmd" where
  "command_header hal ctrl cmd =
     (case cmd of
        Multicast_id _ \<Rightarrow> (ctrl, 0, CTRL_CMD_GETFAMILY)
      | Interfaces \<Rightarrow> (family_nl80211 hal, NLM_F_DUMP, NL80211_CMD_GET_INTERFACE)
      | _ \<Rightarrow> (family_nl80211 hal, 0, NL80211_CMD_VENDOR))"

lemma command_new_eq:
  "command_new nl alloc hal sk ctrl cmd =
     (case command_header hal ctrl cmd of (family_id, flags, c) \<Rightarrow> WifiCommand_init nl alloc (command_sock hal sk cmd) family_id flags c)"
  by (cases cmd) (simp_all add: command_header_def command_sock_def getSock_def getFamily_def GetInterfacesCommand_new_def
    GetValidChannelsCommand_new_def SetCountryCodeCommand_new_def GetVersionCommand_new_def GetRingBuffStatus_new_def
    GetLoggerFeature_new_def GetPacketFilterCapa_new_def GetUsableChannels_new_def GetMulticastId_new_def)

section \<open>The messages that are built\<close>

fun as_attr :: "msg_attr \<Rightarrow> nl_attr" where
  "as_attr (Put a p) = Attr (Named a) p"
| "as_attr (Nest a ps) = Nested (Named a) (map (\<lambda>(t, p). (Number t, p)) ps)"

fun attr_size :: "nl_attr \<Rightarrow> nat" where
  "attr_size (Attr a p) = nla_total_size (length p)"
| "attr_size (Nested a ps) = nla_total_size 0 + sum_list (map (\<lambda>(t, p). nla_total_size (length p)) ps)"

text \<open>A step that, given the room, appends the attributes \<open>xs\<close>.\<close>

definition appends :: "('m \<Rightarrow> nl_view) \<Rightarrow> ('m \<Rightarrow> nat) \<Rightarrow> 'm step \<Rightarrow> nl_attr list \<Rightarrow> bool" where
  "appends msg_view room f xs \<longleftrightarrow>
     (\<forall>c m. cmd_msg c = Some m \<longrightarrow> open_nest (msg_view m) = None \<longrightarrow> sum_list (map attr_size xs) \<le> room m \<longrightarrow>
        (\<exists>m'. f c = Inr (c\<lparr>cmd_msg := Some m'\<rparr>) \<and>
           msg_view m' = (msg_view m)\<lparr>closed_attrs := closed_attrs (msg_view m) @ xs\<rparr> \<and>
           room m' = room m - sum_list (map attr_size xs)))"

lemma word_bytes_u32: "word_bytes 4 (w :: u32) = u32_bytes w"
  by (simp add: word_bytes_def u32_bytes_def numeral_eq_Suc)

lemma run_steps_append: "run_steps (fs @ gs) c = (case run_steps fs c of Inl e \<Rightarrow> Inl e | Inr c' \<Rightarrow> run_steps gs c')"
  by (induction fs c rule: run_steps.induct) (auto split: sum.splits)

lemma appendsI:
  fixes msg_view :: "'m \<Rightarrow> nl_view"
  assumes "\<And>(c :: 'm wifi_command) m. cmd_msg c = Some m \<Longrightarrow> open_nest (msg_view m) = None \<Longrightarrow> sum_list (map attr_size xs) \<le> room m \<Longrightarrow>
    \<exists>m'. f c = Inr (c\<lparr>cmd_msg := Some m'\<rparr>) \<and>
      msg_view m' = (msg_view m)\<lparr>closed_attrs := closed_attrs (msg_view m) @ xs\<rparr> \<and> room m' = room m - sum_list (map attr_size xs)"
  shows "appends msg_view room f xs"
  using assms unfolding appends_def by blast

lemma appendsE:
  assumes "appends msg_view room f xs" "cmd_msg c = Some m" "open_nest (msg_view m) = None" "sum_list (map attr_size xs) \<le> room m"
  obtains m' where "f c = Inr (c\<lparr>cmd_msg := Some m'\<rparr>)"
    "msg_view m' = (msg_view m)\<lparr>closed_attrs := closed_attrs (msg_view m) @ xs\<rparr>" "room m' = room m - sum_list (map attr_size xs)"
  using assms unfolding appends_def by blast

text \<open>The laws one by one.\<close>

lemma nla_put_fits:
  assumes "libnl_laws nl msg_view room" "nla_total_size (length p) \<le> room m"
  obtains m' where "nla_put nl a p m = (0, m')" "msg_view m' = add_attr a p (msg_view m)" "room m' = room m - nla_total_size (length p)"
  using assms unfolding libnl_laws_def by blast

lemma nla_put_full:
  assumes "libnl_laws nl msg_view room" "room m < nla_total_size (length p)"
  obtains r where "nla_put nl a p m = (r, m)" "r < 0"
  using assms unfolding libnl_laws_def by blast

lemma nla_nest_start_fits:
  assumes "libnl_laws nl msg_view room" "open_nest (msg_view m) = None" "nla_total_size 0 \<le> room m"
  obtains m' where "nla_nest_start nl a m = (True, m')" "msg_view m' = (msg_view m)\<lparr>open_nest := Some (a, [])\<rparr>"
    "room m' = room m - nla_total_size 0"
  using assms unfolding libnl_laws_def by blast

lemma nla_nest_start_full:
  assumes "libnl_laws nl msg_view room" "room m < nla_total_size 0"
  shows "nla_nest_start nl a m = (False, m)"
  using assms unfolding libnl_laws_def by blast

lemma nla_nest_end_view:
  assumes "libnl_laws nl msg_view room" "open_nest (msg_view m) = Some (a, x # ps)"
  shows "msg_view (nla_nest_end nl m) = (msg_view m)\<lparr>closed_attrs := closed_attrs (msg_view m) @ [Nested a (x # ps)], open_nest := None\<rparr>"
    "room (nla_nest_end nl m) = room m"
  using assms unfolding libnl_laws_def by blast+

lemma genlmsg_put_view:
  assumes "libnl_laws nl msg_view room" "GENL_HDRLEN \<le> room m"
  shows "msg_view (genlmsg_put nl fam fl c m) = (msg_view m)\<lparr>msg_header := Some (fam, fl, c)\<rparr>"
    "room (genlmsg_put nl fam fl c m) = room m - GENL_HDRLEN"
  using assms unfolding libnl_laws_def by blast+

lemma appends_nil:
  fixes msg_view :: "'m \<Rightarrow> nl_view"
  shows "appends msg_view room (run_steps []) []"
proof (rule appendsI)
  fix c :: "'m wifi_command" and m assume "cmd_msg c = Some m" "open_nest (msg_view m) = None"
  then show "\<exists>m'. run_steps [] c = Inr (c\<lparr>cmd_msg := Some m'\<rparr>) \<and>
      msg_view m' = (msg_view m)\<lparr>closed_attrs := closed_attrs (msg_view m) @ []\<rparr> \<and>
      room m' = room m - sum_list (map attr_size [])"
    by (intro exI [of _ m]) simp
qed

lemma appends_then:
  fixes msg_view :: "'m \<Rightarrow> nl_view"
  assumes "appends msg_view room f xs" "appends msg_view room g ys"
  shows "appends msg_view room (\<lambda>c. case f c of Inl e \<Rightarrow> Inl e | Inr c' \<Rightarrow> g c') (xs @ ys)"
proof (rule appendsI)
  fix c :: "'m wifi_command" and m
  assume m: "cmd_msg c = Some m" "open_nest (msg_view m) = None" "sum_list (map attr_size (xs @ ys)) \<le> room m"
  from m(3) have xs: "sum_list (map attr_size xs) \<le> room m" by simp
  obtain m1 where 1: "f c = Inr (c\<lparr>cmd_msg := Some m1\<rparr>)"
    "msg_view m1 = (msg_view m)\<lparr>closed_attrs := closed_attrs (msg_view m) @ xs\<rparr>" "room m1 = room m - sum_list (map attr_size xs)"
    by (rule appendsE [OF assms(1) m(1,2) xs])
  have "cmd_msg (c\<lparr>cmd_msg := Some m1\<rparr>) = Some m1" "open_nest (msg_view m1) = None" "sum_list (map attr_size ys) \<le> room m1"
    using 1 m(2,3) by simp_all
  from appendsE [OF assms(2) this] obtain m2 where "g (c\<lparr>cmd_msg := Some m1\<rparr>) = Inr (c\<lparr>cmd_msg := Some m1\<rparr>\<lparr>cmd_msg := Some m2\<rparr>)"
    "msg_view m2 = (msg_view m1)\<lparr>closed_attrs := closed_attrs (msg_view m1) @ ys\<rparr>" "room m2 = room m1 - sum_list (map attr_size ys)"
    by metis
  with 1 show "\<exists>m'. (case f c of Inl e \<Rightarrow> Inl e | Inr c' \<Rightarrow> g c') = Inr (c\<lparr>cmd_msg := Some m'\<rparr>) \<and>
      msg_view m' = (msg_view m)\<lparr>closed_attrs := closed_attrs (msg_view m) @ xs @ ys\<rparr> \<and>
      room m' = room m - sum_list (map attr_size (xs @ ys))"
    by (intro exI [of _ m2]) simp
qed

lemma appends_steps:
  assumes "appends msg_view room (run_steps fs) xs" "appends msg_view room (run_steps gs) ys"
  shows "appends msg_view room (run_steps (fs @ gs)) (xs @ ys)"
  using appends_then [OF assms] by (simp add: run_steps_append [abs_def])

lemma appends_one:
  assumes "appends msg_view room f xs"
  shows "appends msg_view room (run_steps [f]) xs"
proof -
  have "run_steps [f] = (\<lambda>c. case f c of Inl e \<Rightarrow> Inl e | Inr c' \<Rightarrow> run_steps [] c')" by (rule ext) simp
  then show ?thesis using appends_then [OF assms appends_nil] by simp
qed

lemma appends_put:
  fixes msg_view :: "'m \<Rightarrow> nl_view"
  assumes "libnl_laws nl msg_view room"
  shows "appends msg_view room (ignoring (put_payload nl a p)) [Attr a p]"
proof (rule appendsI)
  fix c :: "'m wifi_command" and m
  assume m: "cmd_msg c = Some m" "open_nest (msg_view m) = None" "sum_list (map attr_size [Attr a p]) \<le> room m"
  from m(3) have "nla_total_size (length p) \<le> room m" by simp
  from nla_put_fits [OF assms this] obtain m' where
    "nla_put nl a p m = (0, m')" "msg_view m' = add_attr a p (msg_view m)" "room m' = room m - nla_total_size (length p)"
    by metis
  with m show "\<exists>m'. ignoring (put_payload nl a p) c = Inr (c\<lparr>cmd_msg := Some m'\<rparr>) \<and>
      msg_view m' = (msg_view m)\<lparr>closed_attrs := closed_attrs (msg_view m) @ [Attr a p]\<rparr> \<and>
      room m' = room m - sum_list (map attr_size [Attr a p])"
    by (intro exI [of _ m']) (simp add: ignoring_def put_payload_def add_attr_def)
qed

lemma appends_nest:
  fixes msg_view :: "'m \<Rightarrow> nl_view"
  assumes "libnl_laws nl msg_view room"
  shows "appends msg_view room (in_nest nl (ignoring (put_payload nl a p))) [Nested (Named NL80211_ATTR_VENDOR_DATA) [(a, p)]]"
proof (rule appendsI)
  let ?d = "Named NL80211_ATTR_VENDOR_DATA" and ?x = "Nested (Named NL80211_ATTR_VENDOR_DATA) [(a, p)]"
  fix c :: "'m wifi_command" and m
  assume m: "cmd_msg c = Some m" "open_nest (msg_view m) = None" "sum_list (map attr_size [?x]) \<le> room m"
  from m(3) have "nla_total_size 0 \<le> room m" by simp
  from nla_nest_start_fits [OF assms m(2) this, of ?d] obtain m1 where 1: "nla_nest_start nl ?d m = (True, m1)"
    "msg_view m1 = (msg_view m)\<lparr>open_nest := Some (?d, [])\<rparr>" "room m1 = room m - nla_total_size 0"
    by metis
  from 1 m(3) have "nla_total_size (length p) \<le> room m1" by simp
  from nla_put_fits [OF assms this] obtain m2 where 2: "nla_put nl a p m1 = (0, m2)" "msg_view m2 = add_attr a p (msg_view m1)"
    "room m2 = room m1 - nla_total_size (length p)"
    by metis
  then have n: "open_nest (msg_view m2) = Some (?d, [(a, p)])" and k: "closed_attrs (msg_view m2) = closed_attrs (msg_view m)"
    and v: "(msg_view m2)\<lparr>closed_attrs := xs, open_nest := None\<rparr> = (msg_view m)\<lparr>closed_attrs := xs\<rparr>" for xs
    using m(2) by (simp_all add: 1 add_attr_def)
  note 3 = nla_nest_end_view [OF assms n]
  have "in_nest nl (ignoring (put_payload nl a p)) c = Inr (c\<lparr>cmd_msg := Some (nla_nest_end nl m2)\<rparr>)"
    using m(1) 1(1) 2(1) by (simp add: in_nest_def attr_start_def ignoring_def put_payload_def attr_end_def)
  with 1(3) 2(3) 3 k v show "\<exists>m'. in_nest nl (ignoring (put_payload nl a p)) c = Inr (c\<lparr>cmd_msg := Some m'\<rparr>) \<and>
      msg_view m' = (msg_view m)\<lparr>closed_attrs := closed_attrs (msg_view m) @ [?x]\<rparr> \<and>
      room m' = room m - sum_list (map attr_size [?x])"
    by (intro exI [of _ "nla_nest_end nl m2"]) simp
qed

lemma command_put_info: "command_put_data nl a 20 (info_bytes info) = put_payload nl a (info_bytes info)"
  by (rule ext) (simp add: command_put_data_def info_bytes_def)

lemma appends_iface:
  assumes "libnl_laws nl msg_view room"
  shows "appends msg_view room (iface_step nl i) (map as_attr (put_iface i))"
  using appends_put [OF assms] by (simp add: iface_step_def put_iface_def put_u32_def command_put_u32_def word_bytes_u32)

lemma appends_vendor:
  assumes "libnl_laws nl msg_view room"
  shows "appends msg_view room (run_steps (vendor_steps nl subcmd)) (map as_attr (put_vendor subcmd))"
  using appends_steps [OF appends_one [OF appends_put [OF assms]] appends_one [OF appends_put [OF assms]]]
  by (simp add: vendor_steps_def put_vendor_def put_u32_def command_put_u32_def word_bytes_u32)

lemma appends_command:
  assumes "libnl_laws nl msg_view room"
  shows "appends msg_view room (run_steps (command_steps nl i cmd)) (map as_attr (command_attrs i cmd))"
proof -
  note iface = appends_one [OF appends_iface [OF assms]] and vendor = appends_vendor [OF assms]
    and put = appends_one [OF appends_put [OF assms]] and nest = appends_one [OF appends_nest [OF assms]]
  show ?thesis
  proof (cases cmd)
    case Interfaces
    then show ?thesis using appends_nil by (simp add: GetInterfaces_steps_def)
  next
    case (Valid_channels band)
    then show ?thesis
      using appends_steps [OF iface appends_steps [OF vendor nest]]
      by (simp add: GetValidChannels_steps_def GetValidChannels_build_def command_put_u32_def word_bytes_u32)
  next
    case (Country_code country)
    then show ?thesis
      using appends_steps [OF vendor appends_steps [OF iface nest]]
      by (simp add: SetCountryCode_steps_def SetCountryCode_build_def command_put_string_def)
  next
    case (Version subcmd)
    then show ?thesis
      using appends_steps [OF vendor appends_steps [OF iface nest]]
      by (simp add: GetVersion_steps_def GetVersion_build_def command_put_u32_def word_bytes_u32)
  next
    case Ring_status
    then show ?thesis
      using appends_steps [OF vendor iface] by (simp add: GetRingBuffStatus_steps_def GetRingBuffStatus_build_def)
  next
    case Logger_features
    then show ?thesis
      using appends_steps [OF vendor iface] by (simp add: GetLoggerFeature_steps_def GetLoggerFeature_build_def)
  next
    case Packet_filter
    then show ?thesis
      using appends_steps [OF vendor iface] by (simp add: GetPacketFilterCapa_steps_def GetPacketFilterCapa_build_def)
  next
    case (Usable_channels info)
    then show ?thesis
      using appends_steps [OF iface appends_steps [OF vendor put]]
      by (simp add: GetUsableChannels_steps_def GetUsableChannels_build_def command_put_info)
  next
    case (Multicast_id family)
    then show ?thesis
      using put by (simp add: GetMulticastId_steps_def GetMulticastId_build_def command_put_string_def)
  qed
qed

text \<open>
  The bytes of a command: those without a string take at most 48, and a message of libnl has the room of a page.
\<close>

definition command_size :: "interface_info \<Rightarrow> hal_command \<Rightarrow> nat" where
  "command_size i cmd = sum_list (map attr_size (map as_attr (command_attrs i cmd)))"

lemma command_size_bounded:
  "command_size i cmd \<le> (case cmd of Country_code s \<Rightarrow> 40 + length s | Multicast_id s \<Rightarrow> 8 + length s | _ \<Rightarrow> 48)"
proof -
  have i: "sum_list (map attr_size (map as_attr (put_iface i))) = 8" by (simp add: put_iface_def put_u32_def nla_total_size_def)
  have v: "sum_list (map attr_size (map as_attr (put_vendor subcmd))) = 16" for subcmd
    by (simp add: put_vendor_def put_u32_def nla_total_size_def)
  have s: "nla_total_size (length (nla_get_string s @ [0])) \<le> 8 + length s" for s :: "byte list"
    using length_takeWhile_le [of "\<lambda>b. b \<noteq> 0" s] by (simp add: nla_get_string_def nla_total_size_def)
  have n: "attr_size (as_attr (Nest a [(t, p)])) = 4 + nla_total_size (length p)" "attr_size (as_attr (Put a p)) = nla_total_size (length p)" for a t p
    by (simp_all add: nla_total_size_def [of 0])
  show ?thesis
  proof (cases cmd)
    case Interfaces
    then show ?thesis by (simp add: command_size_def)
  next
    case (Country_code country)
    then show ?thesis
      using i v [of SKW_VCMD_SET_COUNTRY] s [of country] n
      by (simp add: command_size_def SetCountryCode_build_def del: as_attr.simps attr_size.simps)
  next
    case (Multicast_id family)
    then show ?thesis using s [of family] n by (simp add: command_size_def GetMulticastId_build_def del: as_attr.simps attr_size.simps)
  next
    case (Usable_channels info)
    then show ?thesis
      using i v [of SKW_VCMD_GET_USABLE_CHANS] n
      by (simp add: command_size_def GetUsableChannels_build_def info_bytes_def nla_total_size_def del: as_attr.simps attr_size.simps)
  next
    case (Valid_channels band)
    then show ?thesis
      using i v [of SKW_VCMD_GET_CHANNELS] n
      by (simp add: command_size_def GetValidChannels_build_def nla_total_size_def del: as_attr.simps attr_size.simps)
  next
    case (Version subcmd)
    then show ?thesis
      using i v [of SKW_VCMD_GET_VERSION] n
      by (simp add: command_size_def GetVersion_build_def nla_total_size_def del: as_attr.simps attr_size.simps)
  next
    case Ring_status
    then show ?thesis
      using i v [of SKW_VCMD_GET_RING_BUFFERS_STATUS] by (simp add: command_size_def GetRingBuffStatus_build_def del: as_attr.simps attr_size.simps)
  next
    case Logger_features
    then show ?thesis
      using i v [of SKW_VCMD_GET_LOGGER_FEATURES] by (simp add: command_size_def GetLoggerFeature_build_def del: as_attr.simps attr_size.simps)
  next
    case Packet_filter
    then show ?thesis
      using i v [of SKW_VCMD_GET_APF_CAPABILITIES] by (simp add: command_size_def GetPacketFilterCapa_build_def del: as_attr.simps attr_size.simps)
  qed
qed

lemma null_message:
  assumes "cmd_msg c = None"
  shows "ignoring (put_payload nl a p) c = Inl NullDeref" "iface_step nl i c = Inl NullDeref"
  using assms by (simp_all add: ignoring_def put_payload_def iface_step_def command_put_u32_def)

lemma command_without_message:
  assumes "cmd_msg c = None" "cmd \<noteq> Interfaces"
  shows "run_steps (command_steps nl i cmd) c = Inl NullDeref"
  using assms(2)
  by (cases cmd) (simp_all add: null_message [OF assms(1)] vendor_steps_def command_put_u32_def command_put_string_def
    GetValidChannels_steps_def SetCountryCode_steps_def GetVersion_steps_def GetRingBuffStatus_steps_def
    GetLoggerFeature_steps_def GetPacketFilterCapa_steps_def GetUsableChannels_steps_def GetMulticastId_steps_def)

text \<open>
  C22: What the HAL asks the driver, call of libnl by call of libnl: for every command, every interface and every libnl that
  keeps its promises, when the new message has the room, constructor and builder return without a fault; the message is
  addressed to the family of the HAL (the controller's for a multicast group) with the flags and number of its command, and
  holds the attributes of \<open>command_attrs\<close>, in their order, with the nest closed and nothing else; it is to be sent on the
  command's socket. When the message could not be allocated, the constructor goes on and the first call of the
  builder dereferences a null pointer, for every command that has attributes.
\<close>

theorem commands_built:
  assumes "libnl_laws nl msg_view room" "msg_view m0 = \<lparr>msg_header = None, closed_attrs = [], open_nest = None\<rparr>"
    and "GENL_HDRLEN + command_size i cmd \<le> room m0"
  shows "(\<exists>m. hal_request nl (Some m0) hal sk ctrl i cmd = Inr \<lparr>cmd_sock = command_sock hal sk cmd, cmd_msg = Some m\<rparr> \<and>
      msg_view m = \<lparr>msg_header = Some (command_header hal ctrl cmd), closed_attrs = map as_attr (command_attrs i cmd), open_nest = None\<rparr>) \<and>
    (cmd \<noteq> Interfaces \<longrightarrow> hal_request nl None hal sk ctrl i cmd = Inl NullDeref)"
proof (intro conjI impI)
  obtain family_id flags n where h: "command_header hal ctrl cmd = (family_id, flags, n)" by (cases "command_header hal ctrl cmd")
  let ?m = "genlmsg_put nl family_id flags n m0" and ?c = "command_new nl (Some m0) hal sk ctrl cmd"
  have room: "GENL_HDRLEN \<le> room m0" using assms(3) by simp
  have v: "msg_view ?m = \<lparr>msg_header = Some (family_id, flags, n), closed_attrs = [], open_nest = None\<rparr>"
    by (simp add: genlmsg_put_view(1) [OF assms(1) room] assms(2))
  have c: "?c = \<lparr>cmd_sock = command_sock hal sk cmd, cmd_msg = Some ?m\<rparr>"
    by (simp add: command_new_eq h WifiCommand_init_def)
  then have "cmd_msg ?c = Some ?m" "open_nest (msg_view ?m) = None" "command_size i cmd \<le> room ?m"
    using assms(3) by (simp_all add: v genlmsg_put_view(2) [OF assms(1) room])
  from appendsE [OF appends_command [OF assms(1)] this(1,2) this(3) [unfolded command_size_def]] obtain m where
    "run_steps (command_steps nl i cmd) ?c = Inr (?c\<lparr>cmd_msg := Some m\<rparr>)"
    "msg_view m = (msg_view ?m)\<lparr>closed_attrs := closed_attrs (msg_view ?m) @ map as_attr (command_attrs i cmd)\<rparr>"
    by metis
  then show "\<exists>m. hal_request nl (Some m0) hal sk ctrl i cmd = Inr \<lparr>cmd_sock = command_sock hal sk cmd, cmd_msg = Some m\<rparr> \<and>
      msg_view m = \<lparr>msg_header = Some (command_header hal ctrl cmd), closed_attrs = map as_attr (command_attrs i cmd), open_nest = None\<rparr>"
    by (intro exI [of _ m]) (simp add: hal_request_def v c h)
next
  assume "cmd \<noteq> Interfaces"
  then show "hal_request nl None hal sk ctrl i cmd = Inl NullDeref"
    unfolding hal_request_def by (intro command_without_message) (simp_all add: command_new_eq WifiCommand_init_def split: prod.split)
qed

text \<open>A libnl on messages that are the view and the room.\<close>

definition sample_libnl :: "(nl_view \<times> nat) libnl" where
  "sample_libnl =
     \<lparr>genlmsg_put = (\<lambda>family_id flags cmd (V, n). (V\<lparr>msg_header := Some (family_id, flags, cmd)\<rparr>, n - GENL_HDRLEN)),
      nla_put = (\<lambda>a p (V, n). if nla_total_size (length p) \<le> n then (0, (add_attr a p V, n - nla_total_size (length p))) else (- 5, (V, n))),
      nla_nest_start = (\<lambda>a (V, n). if nla_total_size 0 \<le> n then (True, (V\<lparr>open_nest := Some (a, [])\<rparr>, n - nla_total_size 0)) else (False, (V, n))),
      nla_nest_end = (\<lambda>(V, n). case open_nest V of None \<Rightarrow> (V, n)
        | Some (a, ps) \<Rightarrow> (V\<lparr>closed_attrs := closed_attrs V @ [Nested a ps], open_nest := None\<rparr>, n))\<rparr>"

lemma sample_libnl_laws: "libnl_laws sample_libnl fst snd"
  unfolding libnl_laws_def sample_libnl_def by (auto split: prod.splits)

definition sample_hal :: hal_info where
  "sample_hal = \<lparr>nl_hal = Some 1, nl_event = Some 2, family_nl80211 = 27, exit_socks = (5, 6), joined_groups = [],
     cleaned_up_handler = False, hal_exit = False\<rparr>"

theorem commands_built_witness:
  "\<exists>m. hal_request sample_libnl (Some (\<lparr>msg_header = None, closed_attrs = [], open_nest = None\<rparr>, 4080)) sample_hal None 16
      \<lparr>iface_idx = 3, wdev_idx = 0, iface_name = [0x77]\<rparr> (Country_code [0x55, 0x53, 0]) = Inr \<lparr>cmd_sock = Some 1, cmd_msg = Some m\<rparr> \<and>
    fst m = \<lparr>msg_header = Some (27, 0, NL80211_CMD_VENDOR), closed_attrs =
      [Attr (Named NL80211_ATTR_VENDOR_ID) [0x11, 0x1A, 0, 0], Attr (Named NL80211_ATTR_VENDOR_SUBCMD) [0x0E, 0x10, 0, 0],
       Attr (Named NL80211_ATTR_IFINDEX) [3, 0, 0, 0], Nested (Named NL80211_ATTR_VENDOR_DATA) [(Number 5, [0x55, 0x53, 0])]],
      open_nest = None\<rparr>"
proof -
  let ?i = "\<lparr>iface_idx = 3, wdev_idx = 0, iface_name = [0x77]\<rparr> :: interface_info"
  let ?cmd = "Country_code [0x55, 0x53, 0]" and ?m0 = "(\<lparr>msg_header = None, closed_attrs = [], open_nest = None\<rparr>, 4080) :: nl_view \<times> nat"
  have r: "GENL_HDRLEN + command_size ?i ?cmd \<le> snd ?m0"
    using command_size_bounded [of ?i ?cmd] by (simp add: GENL_HDRLEN_def)
  have a: "map as_attr (command_attrs ?i ?cmd) =
      [Attr (Named NL80211_ATTR_VENDOR_ID) [0x11, 0x1A, 0, 0], Attr (Named NL80211_ATTR_VENDOR_SUBCMD) [0x0E, 0x10, 0, 0],
       Attr (Named NL80211_ATTR_IFINDEX) [3, 0, 0, 0], Nested (Named NL80211_ATTR_VENDOR_DATA) [(Number 5, [0x55, 0x53, 0])]]"
    by code_simp
  have h: "command_header sample_hal 16 ?cmd = (27, 0, NL80211_CMD_VENDOR)" "command_sock sample_hal None ?cmd = Some 1"
    by (simp_all add: command_header_def command_sock_def sample_hal_def)
  show ?thesis
    using commands_built [OF sample_libnl_laws _ r, of sample_hal None 16] unfolding a h by simp
qed

end
