(* ===== verification/WifiTable.thy ===== *)
theory WifiTable
  imports WifiHal
begin

text \<open>
  The function table of the Wi-Fi HAL, \<open>init_wifi_vendor_hal_func_table\<close> of \<open>main.cpp\<close>, and the functions of
  it that do nothing but return: slots and functions under their names in the code, grouped as they stand
  there.
\<close>

section \<open>Functions that only return\<close>





















section \<open>The two short functions\<close>

text \<open>\<open>skw_wifi_get_supported_feature_set\<close>; the result and the caller's set.\<close>

definition skw_wifi_get_supported_feature_set :: "nat \<Rightarrow> wifi_error \<times> nat" where
  "skw_wifi_get_supported_feature_set feature = (WIFI_SUCCESS, 0)"

text \<open>\<open>skw_wifi_get_iface_name\<close>: the caller's array \<open>name\<close> and the size \<open>len\<close> it passes.\<close>

definition skw_wifi_get_iface_name :: "interface_info \<Rightarrow> byte list \<Rightarrow> nat \<Rightarrow> c_fault + (wifi_error \<times> byte list)" where
  "skw_wifi_get_iface_name iface name len = map_sum id (Pair WIFI_SUCCESS) (store name 0 (strncpy len (iface_name iface)))"

section \<open>The table\<close>






















section \<open>Properties\<close>

















section \<open>The name of an interface\<close>

text \<open>
  The name of an interface. Within the caller's array the result is success, nothing behind the size it passed
  changes, and what it reads back is the name cut off at that size; but the array holds a terminated name only if the name is shorter
  than the size. A size beyond the array is a write behind it, however short the name is.
\<close>

theorem iface_name_copied:
  assumes "0 \<notin> set (iface_name iface)"
  shows "(len \<le> length name \<longrightarrow>
      (\<exists>name'. skw_wifi_get_iface_name iface name len = Inr (WIFI_SUCCESS, name') \<and> length name' = length name \<and>
        drop len name' = drop len name \<and> nla_get_string (take len name') = take len (iface_name iface) \<and>
        (0 \<in> set (take len name') \<longleftrightarrow> length (iface_name iface) < len))) \<and>
    (length name < len \<longrightarrow> skw_wifi_get_iface_name iface name len = Inl OutOfBounds)"
proof -
  let ?n = "iface_name iface" and ?s = "strncpy len (iface_name iface)"
  have whole: "nla_get_string ?n = ?n"
    using assms unfolding nla_get_string_def by (simp add: takeWhile_eq_all_conv) metis
  then have s: "?s = take len ?n @ replicate (len - length ?n) 0"
    by (simp add: strncpy_def)
  have len: "length ?s = len" unfolding s by simp
  have str: "nla_get_string ?s = take len ?n"
    using assms unfolding s nla_get_string_def
    by (subst takeWhile_append2) (auto dest: in_set_takeD simp: takeWhile_eq_Nil_iff hd_replicate)
  have zero: "0 \<in> set ?s \<longleftrightarrow> length ?n < len"
    using assms unfolding s by (auto dest: in_set_takeD)
  show ?thesis
  proof (intro conjI impI)
    assume l: "len \<le> length name"
    let ?name = "overwrite name 0 ?s"
    have "skw_wifi_get_iface_name iface name len = Inr (WIFI_SUCCESS, ?name)"
      using l by (simp add: skw_wifi_get_iface_name_def store_def len)
    moreover have "take len ?name = ?s" "drop len ?name = drop len name" "length ?name = length name"
      using l by (simp_all add: overwrite_def len)
    ultimately show "\<exists>name'. skw_wifi_get_iface_name iface name len = Inr (WIFI_SUCCESS, name') \<and> length name' = length name \<and>
        drop len name' = drop len name \<and> nla_get_string (take len name') = take len ?n \<and>
        (0 \<in> set (take len name') \<longleftrightarrow> length ?n < len)"
      using str zero by (intro exI [of _ ?name]) simp
  next
    assume "length name < len"
    then show "skw_wifi_get_iface_name iface name len = Inl OutOfBounds"
      by (simp add: skw_wifi_get_iface_name_def store_def len)
  qed
qed

theorem iface_name_copied_witness:
  "\<exists>name'. skw_wifi_get_iface_name \<lparr>iface_idx = 3, wdev_idx = 0, iface_name = [0x77, 0x6C, 0x61, 0x6E, 0x30]\<rparr> (replicate 8 0xFF) 5 =
     Inr (WIFI_SUCCESS, name') \<and> 0 \<notin> set (take 5 name')"
proof -
  let ?i = "\<lparr>iface_idx = 3, wdev_idx = 0, iface_name = [0x77, 0x6C, 0x61, 0x6E, 0x30]\<rparr>"
  have "0 \<notin> set (iface_name ?i)" by simp
  from iface_name_copied [OF this, of 5 "replicate 8 0xFF"] show ?thesis by auto
qed

end
