(* ===== verification/DriverCmd.thy ===== *)
theory DriverCmd
  imports Prelude
begin

text \<open>
  The private driver commands of \<open>wpa_supplicant\<close>, \<open>driver_cmd_nl80211.c\<close>: the dispatch of
  \<open>wpa_driver_nl80211_driver_cmd\<close>, the count of failures that reports a hanging driver, and the event
  for a change of the country or the band. What the kernel answers is an argument, and so is the
  constant \<open>DRV_NUMBER_SEQUENTIAL_ERRORS\<close>, which a header outside the repository defines.
\<close>

section \<open>Strings\<close>

text \<open>Strings are lists of bytes without their terminator; \<open>strlen\<close> of a buffer reads past one that has none.\<close>

definition bytes_of :: "string \<Rightarrow> byte list" where
  "bytes_of s = map of_char s"

definition buf_strlen :: "byte list \<Rightarrow> c_fault + nat" where
  "buf_strlen buf = (if 0 \<in> set buf then Inr (length (takeWhile (\<lambda>b. b \<noteq> 0) buf)) else Inl OutOfBounds)"

definition lower :: "byte \<Rightarrow> byte" where
  "lower b = (if 0x41 \<le> b \<and> b \<le> 0x5A then b + 0x20 else b)"

text \<open>\<open>os_strcasecmp\<close> and \<open>os_strncasecmp\<close> compared with 0.\<close>

definition strcasecmp_eq :: "byte list \<Rightarrow> string \<Rightarrow> bool" where
  "strcasecmp_eq cmd s \<longleftrightarrow> map lower cmd = map lower (bytes_of s)"

definition strncasecmp_eq :: "byte list \<Rightarrow> string \<Rightarrow> nat \<Rightarrow> bool" where
  "strncasecmp_eq cmd s n \<longleftrightarrow> map lower (take n cmd) = map lower (take n (bytes_of s))"

definition hex_digit :: "byte \<Rightarrow> byte" where
  "hex_digit d = (if d < 10 then 0x30 + d else 0x57 + d)"

text \<open>\<open>os_snprintf (buf, buf_len, ..)\<close>: the text, cut off to leave room for the terminator, and its full length.\<close>

definition snprintf :: "byte list \<Rightarrow> byte list \<Rightarrow> nat \<times> byte list" where
  "snprintf buf text =
     (length text, if buf = [] then buf else overwrite buf 0 (take (length buf - 1) text @ [0]))"

definition mac_text :: "byte list \<Rightarrow> byte list" where
  "mac_text mac = concat (map (\<lambda>i. (if i = 0 then [] else [0x3A]) @ [hex_digit (drop_bit 4 (mac ! i)), hex_digit (mac ! i AND 0xF)]) [0..<6])"

section \<open>Interfaces and events\<close>

record i802_bss =
  bss_ifname :: "byte list"
  bss_ifindex :: int
  bss_wdev_id :: nat

datatype drv_event =
    Set_iface_flags "byte list" bool    \<comment> \<open>\<open>linux_set_iface_flags\<close> on the interface of this name\<close>
  | Driver_state string                 \<comment> \<open>\<open>WPA_EVENT_DRIVER_STATE\<close> with this state\<close>
  | Private_ioctl "byte list" nat       \<comment> \<open>the interface and the announced length of the buffer\<close>
  | Channel_list_changed bool "byte list"  \<comment> \<open>whether the type is country, and \<open>alpha2\<close>\<close>

text \<open>
  The interface a command is for: that of the caller, or for a P2P device without one the parent's.
  \<open>parent\<close> is \<open>None\<close> without a parent, \<open>Some None\<close> if the parent has lost its driver data.
\<close>

definition route :: "i802_bss \<Rightarrow> i802_bss option option \<Rightarrow> i802_bss option" where
  "route bss parent =
     (if bss_ifindex bss \<le> 0 \<and> bss_wdev_id bss > 0 then
        (case parent of None \<Rightarrow> Some bss | Some pbss \<Rightarrow> pbss)
      else Some bss)"

section \<open>Failures\<close>

definition wpa_driver_send_hang_msg :: "int \<Rightarrow> int \<Rightarrow> drv_event list \<times> int" where
  "wpa_driver_send_hang_msg max_errors drv_errors =
     (let n = drv_errors + 1 in
      if n > max_errors then ([Driver_state ''HANGED''], 0) else ([], n))"

section \<open>Country and band\<close>

definition wpa_driver_notify_country_change :: "byte list \<Rightarrow> drv_event list" where
  "wpa_driver_notify_country_change cmd =
     (if strncasecmp_eq cmd ''COUNTRY'' 7 \<or> strncasecmp_eq cmd ''SETBAND'' 7 then
        (if strncasecmp_eq cmd ''COUNTRY'' 7
         then [Channel_list_changed True (if length cmd > 9 then [cmd ! 8, cmd ! 9] else [0, 0])]
         else [Channel_list_changed False [0, 0]])
      else [])"

section \<open>Commands\<close>

text \<open>
  What the kernel answers: to \<open>linux_get_ifhwaddr\<close> a result and an address, to the private \<open>ioctl\<close> a
  result and what it makes of the buffer.
\<close>

record drv_obs =
  hwaddr_ret :: int
  hwaddr :: "byte list"
  ioctl_ret :: int
  ioctl_buf :: "byte list \<Rightarrow> byte list"

text \<open>The result, the buffer, the count of errors, and the events.\<close>

type_synonym drv_result = "int \<times> byte list \<times> int \<times> drv_event list"

definition private_command ::
    "int \<Rightarrow> drv_obs \<Rightarrow> i802_bss \<Rightarrow> byte list \<Rightarrow> byte list \<Rightarrow> int \<Rightarrow> c_fault + drv_result" where
  "private_command max_errors obs bss cmd buf drv_errors =
     (case store buf 0 (cmd @ [0]) of
        Inl e \<Rightarrow> Inl e
      | Inr buf1 \<Rightarrow>
          let buf2 = ioctl_buf obs buf1; call = Private_ioctl (take 15 (bss_ifname bss)) (length buf) in
          if ioctl_ret obs < 0 then
            (let (es, n) = wpa_driver_send_hang_msg max_errors drv_errors in Inr (ioctl_ret obs, buf2, n, call # es))
          else
            (case buf_strlen buf2 of
               Inl e \<Rightarrow> Inl e
             | Inr len \<Rightarrow>
                 let ret = (if strcasecmp_eq cmd ''LINKSPEED'' \<or> strcasecmp_eq cmd ''RSSI'' \<or> strcasecmp_eq cmd ''GETBAND'' \<or>
                               strncasecmp_eq cmd ''WLS_BATCHING'' 12 then int len else 0)
                 in Inr (ret, buf2, 0, call # wpa_driver_notify_country_change cmd)))"

definition wpa_driver_nl80211_driver_cmd ::
    "int \<Rightarrow> i802_bss option option \<Rightarrow> drv_obs \<Rightarrow> i802_bss \<Rightarrow> byte list \<Rightarrow> byte list \<Rightarrow> int \<Rightarrow> c_fault + drv_result" where
  "wpa_driver_nl80211_driver_cmd max_errors parent obs bss0 cmd buf drv_errors =
     (case route bss0 parent of
        None \<Rightarrow> Inr (-1, buf, drv_errors, [])
      | Some bss \<Rightarrow>
          if strcasecmp_eq cmd ''STOP'' then
            Inr (0, buf, drv_errors, [Set_iface_flags (bss_ifname bss) False, Driver_state ''STOPPED''])
          else if strcasecmp_eq cmd ''START'' then
            Inr (0, buf, drv_errors, [Set_iface_flags (bss_ifname bss) True, Driver_state ''STARTED''])
          else if strcasecmp_eq cmd ''MACADDR'' then
            (if hwaddr_ret obs = 0 then
               (let (n, buf') = snprintf buf (bytes_of ''Macaddr = '' @ mac_text (hwaddr obs) @ [0x0A])
                in Inr (int n, buf', drv_errors, []))
             else Inr (hwaddr_ret obs, buf, drv_errors, []))
          else private_command max_errors obs bss cmd buf drv_errors)"

text \<open>A sequence of commands, each with its buffer and the kernel's answers.\<close>

record drv_call =
  call_parent :: "i802_bss option option"
  call_obs :: drv_obs
  call_bss :: i802_bss
  call_cmd :: "byte list"
  call_buf :: "byte list"

definition run_call :: "int \<Rightarrow> drv_call \<Rightarrow> int \<Rightarrow> c_fault + drv_result" where
  "run_call max_errors x = wpa_driver_nl80211_driver_cmd max_errors (call_parent x) (call_obs x) (call_bss x) (call_cmd x) (call_buf x)"

fun run_calls :: "int \<Rightarrow> drv_call list \<Rightarrow> int \<Rightarrow> c_fault + (int \<times> drv_event list)" where
  "run_calls max_errors [] drv_errors = Inr (drv_errors, [])"
| "run_calls max_errors (x # xs) drv_errors =
     (case run_call max_errors x drv_errors of
        Inl e \<Rightarrow> Inl e
      | Inr (_, _, n, es) \<Rightarrow> map_sum id (\<lambda>(n', es'). (n', es @ es')) (run_calls max_errors xs n))"


text \<open>The peer-to-peer functions log their arguments, leave the buffers they are given alone and return.\<close>

definition p2p_stubs :: "(string \<times> int) list" where
  "p2p_stubs =
     [(''wpa_driver_set_p2p_noa'', 0), (''wpa_driver_get_p2p_noa'', 0), (''wpa_driver_set_p2p_ps'', 0),
      (''wpa_driver_set_ap_wps_p2p_ie'', 0)]"

section \<open>The count of failures\<close>

definition private_call :: "drv_call \<Rightarrow> bool" where
  "private_call x \<longleftrightarrow> route (call_bss x) (call_parent x) \<noteq> None \<and> \<not> strcasecmp_eq (call_cmd x) ''STOP'' \<and>
     \<not> strcasecmp_eq (call_cmd x) ''START'' \<and> \<not> strcasecmp_eq (call_cmd x) ''MACADDR''"

definition fits :: "drv_call \<Rightarrow> bool" where
  "fits x \<longleftrightarrow> length (call_cmd x) < length (call_buf x)"

definition failing :: "drv_call \<Rightarrow> bool" where
  "failing x \<longleftrightarrow> private_call x \<and> fits x \<and> ioctl_ret (call_obs x) < 0"

definition hangs :: "drv_event list \<Rightarrow> int" where
  "hangs es = int (length (filter (\<lambda>e. e = Driver_state ''HANGED'') es))"

lemma hangs_simps [simp]: "hangs [] = 0" "hangs (e # es) = (if e = Driver_state ''HANGED'' then 1 else 0) + hangs es"
  "hangs (es @ es') = hangs es + hangs es'"
  by (simp_all add: hangs_def)

lemma hangs_notify [simp]: "hangs (wpa_driver_notify_country_change cmd) = 0"
  by (simp add: wpa_driver_notify_country_change_def)

lemma run_call_private:
  assumes "private_call x"
  obtains bss where "\<And>e. run_call max_errors x e = private_command max_errors (call_obs x) bss (call_cmd x) (call_buf x) e"
  using assms by (auto simp: private_call_def run_call_def wpa_driver_nl80211_driver_cmd_def)

lemma run_call_other:
  assumes "\<not> private_call x"
  shows "\<exists>r buf es. run_call max_errors x e = Inr (r, buf, e, es) \<and> hangs es = 0"
  using assms
  by (cases "route (call_bss x) (call_parent x)")
    (auto simp: private_call_def run_call_def wpa_driver_nl80211_driver_cmd_def snprintf_def)

lemma store_fits: "store (call_buf x) 0 (call_cmd x @ [0]) = (if fits x then Inr (overwrite (call_buf x) 0 (call_cmd x @ [0])) else Inl OutOfBounds)"
  by (auto simp: store_def fits_def)

lemma run_call_failing:
  assumes "failing x"
  shows "\<exists>r buf es. run_call max_errors x e = Inr (r, buf, if e + 1 > max_errors then 0 else e + 1, es) \<and>
    hangs es = (if e + 1 > max_errors then 1 else 0)"
proof -
  have x: "private_call x" "fits x" "ioctl_ret (call_obs x) < 0" using assms by (simp_all add: failing_def)
  obtain bss where "\<And>e. run_call max_errors x e = private_command max_errors (call_obs x) bss (call_cmd x) (call_buf x) e"
    using run_call_private [OF x(1)] by metis
  then show ?thesis
    using x(2,3) by (simp add: private_command_def store_fits wpa_driver_send_hang_msg_def Let_def)
qed

lemma run_call_not_failing:
  assumes "\<not> failing x" "run_call max_errors x e = Inr (r, buf, n, es)"
  shows "n = (if private_call x then 0 else e) \<and> hangs es = 0"
proof (cases "private_call x")
  case True
  obtain bss where "\<And>e. run_call max_errors x e = private_command max_errors (call_obs x) bss (call_cmd x) (call_buf x) e"
    using run_call_private [OF True] by metis
  then show ?thesis
    using assms True by (auto simp: private_command_def store_fits failing_def Let_def split: if_splits sum.splits)
next
  case False
  then show ?thesis using assms(2) run_call_other [OF False, of max_errors e] by auto
qed

text \<open>
  C18: The report of a hanging driver. However private commands that fail, that succeed, and other commands
  are mixed, the count of errors stays between 0 and the limit; a success resets it, and no command but a
  failing one reports anything. A run of failing private commands reports the driver as hanging at
  every failure that takes the count beyond the limit, and starts counting anew after each report.
\<close>

theorem hang_reported:
  assumes "0 \<le> e" and "e \<le> max_errors" and "\<forall>x \<in> set xs. failing x"
  shows "(\<exists>es. run_calls max_errors xs e = Inr ((e + int (length xs)) mod (max_errors + 1), es) \<and>
      hangs es = (e + int (length xs)) div (max_errors + 1)) \<and>
    (\<forall>x r buf n es. run_call max_errors x e = Inr (r, buf, n, es) \<longrightarrow> 0 \<le> n \<and> n \<le> max_errors \<and>
      (\<not> failing x \<longrightarrow> n = (if private_call x then 0 else e) \<and> hangs es = 0))"
proof
  show "\<exists>es. run_calls max_errors xs e = Inr ((e + int (length xs)) mod (max_errors + 1), es) \<and>
      hangs es = (e + int (length xs)) div (max_errors + 1)"
    using assms
  proof (induction xs arbitrary: e)
    case Nil
    then show ?case by simp
  next
    case (Cons x xs)
    let ?n = "if e + 1 > max_errors then 0 else e + 1" and ?h = "if e + 1 > max_errors then 1 else 0 :: int"
    obtain r buf es where x: "run_call max_errors x e = Inr (r, buf, ?n, es)" "hangs es = ?h"
      using run_call_failing [of x max_errors e] Cons.prems(3) by auto
    have "0 \<le> ?n" "?n \<le> max_errors" using Cons.prems(1,2) by auto
    then obtain es' where xs: "run_calls max_errors xs ?n = Inr ((?n + int (length xs)) mod (max_errors + 1), es')"
      "hangs es' = (?n + int (length xs)) div (max_errors + 1)"
      using Cons.IH [of ?n] Cons.prems(3) by auto
    have eq: "e + int (length (x # xs)) = ?n + int (length xs) + ?h * (max_errors + 1)"
      using Cons.prems(2) by simp
    have "(e + int (length (x # xs))) mod (max_errors + 1) = (?n + int (length xs)) mod (max_errors + 1)"
      "(e + int (length (x # xs))) div (max_errors + 1) = ?h + (?n + int (length xs)) div (max_errors + 1)"
      unfolding eq using Cons.prems(1,2) by simp_all
    with x xs show ?case by simp
  qed
  show "\<forall>x r buf n es. run_call max_errors x e = Inr (r, buf, n, es) \<longrightarrow> 0 \<le> n \<and> n \<le> max_errors \<and>
      (\<not> failing x \<longrightarrow> n = (if private_call x then 0 else e) \<and> hangs es = 0)"
  proof (intro allI impI)
    fix x r buf n es
    assume run: "run_call max_errors x e = Inr (r, buf, n, es)"
    show "0 \<le> n \<and> n \<le> max_errors \<and> (\<not> failing x \<longrightarrow> n = (if private_call x then 0 else e) \<and> hangs es = 0)"
    proof (cases "failing x")
      case True
      then show ?thesis using run run_call_failing [of x max_errors e] assms(1,2) by auto
    next
      case False
      then show ?thesis using run_call_not_failing [OF False run] assms(1,2) by auto
    qed
  qed
qed

text \<open>
  Where a command can leave the caller's buffer. The commands the code knows never do; any other one,
  which is copied into the buffer for the driver, does exactly if the buffer is too short for it with
  its terminator, whatever length the caller gave for it, or if the driver succeeds and leaves a buffer
  without a terminator.
\<close>

theorem driver_cmd_out_of_bounds:
  "wpa_driver_nl80211_driver_cmd max_errors parent obs bss cmd buf e = Inl OutOfBounds \<longleftrightarrow>
     route bss parent \<noteq> None \<and> \<not> strcasecmp_eq cmd ''STOP'' \<and> \<not> strcasecmp_eq cmd ''START'' \<and> \<not> strcasecmp_eq cmd ''MACADDR'' \<and>
     (length buf < length cmd + 1 \<or> 0 \<le> ioctl_ret obs \<and> 0 \<notin> set (ioctl_buf obs (overwrite buf 0 (cmd @ [0]))))"
proof (cases "route bss parent")
  case (Some b)
  show ?thesis
    by (auto simp: wpa_driver_nl80211_driver_cmd_def Some snprintf_def private_command_def store_def buf_strlen_def Let_def
        split: prod.splits)
qed (simp add: wpa_driver_nl80211_driver_cmd_def)


text \<open>Failing commands to an interface whose buffer has 32 bytes; and one that is longer than its buffer.\<close>

definition sample_bss :: i802_bss where
  "sample_bss = \<lparr>bss_ifname = bytes_of ''wlan0'', bss_ifindex = 3, bss_wdev_id = 0\<rparr>"

definition sample_obs :: "int \<Rightarrow> drv_obs" where
  "sample_obs ret = \<lparr>hwaddr_ret = 0, hwaddr = replicate 6 0, ioctl_ret = ret, ioctl_buf = (\<lambda>b. b)\<rparr>"

definition sample_call :: "int \<Rightarrow> drv_call" where
  "sample_call ret =
     \<lparr>call_parent = None, call_obs = sample_obs ret, call_bss = sample_bss, call_cmd = bytes_of ''RSSI'', call_buf = replicate 32 0\<rparr>"

theorem hang_reported_witness: "\<exists>es. run_calls 4 (replicate 11 (sample_call (-1))) 0 = Inr (1, es) \<and> hangs es = 2"
proof -
  have "failing (sample_call (-1))"
    by (simp add: failing_def private_call_def fits_def sample_call_def sample_obs_def sample_bss_def route_def strcasecmp_eq_def
        bytes_of_def lower_def)
  then have "\<forall>x \<in> set (replicate 11 (sample_call (-1))). failing x" by simp
  from hang_reported [OF _ _ this, of 0 4] show ?thesis by simp
qed

theorem driver_cmd_out_of_bounds_witness:
  "wpa_driver_nl80211_driver_cmd 4 None (sample_obs 0) sample_bss (bytes_of ''SET_AP_WPS_P2P_IE'') (replicate 8 0) 0 = Inl OutOfBounds"
  unfolding driver_cmd_out_of_bounds
  by (simp add: route_def sample_bss_def strcasecmp_eq_def bytes_of_def lower_def)

end
