(* ===== verification/Spec2Isabelle.thy ===== *)
theory Spec2Isabelle
  imports Prelude Hci Deframe Scomm Rx Posix CpLog Snoop BdAddr HwCfg CfgState Conf Tx Threads Ports Vendor Session
    Bringup Startup Resume Lifecycle WifiMask WifiCmd WifiHal WifiMsg WifiTable DriverCmd
begin

text \<open>
  Verification of the SeekWave hardware layer for Android: the Bluetooth vendor library
  (\<open>src/skwbt\<close>), the Wi-Fi HAL (\<open>src/wlan/wifi_hal\<close>) and the private driver commands of
  \<open>wpa_supplicant\<close> (\<open>src/wlan/wpa_supplicant_8_lib\<close>).

  The Bluetooth library stands between the Bluetooth stack and the controller. The stack calls
  \<open>init\<close>, \<open>op\<close> and \<open>cleanup\<close> (\<open>bt_vendor_skw.c\<close>). \<open>init\<close> reads \<open>skwbt.conf\<close> and opens the logs. The
  operation \<open>USERIAL_OPEN\<close> opens the device nodes and, for each port, a pair of sockets and a receive
  thread that sorts the controller's bytes into packets, captures them for the snoop log, sends them
  up or hands log packets to the CP log; port 0 has a second thread for the packets of the stack.
  \<open>FW_CFG\<close> starts the configuration of the controller, a state machine driven by its events, and
  \<open>USERIAL_CLOSE\<close> takes everything down. The Wi-Fi HAL is a table of functions, a dozen of which send
  a netlink command and parse the answer, with an initialisation, an event loop and a clean-up; the others
  only return.

  Theories, in the order of their imports, with the code they model:

  \<^item> \<open>Prelude\<close>: words of 8, 16, 32 and 64 bits, buffers and block stores, faults (\<open>c_fault\<close>), byte orders.
  \<^item> \<open>Hci\<close>: packet types, header sizes and the hexadecimal dump of \<open>scom_vendor.c\<close>; the wire format of the host
    controller interface (\<open>hci_packet\<close>, \<open>hci_encode\<close>), against which the theorems on the receive thread, the
    socket thread and the snoop log are stated.
  \<^item> \<open>Deframe\<close>: the interface of a parser that cuts packets off the front of a stream, as a locale;
    \<open>Rx\<close>, \<open>Snoop\<close> and \<open>HwCfg\<close> interpret it on their formats.
  \<^item> \<open>Scomm\<close>: the port table (\<open>scomm_vnd_st\<close>), names, line parameters, opening of the devices.
  \<^item> \<open>Rx\<close>: the receive thread \<open>scomm_vendor_recv_scomm_thread\<close>, its parse loop and its resynchronisation.
  \<^item> \<open>Posix\<close>: the files the logs use: directory, inodes, descriptors, \<open>errno\<close>; its locale \<open>file_store\<close> states
    what writing, opening and renaming promise.
  \<^item> \<open>CpLog\<close> (\<open>skw_log.c\<close>), \<open>Snoop\<close> (\<open>skw_btsnoop.c\<close>), \<open>BdAddr\<close> (\<open>skw_gen_addr.c\<close>): the logs and the address,
    over that file system.
  \<^item> \<open>HwCfg\<close>: the callback \<open>scomm_vendor_config_callback\<close> with the NV files of the 6316 and the 6160;
    \<open>CfgState\<close>: its states, ordered, and what holds in every reachable one.
  \<^item> \<open>Conf\<close>: both readers of \<open>skwbt.conf\<close> in \<open>bt_vendor_skw.c\<close>, over the text of the file.
  \<^item> \<open>Tx\<close>: the way from the stack to the controller (\<open>scomm_vendor_recv_socket_thread\<close>,
    \<open>scomm_vendor_recv_rawdata\<close>) and the write loop \<open>scomm_vendor_send_to_host\<close>; the locale \<open>write_loop\<close> is
    what both write loops share.
  \<^item> \<open>Threads\<close>: the receive and socket threads logging at the same time: \<open>skw_btsnoop_capture\<close> taken apart into the steps
    other threads can see (its test, the lock, each write, the rotation) and run under any schedule.
  \<^item> \<open>Ports\<close>: sockets and threads of a port, over an account of descriptors and threads; the locale
    \<open>ledger\<close> is interpreted for both resources.
  \<^item> \<open>Vendor\<close>: \<open>init\<close>, \<open>op\<close> and \<open>cleanup\<close> over the state of all parts; \<open>Session\<close>: what opening returns and
    closing gives back; \<open>Startup\<close>: the logs from \<open>init\<close> over the threads to \<open>cleanup\<close>; \<open>Resume\<close>: the same on the
    files a previous process has left; \<open>Lifecycle\<close>: descriptors,
    threads and ports over a whole session; \<open>Bringup\<close>: the commands of
    \<open>FW_CFG\<close> on their way through the socket thread.
  \<^item> \<open>WifiMask\<close>: the translation of band and interface masks, its loops as the locale \<open>mask_translation\<close>;
    \<open>WifiCmd\<close>: \<open>sendMsg\<close> of \<open>wifi_command.cpp\<close> and the
    command classes of \<open>main.cpp\<close>; \<open>WifiHal\<close>: what the commands report, the multicast groups, and the life of the
    HAL; \<open>WifiMsg\<close>: the class \<open>WifiCommand\<close> and how the builders put a message together by calls of libnl, which is
    an argument (\<open>libnl_laws\<close> states what its documentation says); \<open>WifiTable\<close>: the function table and the functions that only return.
  \<^item> \<open>DriverCmd\<close>: \<open>driver_cmd_nl80211.c\<close>.
  \<^item> this theory: both threads of port 0 and both logs together, and the library as the host sees it.

  How state and operations correspond: a C structure is a record with the names of its fields, a
  function a definition of its name, an integer a word of its width where its width matters, global
  variables the fields of a record that is passed through. What a call into the kernel, libnl, the
  stack or the vendor storage returns is an argument; a thread is a function of the sequence of
  these answers, so that a theorem about it holds for every interleaving that such a sequence can
  express. Undefined behaviour, reads and writes out of bounds, use after free, null pointers and a failed
  \<open>assert\<close>, is a value of \<open>c_fault\<close>, and a theorem that a run ends in \<open>Inr\<close> says that it has none.

  Fuel: the parse loop of \<open>Rx\<close> takes fuel, because a packet length that wraps to 0 makes it run for
  ever; one unit for each byte of the buffer (\<open>RX_BUF_SIZE\<close>, 2056) is enough whenever no length wraps
  (\<open>rx_parse_terminates\<close>). Every other loop ends by itself: a finite run of answers, the number of bits of
  a mask, the contents of a file. Where a C loop waits for an answer, running out of them is a value
  of its own, never a result. In \<open>Threads\<close> a schedule is a finite list of thread numbers; eleven turns of each thread
  for every operation of all of them are enough (\<open>threads_finish\<close>).

  What the groups of lemmas show: the receive and send paths deliver whole packets in order however
  they are chunked, and the inputs for which they do not; the logs keep their data across rotation and
  parse back, also when several threads write to them in any interleaving and when a later session goes on with them; the configuration sends the NV files record by record and ends, and the files for which
  it does not; opening and closing give back every descriptor; the configuration file sets what its lines
  say; the masks are translated as a table says; every Wi-Fi command is sent with the header and the
  attributes of its specification; the commands report success whatever the kernel answers;
  and the buffers that callers and kernel can overflow.

  Not modelled: the text of log messages to the system log; the threads beyond the logs (each iteration of a receive
  thread, and each call of \<open>skwlog_write\<close> under its own lock, is one step; \<open>Ports\<close> and \<open>Vendor\<close> run their
  functions as one step); signals; the delays; the destructors and accessors of the command classes and the
  reference counts of their callbacks; the attributes of the UART beyond speed and framing;
  \<open>nl80211\<close> attribute numbers, \<open>wifi_hal.h\<close> and \<open>DRV_NUMBER_SEQUENTIAL_ERRORS\<close>, which are not in
  the repository and are constructors or parameters; the shipped NV and configuration files but as inputs of witnesses; and the Android make files.
\<close>

section \<open>The receive thread and the logs together\<close>

text \<open>
  The effect of the receive thread's events on the two logs: log packets go to the CP log, the
  other packets are captured before they go to the host.
\<close>

fun rx_logs :: "clock \<Rightarrow> rx_event list \<Rightarrow> logs \<Rightarrow> c_fault + logs" where
  "rx_logs clk [] s = Inr s"
| "rx_logs clk (Skwlog_write p # es) s = rx_logs clk es (skwlog_write clk p s)"
| "rx_logs clk (Btsnoop_capture b r # es) s =
     (case skw_btsnoop_capture clk b r s of Inl e \<Rightarrow> Inl e | Inr s' \<Rightarrow> rx_logs clk es s')"
| "rx_logs clk (Send_to_host _ _ # es) s = rx_logs clk es s"
| "rx_logs clk (Close_fd _ # es) s = rx_logs clk es s"

text \<open>A captured buffer: the snoop log takes the packet at its front, neither more nor less.\<close>

lemma snoop_extent_packet:
  assumes "rx_need p = Some (length p)" "\<not> is_log_frame p" "take (length p) b = p"
  shows "\<exists>flags. snoop_extent b r = Inr (Some (length p, flags))"
proof -
  have p: "p \<noteq> []" "is_rx_type (p ! 0)" "unat (rx_hdr_lens (p ! 0)) \<le> length p"
    "length p = unat (rx_payload_len p) + unat (rx_hdr_lens (p ! 0))"
    using assms(1) by (auto simp: rx_need_def split: if_splits)
  have lb: "length p \<le> length b"
    using assms(3) by (metis length_take min.cobounded1)
  have nth: "b ! i = p ! i" if "i < length p" for i
    using that assms(3) by (metis nth_take)
  have "p ! 0 \<noteq> HCI_EVENT_SKWLOG"
    using assms(2) by (simp add: is_log_frame_def)
  then consider "p ! 0 = HCI_EVENT_PKT" | "p ! 0 = HCI_ACLDATA_PKT \<or> p ! 0 = HCI_ISO_PKT" | "p ! 0 = HCI_SCODATA_PKT"
    using p(2) by (auto simp: is_rx_type_def)
  then show ?thesis
  proof cases
    case 1
    then show ?thesis
      using p(1,3,4) lb nth [of 0] nth [of 2]
      by (auto simp: snoop_extent_def packet_at_def rx_hdr_lens_def rx_payload_len_def)
  next
    case 2
    then show ?thesis
      using p(1,3,4) lb nth [of 0] nth [of 3] nth [of 4]
      by (auto simp: snoop_extent_def packet_at_def rx_hdr_lens_def rx_payload_len_def)
  next
    case 3
    then show ?thesis
      using p(1,3,4) lb nth [of 0] nth [of 3]
      by (auto simp: snoop_extent_def packet_at_def rx_hdr_lens_def rx_payload_len_def)
  qed
qed

lemma length_concat_filter: "length (concat (filter P xs)) \<le> length (concat xs)"
  by (induction xs) auto

lemma rx_logs_capture:
  assumes "logs_open s trace c (length p + n) m" "snoop_parse trace = Some recs"
    and "rx_need p = Some (length p)" "\<not> is_log_frame p" "take (length p) b = p"
  shows "\<exists>s' r. skw_btsnoop_capture clk b rx s = Inr s' \<and> logs_open s' (trace @ r) c n m \<and>
    snoop_parse (trace @ r) = Some (recs @ [r]) \<and> snoop_payload r = p \<and>
    skw_btsnoop_path s' = skw_btsnoop_path s \<and> skwlog_path s' = skwlog_path s"
proof -
  note o = assms(1) [unfolded logs_open_def]
  from snoop_extent_packet [OF assms(3-5), of rx] obtain flags where
    ext: "snoop_extent b rx = Inr (Some (length p, flags))" by blast
  have lb: "length p \<le> length b"
    using assms(5) by (metis length_take min.cobounded1)
  have lim: "unat (btsnoop_rev_length s) + length p < unat SNOOP_LIMIT" using o by simp
  note cap = skw_btsnoop_capture_below [OF _ _ ext lb lim refl refl, of clk]
  let ?r = "snoop_record (skw_btsnoop_timestamp clk) flags p"
  let ?s = "s\<lparr>fs := fold (px_write (hci_btsnoop_fd s)) (snoop_chunks (skw_btsnoop_timestamp clk) flags p) (fs s),
    btsnoop_rev_length := btsnoop_rev_length s + of_nat (length p)\<rparr>"
  have cap': "skw_btsnoop_capture clk b rx s = Inr ?s" "snoop_inv ?s"
    "unat (btsnoop_rev_length ?s) = unat (btsnoop_rev_length s) + length p"
    using cap o assms(5) by simp_all
  have fd: "px_ok (fs s)" "px_linked (fs s) (hci_btsnoop_fd s) (skw_btsnoop_path s)"
    using o by (auto simp: snoop_inv_def snoop_ready_def cplog_inv_def cplog_ok_def)
  have content: "px_content (fs ?s) = (px_content (fs s))(skw_btsnoop_path s \<mapsto> trace @ ?r)"
    using px.wr_all(3) [OF fd, of trace] o by (simp add: snoop_record_def)
  have "length p < 2 ^ 32"
    using snoop_extent_less [OF ext] by simp
  from snoop_parse_append [OF assms(2) snoop_record_frame [OF this]]
  have "snoop_parse (trace @ ?r) = Some (recs @ [?r])" .
  moreover have "logs_open ?s (trace @ ?r) c n m"
    using o cap'(2,3) content logs_open_differ [OF assms(1)] unfolding logs_open_def by simp
  ultimately show ?thesis
    using cap'(1) by (intro exI [of _ ?s] exI [of _ ?r]) (simp add: snoop_record_fields)
qed

lemma rx_logs_run:
  assumes "logs_open s trace c (length (concat ps)) (length (concat (rx_log es)))" "snoop_parse trace = Some recs"
    and "list_all2 (\<lambda>b p. take (length p) b = p) (rx_captured es) ps"
    and "\<forall>p \<in> set ps. rx_need p = Some (length p) \<and> \<not> is_log_frame p"
  shows "\<exists>s' trace' rs. rx_logs clk es s = Inr s' \<and> snoop_parse trace' = Some (recs @ rs) \<and> map snoop_payload rs = ps \<and>
    px_content (fs s') (skw_btsnoop_path s) = Some trace' \<and> px_content (fs s') (skwlog_path s) = Some (c @ concat (rx_log es))"
  using assms
proof (induction clk es s arbitrary: trace c ps recs rule: rx_logs.induct)
  case (1 clk s)
  then show ?case by (auto simp: logs_open_def)
next
  case (2 clk p es s)
  have "logs_open s trace c (length (concat ps)) (length p + length (concat (rx_log es)))"
    using "2.prems"(1) by simp
  note w = logs_open_write [OF this, of clk]
  from "2.IH" [OF w(1) "2.prems"(2)] "2.prems"(3,4) w(2,3) show ?case by simp
next
  case (3 clk b r es s)
  from "3.prems"(3) obtain p ps' where ps: "ps = p # ps'" "take (length p) b = p"
    "list_all2 (\<lambda>b p. take (length p) b = p) (rx_captured es) ps'"
    by (cases ps) auto
  have p: "rx_need p = Some (length p)" "\<not> is_log_frame p" "\<forall>p \<in> set ps'. rx_need p = Some (length p) \<and> \<not> is_log_frame p"
    using "3.prems"(4) ps(1) by simp_all
  have "logs_open s trace c (length p + length (concat ps')) (length (concat (rx_log es)))"
    using "3.prems"(1) ps(1) by simp
  from rx_logs_capture [OF this "3.prems"(2) p(1,2) ps(2), of clk r] obtain s1 rc where s1:
    "skw_btsnoop_capture clk b r s = Inr s1" "logs_open s1 (trace @ rc) c (length (concat ps')) (length (concat (rx_log es)))"
    "snoop_parse (trace @ rc) = Some (recs @ [rc])" "snoop_payload rc = p"
    "skw_btsnoop_path s1 = skw_btsnoop_path s" "skwlog_path s1 = skwlog_path s" by blast
  from "3.IH" [OF s1(1,2,3) ps(3) p(3)] obtain s' trace' rs where
    "rx_logs clk es s1 = Inr s'" "snoop_parse trace' = Some ((recs @ [rc]) @ rs)" "map snoop_payload rs = ps'"
    "px_content (fs s') (skw_btsnoop_path s1) = Some trace'" "px_content (fs s') (skwlog_path s1) = Some (c @ concat (rx_log es))"
    by blast
  with s1 ps(1) show ?case
    by (intro exI [of _ s'] exI [of _ trace'] exI [of _ "rc # rs"]) simp
next
  case (4 clk i p es s)
  then show ?case by simp
next
  case (5 clk d es s)
  then show ?case by simp
qed

text \<open>
  From the wire to the files. If the controller sends a sequence of packets, in whatever chunks
  they are read, then the logs end up with exactly what was delivered: the snoop file, which parsed
  before, parses to its old records followed by one record for each packet passed to the host, in
  order and whole, and the CP log is extended by exactly the delivered log packets; every received
  byte belongs to a delivered packet or is pending for the next read, with no whole packet in it.
\<close>

theorem recv_scomm_logged:
  assumes "\<forall>m \<in> set ms. rx_message m" and "received os @ ys = concat (map hci_encode ms)"
    and "\<forall>ro \<in> set os. undisturbed ro" and "RX_BUF_SIZE \<le> fuel"
    and "reads_ok fuel port_index os (rx_thread_init p)"
    and "logs_open s trace c (length (concat (map hci_encode ms))) (length (concat (map hci_encode ms)))"
    and "snoop_parse trace = Some recs"
  shows "\<exists>k out st s' trace' rs. scomm_vendor_recv_scomm_thread fuel port_index os p = Some (out, st, True) \<and>
    rx_logs clk out s = Inr s' \<and>
    rx_host out = map hci_encode (filter (\<lambda>m. \<not> is_log m) (take k ms)) \<and>
    px_content (fs s') (skw_btsnoop_path s) = Some trace' \<and> snoop_parse trace' = Some (recs @ rs) \<and>
    map snoop_payload rs = rx_host out \<and>
    px_content (fs s') (skwlog_path s) = Some (c @ concat (map hci_encode (filter is_log (take k ms)))) \<and>
    concat (map hci_encode (take k ms)) @ rx_pending st = received os \<and> rx_waiting (rx_pending st)"
proof -
  define ps where "ps = map hci_encode ms"
  have ps: "\<forall>p \<in> set ps. rx_packet p"
    using assms(1) rx_message_packet by (auto simp: ps_def)
  from recv_scomm_stream [OF ps assms(2-5) [folded ps_def]] obtain k out st where run:
    "scomm_vendor_recv_scomm_thread fuel port_index os p = Some (out, st, True)" "rx_delivers out (take k ps)"
    "concat (take k ps) @ rx_pending st = received os" "rx_waiting (rx_pending st)" by blast
  note del = run(2) [unfolded rx_delivers_def]
  have frames: "\<forall>p \<in> set (rx_host out). rx_need p = Some (length p) \<and> \<not> is_log_frame p"
    using del ps by (auto simp: rx_packet_def dest: in_set_takeD)
  have le: "length (concat (filter P (take k ps))) \<le> length (concat ps)" for P
    by (metis append_take_drop_id concat_append le_add1 le_trans length_append length_concat_filter)
  have "logs_open s trace c (length (concat (rx_host out))) (length (concat (rx_log out)))"
    using assms(6) [folded ps_def] le [of "\<lambda>p. \<not> is_log_frame p"] le [of is_log_frame] del
    by (auto simp: logs_open_def intro: le_less_trans)
  from rx_logs_run [OF this assms(7) _ frames, of clk] del obtain s' trace' rs where
    "rx_logs clk out s = Inr s'" "snoop_parse trace' = Some (recs @ rs)" "map snoop_payload rs = rx_host out"
    "px_content (fs s') (skw_btsnoop_path s) = Some trace'" "px_content (fs s') (skwlog_path s) = Some (c @ concat (rx_log out))"
    by blast
  with run(1,3,4) run(2) [unfolded ps_def take_map rx_delivers_encode] show ?thesis
    by (intro exI [of _ k] exI [of _ out] exI [of _ st] exI [of _ s'] exI [of _ trace'] exI [of _ rs]) (simp add: ps_def take_map)
qed

theorem recv_scomm_logged_witness:
  "\<exists>k out st s' trace' rs. scomm_vendor_recv_scomm_thread 2056 0 [data_obs [4, 0x0E, 1, 0x55, 7, 0, 1, 0, 0xAA, 2, 1]]
       zero_scomm = Some (out, st, True) \<and>
     rx_logs sample_clock out sample_both = Inr s' \<and>
     px_content (fs s') ''/d/b'' = Some trace' \<and> snoop_parse trace' = Some rs \<and> map snoop_payload rs = rx_host out \<and>
     px_content (fs s') ''/d/skwlog.log'' =
       Some (skwlog_header @ concat (map hci_encode (filter is_log (take k [Hci_event 0x0E [0x55], Skw_log 0 [0xAA], Hci_acl 1 0 [9]]))))"
proof -
  let ?ms = "[Hci_event 0x0E [0x55], Skw_log 0 [0xAA], Hci_acl 1 0 [9]]"
  let ?os = "[data_obs [4, 0x0E, 1, 0x55, 7, 0, 1, 0, 0xAA, 2, 1]]"
  have ms: "\<forall>m \<in> set ?ms. rx_message m"
    by (simp add: rx_message_def RX_BUF_SIZE_def)
  have os: "received ?os @ [0, 1, 0, 9] = concat (map hci_encode ?ms)" "\<forall>ro \<in> set ?os. undisturbed ro" "RX_BUF_SIZE \<le> 2056"
    by (simp_all add: RX_BUF_SIZE_def)
  have reads: "reads_ok 2056 0 ?os (rx_thread_init zero_scomm)"
    by (rule reads_ok_single) (simp_all add: RX_BUF_SIZE_def)
  have "log_dir ''/d/b'' = ''/d''"
    by (simp add: log_dir_def is_separator_def eval_nat_numeral)
  then have paths: "skw_btsnoop_path sample_both = ''/d/b''" "skwlog_path sample_both = ''/d/skwlog.log''"
    by (simp_all add: skwlog_path_def sample_both_def sample_snoop_def)
  have "logs_open sample_both btsnoop_header skwlog_header
      (length (concat (map hci_encode ?ms))) (length (concat (map hci_encode ?ms)))"
    by (rule sample_both_open) simp_all
  from recv_scomm_logged [OF ms os reads this snoop_parse_header, of sample_clock] show ?thesis
    unfolding paths append_Nil by blast
qed


section \<open>Both directions and the logs together\<close>




section \<open>From the controller to the host's socket\<close>

lemma deframe_all:
  "\<forall>p \<in> set ps. rx_need p = Some (length p) \<Longrightarrow> deframe rx_need (concat ps) = (ps, [])"
  using rx.deframe_frames [of ps "[]"] by simp

text \<open>
  C9: The library is transparent towards the host. The receive thread reads the controller's packets in whatever chunks, and the sends to
  the host's socket get through, with whatever partial, empty and failing writes in between. Then the
  host finds in its socket just the bytes of the delivered packets that are not log packets, and cutting
  them up by their headers gives these packets back, in order.
\<close>

theorem host_receives_packets:
  assumes "\<forall>msg \<in> set ms. rx_message msg" and "received os @ ys = concat (map hci_encode ms)"
    and "\<forall>ro \<in> set os. undisturbed ro" and "RX_BUF_SIZE \<le> fuel" and "reads_ok fuel port_index os (rx_thread_init p)"
    and "list_all2 gets_through (map hci_encode (filter (\<lambda>msg. \<not> is_log msg) ms)) oss"
  shows "\<exists>k out st. scomm_vendor_recv_scomm_thread fuel port_index os p = Some (out, st, True) \<and>
    concat (map hci_encode (take k ms)) @ rx_pending st = received os \<and> rx_waiting (rx_pending st) \<and>
    snd (host_stream oss out) \<and>
    deframe rx_need (fst (host_stream oss out)) = (map hci_encode (filter (\<lambda>msg. \<not> is_log msg) (take k ms)), [])"
proof -
  define ps where "ps = map hci_encode ms"
  have ps: "\<forall>p \<in> set ps. rx_packet p"
    using assms(1) rx_message_packet by (auto simp: ps_def)
  from recv_scomm_stream [OF ps assms(2-5) [folded ps_def]] obtain k out st where rx:
    "scomm_vendor_recv_scomm_thread fuel port_index os p = Some (out, st, True)" "rx_delivers out (take k ps)"
    "concat (take k ps) @ rx_pending st = received os" "rx_waiting (rx_pending st)" by blast
  have host: "rx_host out = map hci_encode (filter (\<lambda>msg. \<not> is_log msg) (take k ms))"
    using rx(2) unfolding ps_def take_map rx_delivers_encode by metis
  have up: "map hci_encode (filter (\<lambda>msg. \<not> is_log msg) ms) =
      rx_host out @ map hci_encode (filter (\<lambda>msg. \<not> is_log msg) (drop k ms))"
    unfolding host by (metis append_take_drop_id filter_append map_append)
  have sent: "\<forall>p \<in> set (rx_host out). rx_packet p"
    using ps unfolding host ps_def by (auto dest: in_set_takeD)
  then have "host_stream oss out = (concat (rx_host out), True)"
    using assms(6) unfolding up by (intro host_stream_all) (auto simp: rx_packet_def RX_BUF_SIZE_def)
  moreover have "deframe rx_need (concat (rx_host out)) = (rx_host out, [])"
    using sent by (intro deframe_all) (simp add: rx_packet_def)
  ultimately show ?thesis
    using rx(1,3,4) unfolding host ps_def take_map by (metis fst_conv snd_conv)
qed

theorem host_receives_packets_witness:
  "\<exists>k out st. scomm_vendor_recv_scomm_thread 2056 0 [data_obs [4, 0x0E, 1, 0x55, 7, 0, 1, 0, 0xAA, 2, 1]] zero_scomm = Some (out, st, True) \<and>
     deframe rx_need (fst (host_stream [[(True, Write_error), (True, Wrote 4)], [(True, Wrote 5), (True, Wrote 1)]] out)) =
       (map hci_encode (filter (\<lambda>msg. \<not> is_log msg) (take k [Hci_event 0x0E [0x55], Skw_log 0 [0xAA], Hci_acl 1 0 [9]])), [])"
proof -
  let ?ms = "[Hci_event 0x0E [0x55], Skw_log 0 [0xAA], Hci_acl 1 0 [9]]"
  let ?os = "[data_obs [4, 0x0E, 1, 0x55, 7, 0, 1, 0, 0xAA, 2, 1]]"
  let ?oss = "[[(True, Write_error), (True, Wrote 4)], [(True, Wrote 5), (True, Wrote 1)]]"
  have ms: "\<forall>m \<in> set ?ms. rx_message m"
    by (simp add: rx_message_def RX_BUF_SIZE_def)
  have os: "received ?os @ [0, 1, 0, 9] = concat (map hci_encode ?ms)" "\<forall>ro \<in> set ?os. undisturbed ro" "RX_BUF_SIZE \<le> 2056"
    by (simp_all add: RX_BUF_SIZE_def)
  have reads: "reads_ok 2056 0 ?os (rx_thread_init zero_scomm)"
    by (rule reads_ok_single) (simp_all add: RX_BUF_SIZE_def)
  have "list_all2 gets_through (map hci_encode (filter (\<lambda>msg. \<not> is_log msg) ?ms)) ?oss"
    by (simp add: gets_through_def)
  from host_receives_packets [OF ms os reads this] show ?thesis by blast
qed

end
